(* ===== verification/Tclm_Prelude.thy ===== *)
theory Tclm_Prelude
  imports Main "HOL-Library.Word" "HOL-Library.Multiset" "HOL-Library.Char_ord"
    "HOL-Library.List_Lexorder" "HOL-Library.Product_Lexorder" "HOL-Library.Sublist"
begin

text \<open>
  Shared vocabulary of the development: the machine types of the C++ code, the kinds of undefined
  behaviour the code could run into, and the generic lemmas on lists and multisets that the
  component theories use.
\<close>

type_synonym byte = "8 word"
type_synonym u16 = "16 word"
type_synonym u32 = "32 word"
type_synonym lock_mode = "8 word"
type_synonym proc = "32 word"

text \<open>
  \<open>Bad_Index\<close> is a \<open>std::vector::operator[]\<close> access past the end;
  \<open>Erase_End\<close> is \<open>erase\<close> called with the \<open>end()\<close> iterator that a failed
  \<open>find\<close> returns; \<open>Out_Of_Bounds\<close> is a read or write outside an allocated block; \<open>Dangling\<close>
  is a pointer to an object that is gone. All are undefined in C++, so the model stops with them.
\<close>

datatype fault = Bad_Index | Erase_End | Out_Of_Bounds | Dangling

named_theorems fault_splits "case distinctions over results and options"

declare sum.splits [fault_splits] option.splits [fault_splits] prod.splits [fault_splits]
  if_splits [fault_splits]

subsection \<open>The first index that satisfies a predicate\<close>

fun find_index :: "('a \<Rightarrow> bool) \<Rightarrow> 'a list \<Rightarrow> nat option" where
  "find_index P [] = None"
| "find_index P (x # xs) = (if P x then Some 0 else map_option Suc (find_index P xs))"

lemma find_index_SomeD:
  "find_index P xs = Some i \<Longrightarrow> i < length xs \<and> P (xs ! i) \<and> (\<forall>j < i. \<not> P (xs ! j))"
proof (induction xs arbitrary: i)
  case Nil
  then show ?case by simp
next
  case (Cons x xs)
  show ?case
  proof (cases "P x")
    case True
    with Cons.prems show ?thesis by simp
  next
    case False
    with Cons.prems obtain k where k: "find_index P xs = Some k" "i = Suc k" by auto
    from Cons.IH[OF k(1)] False k(2) show ?thesis
      by (auto simp: less_Suc_eq_0_disj nth_Cons split: nat.splits)
  qed
qed

lemma find_index_length: "find_index P xs = Some i \<Longrightarrow> i < length xs"
  by (simp add: find_index_SomeD)

lemma find_index_nth: "find_index P xs = Some i \<Longrightarrow> P (xs ! i)"
  by (simp add: find_index_SomeD)

lemma find_index_None_iff: "find_index P xs = None \<longleftrightarrow> (\<forall>x\<in>set xs. \<not> P x)"
  by (induction xs) auto

lemma find_index_Some_neq_Nil: "find_index P xs = Some i \<Longrightarrow> xs \<noteq> []"
  by (cases xs) auto

subsection \<open>Updating one element of a list, seen through multisets\<close>

lemma in_set_list_update:
  "y \<in> set (xs[i := x]) \<Longrightarrow> y = x \<or> y \<in> set xs"
  using set_update_subset_insert by fastforce

lemma sum_mset_list_update:
  assumes "i < length xs"
  shows "(\<Sum>c\<leftarrow>xs[i := x]. f c :: 'b multiset) + f (xs ! i) = (\<Sum>c\<leftarrow>xs. f c) + f x"
  using assms
proof (induction xs arbitrary: i)
  case Nil
  then show ?case by simp
next
  case (Cons a xs)
  show ?case
  proof (cases i)
    case 0
    then show ?thesis by (simp add: ac_simps)
  next
    case (Suc j)
    with Cons.prems have "j < length xs" by simp
    from Cons.IH[OF this] Suc show ?thesis
      by (simp add: ac_simps)
  qed
qed

lemma sum_mset_ge_nth:
  assumes "i < length xs"
  shows "(f (xs ! i) :: 'b multiset) \<subseteq># (\<Sum>c\<leftarrow>xs. f c)"
  using assms
proof (induction xs arbitrary: i)
  case Nil
  then show ?case by simp
next
  case (Cons a xs)
  show ?case
  proof (cases i)
    case 0
    then show ?thesis by simp
  next
    case (Suc j)
    with Cons.prems have "f (xs ! j) \<subseteq># (\<Sum>c\<leftarrow>xs. f c)" by (intro Cons.IH) simp
    with Suc show ?thesis by (simp add: subset_mset.add_increasing)
  qed
qed

end
