(* ===== verification/Messages.thy ===== *)
theory Messages
  imports Tclm_Prelude
begin

text \<open>
  The constants of \<open>src/src/messages.h\<close>, \<open>src/src/backend_operation_defines.h\<close>
  and the return codes of \<open>src/src/server/Lock.h\<close>. Values that travel in messages are
  machine words with the value of the \<open>#define\<close>; return codes that never leave the
  server are datatypes with one constructor per \<open>#define\<close>.
\<close>

subsection \<open>Lock modes\<close>

abbreviation MSG_LOCK_MODE_S :: lock_mode where "MSG_LOCK_MODE_S \<equiv> 0"
abbreviation MSG_LOCK_MODE_Splus :: lock_mode where "MSG_LOCK_MODE_Splus \<equiv> 1"
abbreviation MSG_LOCK_MODE_X :: lock_mode where "MSG_LOCK_MODE_X \<equiv> 2"

abbreviation LOCK_REQUEST_MODE_S :: lock_mode where "LOCK_REQUEST_MODE_S \<equiv> MSG_LOCK_MODE_S"
abbreviation LOCK_REQUEST_MODE_Splus :: lock_mode where
  "LOCK_REQUEST_MODE_Splus \<equiv> MSG_LOCK_MODE_Splus"
abbreviation LOCK_REQUEST_MODE_X :: lock_mode where "LOCK_REQUEST_MODE_X \<equiv> MSG_LOCK_MODE_X"

subsection \<open>Return codes of the lock tree\<close>

datatype acquire_code = LOCK_ACQUIRE_ACQUIRED | LOCK_ACQUIRE_QUEUED | LOCK_ACQUIRE_NON_EXISTENT

datatype release_code = LOCK_RELEASE_SUCCESS | LOCK_RELEASE_NOT_HELD

datatype destroy_code =
  LOCK_DESTROY_SUCCESS | LOCK_DESTROY_NON_EXCLUSIVE | LOCK_DESTROY_NON_EXISTENT

datatype create_code =
  LOCK_CREATE_CREATED | LOCK_CREATE_QUEUED | LOCK_CREATE_EXISTS | LOCK_CREATE_PARENT_NOT_HELD

subsection \<open>Message identifiers\<close>

abbreviation MSG_ID_REG_PROC :: byte where "MSG_ID_REG_PROC \<equiv> 0x01"
abbreviation MSG_ID_REG_PROC_RESPONSE :: byte where "MSG_ID_REG_PROC_RESPONSE \<equiv> 0x02"
abbreviation MSG_ID_UNREG_PROC :: byte where "MSG_ID_UNREG_PROC \<equiv> 0x03"
abbreviation MSG_ID_UNREG_PROC_RESPONSE :: byte where "MSG_ID_UNREG_PROC_RESPONSE \<equiv> 0x04"
abbreviation MSG_ID_LIST_PROCS :: byte where "MSG_ID_LIST_PROCS \<equiv> 0x05"
abbreviation MSG_ID_LIST_PROCS_RESPONSE :: byte where "MSG_ID_LIST_PROCS_RESPONSE \<equiv> 0x06"
abbreviation MSG_ID_LIST_CONNS :: byte where "MSG_ID_LIST_CONNS \<equiv> 0x07"
abbreviation MSG_ID_LIST_CONNS_RESPONSE :: byte where "MSG_ID_LIST_CONNS_RESPONSE \<equiv> 0x08"
abbreviation MSG_ID_LIST_LOCKS :: byte where "MSG_ID_LIST_LOCKS \<equiv> 0x09"
abbreviation MSG_ID_LIST_LOCKS_RESPONSE :: byte where "MSG_ID_LIST_LOCKS_RESPONSE \<equiv> 0x0A"
abbreviation MSG_ID_CREATE_LOCK :: byte where "MSG_ID_CREATE_LOCK \<equiv> 0x0B"
abbreviation MSG_ID_CREATE_LOCK_UPDATE :: byte where "MSG_ID_CREATE_LOCK_UPDATE \<equiv> 0x0C"
abbreviation MSG_ID_RELEASE_LOCK :: byte where "MSG_ID_RELEASE_LOCK \<equiv> 0x0D"
abbreviation MSG_ID_RELEASE_LOCK_RESPONSE :: byte where "MSG_ID_RELEASE_LOCK_RESPONSE \<equiv> 0x0E"
abbreviation MSG_ID_ACQUIRE_LOCK :: byte where "MSG_ID_ACQUIRE_LOCK \<equiv> 0x0F"
abbreviation MSG_ID_ACQUIRE_LOCK_UPDATE :: byte where "MSG_ID_ACQUIRE_LOCK_UPDATE \<equiv> 0x10"
abbreviation MSG_ID_LIST_LOCKS_PROCESS :: byte where "MSG_ID_LIST_LOCKS_PROCESS \<equiv> 0x11"
abbreviation MSG_ID_LIST_LOCKS_PROCESS_RESPONSE :: byte where
  "MSG_ID_LIST_LOCKS_PROCESS_RESPONSE \<equiv> 0x12"

subsection \<open>Status codes of responses\<close>

abbreviation RESPONSE_STATUS_SUCCESS :: u16 where "RESPONSE_STATUS_SUCCESS \<equiv> 0x0000"
abbreviation RESPONSE_STATUS_TOO_MANY_PROCESSES :: u16 where
  "RESPONSE_STATUS_TOO_MANY_PROCESSES \<equiv> 0x0001"
abbreviation RESPONSE_STATUS_PROCESS_HOLDS_LOCKS :: u16 where
  "RESPONSE_STATUS_PROCESS_HOLDS_LOCKS \<equiv> 0x0002"
abbreviation RESPONSE_STATUS_NO_SUCH_PROCESS :: u16 where "RESPONSE_STATUS_NO_SUCH_PROCESS \<equiv> 0x0003"
abbreviation RESPONSE_STATUS_QUEUED :: u16 where "RESPONSE_STATUS_QUEUED \<equiv> 0x0004"
abbreviation RESPONSE_STATUS_LOCK_EXISTS :: u16 where "RESPONSE_STATUS_LOCK_EXISTS \<equiv> 0x0005"
abbreviation RESPONSE_STATUS_LOCK_NOT_HELD :: u16 where "RESPONSE_STATUS_LOCK_NOT_HELD \<equiv> 0x0006"
abbreviation RESPONSE_STATUS_NO_SUCH_LOCK :: u16 where "RESPONSE_STATUS_NO_SUCH_LOCK \<equiv> 0x0007"
abbreviation RESPONSE_STATUS_PARENT_NOT_HELD :: u16 where "RESPONSE_STATUS_PARENT_NOT_HELD \<equiv> 0x0008"

subsection \<open>Results of the backend\<close>

datatype create_lock_result =
  CREATE_LOCK_RESULT_NO_SUCH_PROCESS | CREATE_LOCK_RESULT_CREATED | CREATE_LOCK_RESULT_QUEUED
| CREATE_LOCK_RESULT_EXISTS | CREATE_LOCK_RESULT_PARENT_NOT_HELD

abbreviation ACQUIRE_LOCK_RESULT_NO_SUCH_PROCESS :: u16 where
  "ACQUIRE_LOCK_RESULT_NO_SUCH_PROCESS \<equiv> RESPONSE_STATUS_NO_SUCH_PROCESS"
abbreviation ACQUIRE_LOCK_RESULT_ACQUIRED :: u16 where
  "ACQUIRE_LOCK_RESULT_ACQUIRED \<equiv> RESPONSE_STATUS_SUCCESS"
abbreviation ACQUIRE_LOCK_RESULT_QUEUED :: u16 where
  "ACQUIRE_LOCK_RESULT_QUEUED \<equiv> RESPONSE_STATUS_QUEUED"
abbreviation ACQUIRE_LOCK_RESULT_NO_SUCH_LOCK :: u16 where
  "ACQUIRE_LOCK_RESULT_NO_SUCH_LOCK \<equiv> RESPONSE_STATUS_NO_SUCH_LOCK"

abbreviation RELEASE_LOCK_RESULT_NO_SUCH_PROCESS :: u16 where
  "RELEASE_LOCK_RESULT_NO_SUCH_PROCESS \<equiv> RESPONSE_STATUS_NO_SUCH_PROCESS"
abbreviation RELEASE_LOCK_RESULT_RELEASED :: u16 where
  "RELEASE_LOCK_RESULT_RELEASED \<equiv> RESPONSE_STATUS_SUCCESS"
abbreviation RELEASE_LOCK_RESULT_NOT_HELD :: u16 where
  "RELEASE_LOCK_RESULT_NOT_HELD \<equiv> RESPONSE_STATUS_LOCK_NOT_HELD"

end
