(* ===== verification/Lock_Tree.thy ===== *)
theory Lock_Tree
  imports Messages
begin

text \<open>
  The lock tree of \<open>src/src/server/Lock.cpp\<close> and the requests of
  \<open>src/src/server/Lock_Request.h\<close>. A \<open>Lock\<close> object is a node record together
  with the list of its children; \<open>Process*\<close> is the process id, and the levels
  (\<open>uint32_t\<close>) are natural numbers, since a path has at most $2^{16}$ components.
  An operation returns the new tree with the values the C++ method returns, or the undefined
  behaviour it ran into.
\<close>

subsection \<open>Lock requests\<close>

record lock_request =
  req_mode :: lock_mode
  requester :: proc
  req_path :: "string list"
  current_level :: nat
  req_level :: nat
  create_missing :: bool
  lock_created :: bool
  acquire_status :: acquire_code
  requester_exists :: bool

definition Lock_Request_create ::
    "lock_mode \<Rightarrow> proc \<Rightarrow> string list \<Rightarrow> bool \<Rightarrow> lock_request" where
  "Lock_Request_create m p pth create =
     \<lparr>req_mode = m, requester = p, req_path = pth, current_level = 0,
      req_level = length pth - 1, create_missing = create, lock_created = False,
      acquire_status = LOCK_ACQUIRE_ACQUIRED, requester_exists = True\<rparr>"

definition set_requester_destroyed :: "lock_request \<Rightarrow> lock_request" where
  "set_requester_destroyed r = r\<lparr>requester_exists := False\<rparr>"

subsection \<open>Locks\<close>

record lock_node =
  lock_name :: string
  lockers_S :: "proc multiset"
  locker_Splus :: "proc option"
  locker_X :: "proc option"
  lockers_IS :: "proc multiset"
  lockers_ISplus :: "proc multiset"
  lockers_IX :: "proc multiset"
  lock_requests :: "lock_request list"

datatype lock = Lock (node: lock_node) (children: "lock list")

definition new_node :: "string \<Rightarrow> lock_node" where
  "new_node nm =
     \<lparr>lock_name = nm, lockers_S = {#}, locker_Splus = None, locker_X = None,
      lockers_IS = {#}, lockers_ISplus = {#}, lockers_IX = {#}, lock_requests = []\<rparr>"

definition new_Lock :: "string \<Rightarrow> lock" where
  "new_Lock nm = Lock (new_node nm) []"

abbreviation name_of :: "lock \<Rightarrow> string" where
  "name_of l \<equiv> lock_name (node l)"

definition find_child :: "string \<Rightarrow> lock list \<Rightarrow> nat option" where
  "find_child nm cs = find_index (\<lambda>c. name_of c = nm) cs"

subsection \<open>Acquiring\<close>

text \<open>The grant decision at the lock that is requested: \<open>None\<close> if it has to wait.\<close>

definition grant_target :: "lock_node \<Rightarrow> lock_mode \<Rightarrow> proc \<Rightarrow> lock_node option" where
  "grant_target n m p =
     (if m = LOCK_REQUEST_MODE_S then
        (if locker_X n = None \<and> size (lockers_IX n) = 0
         then Some (n\<lparr>lockers_S := add_mset p (lockers_S n)\<rparr>) else None)
      else if m = LOCK_REQUEST_MODE_Splus then
        (if locker_Splus n = None \<and> size (lockers_ISplus n) = 0 \<and>
            (locker_X n = None \<or> locker_X n = Some p) \<and> (\<forall>q \<in># lockers_IX n. p = q)
         then Some (n\<lparr>locker_Splus := Some p\<rparr>) else None)
      else if m = LOCK_REQUEST_MODE_X then
        (if size (lockers_S n) = 0 \<and> locker_X n = None \<and>
            size (lockers_IS n) = 0 \<and> size (lockers_IX n) = 0 \<and>
            (locker_Splus n = None \<or> locker_Splus n = Some p) \<and>
            (\<forall>q \<in># lockers_ISplus n. p = q)
         then Some (n\<lparr>locker_X := Some p\<rparr>) else None)
      else None)"

text \<open>The intent decision at a lock on the way to the requested one.\<close>

definition grant_intent :: "lock_node \<Rightarrow> lock_mode \<Rightarrow> proc \<Rightarrow> lock_node option" where
  "grant_intent n m p =
     (if m = LOCK_REQUEST_MODE_S then
        (if locker_X n = None
         then Some (n\<lparr>lockers_IS := add_mset p (lockers_IS n)\<rparr>) else None)
      else if m = LOCK_REQUEST_MODE_Splus then
        (if locker_Splus n = None \<and> (locker_X n = None \<or> locker_X n = Some p)
         then Some (n\<lparr>lockers_ISplus := add_mset p (lockers_ISplus n)\<rparr>) else None)
      else if m = LOCK_REQUEST_MODE_X then
        (if size (lockers_S n) = 0 \<and> locker_X n = None \<and>
            (locker_Splus n = None \<or> locker_Splus n = Some p)
         then Some (n\<lparr>lockers_IX := add_mset p (lockers_IX n)\<rparr>) else None)
      else Some n)"

text \<open>\<open>lockers_I?.erase(lockers_I?.find(p))\<close>: undefined if \<open>p\<close> is not there.\<close>

definition drop_intent :: "lock_node \<Rightarrow> lock_mode \<Rightarrow> proc \<Rightarrow> fault + lock_node" where
  "drop_intent n m p =
     (if m = LOCK_REQUEST_MODE_S then
        (if p \<in># lockers_IS n
         then Inr (n\<lparr>lockers_IS := lockers_IS n - {#p#}\<rparr>) else Inl Erase_End)
      else if m = LOCK_REQUEST_MODE_Splus then
        (if p \<in># lockers_ISplus n
         then Inr (n\<lparr>lockers_ISplus := lockers_ISplus n - {#p#}\<rparr>) else Inl Erase_End)
      else if m = LOCK_REQUEST_MODE_X then
        (if p \<in># lockers_IX n
         then Inr (n\<lparr>lockers_IX := lockers_IX n - {#p#}\<rparr>) else Inl Erase_End)
      else Inr n)"

definition enqueue :: "bool \<Rightarrow> lock_request \<Rightarrow> lock_node \<Rightarrow> lock_node" where
  "enqueue insert_in_current_queue r n =
     (if insert_in_current_queue then n\<lparr>lock_requests := lock_requests n @ [r]\<rparr> else n)"

definition stay_queued ::
    "lock \<Rightarrow> lock_request \<Rightarrow> bool \<Rightarrow> lock \<times> lock_request \<times> acquire_code" where
  "stay_queued l r ins =
     (let r' = r\<lparr>acquire_status := LOCK_ACQUIRE_QUEUED\<rparr>
      in (Lock (enqueue ins r' (node l)) (children l), r', LOCK_ACQUIRE_QUEUED))"

function acquire ::
    "lock \<Rightarrow> lock_request \<Rightarrow> bool \<Rightarrow> fault + lock \<times> lock_request \<times> acquire_code" where
  "acquire l r ins =
     (if current_level r = req_level r then
        (case grant_target (node l) (req_mode r) (requester r) of
           Some n \<Rightarrow> Inr (Lock n (children l), r\<lparr>acquire_status := LOCK_ACQUIRE_ACQUIRED\<rparr>,
                         LOCK_ACQUIRE_ACQUIRED)
         | None \<Rightarrow> Inr (stay_queued l r ins))
      else
        (case grant_intent (node l) (req_mode r) (requester r) of
           None \<Rightarrow> Inr (stay_queued l r ins)
         | Some n \<Rightarrow>
             if (children l \<noteq> [] \<or> create_missing r) \<and> length (req_path r) \<le> current_level r + 1
             then Inl Bad_Index
             else
               (case find_child (req_path r ! (current_level r + 1)) (children l) of
                  Some i \<Rightarrow>
                    (case acquire (children l ! i) (r\<lparr>current_level := current_level r + 1\<rparr>) True of
                       Inl e \<Rightarrow> Inl e
                     | Inr (c, r', ret) \<Rightarrow>
                         if ret = LOCK_ACQUIRE_NON_EXISTENT then
                           (case drop_intent n (req_mode r') (requester r') of
                              Inl e \<Rightarrow> Inl e
                            | Inr n' \<Rightarrow> Inr (Lock n' ((children l)[i := c]), r', ret))
                         else Inr (Lock n ((children l)[i := c]), r', ret))
                | None \<Rightarrow>
                    if create_missing r then
                      (case acquire (new_Lock (req_path r ! (current_level r + 1)))
                              (r\<lparr>lock_created := True, current_level := current_level r + 1\<rparr>) True of
                         Inl e \<Rightarrow> Inl e
                       | Inr (c, r', ret) \<Rightarrow> Inr (Lock n (children l @ [c]), r', ret))
                    else
                      (case drop_intent n (req_mode r) (requester r) of
                         Inl e \<Rightarrow> Inl e
                       | Inr n' \<Rightarrow>
                           Inr (Lock n' (children l),
                                r\<lparr>acquire_status := LOCK_ACQUIRE_NON_EXISTENT\<rparr>,
                                LOCK_ACQUIRE_NON_EXISTENT)))))"
  by pat_completeness auto
termination
  by (relation "measure (\<lambda>(l, r, ins). length (req_path r) - current_level r)")
    (auto simp: find_child_def dest: find_index_Some_neq_Nil)

declare acquire.simps [simp del]

text \<open>With \<open>insert_in_current_queue\<close> false the lock's own queue is left alone.\<close>

lemma grant_target_queue:
  "grant_target n m p = Some n' \<Longrightarrow> lock_requests n' = lock_requests n \<and> lock_name n' = lock_name n"
  by (auto simp: grant_target_def split: if_splits)

lemma grant_intent_queue:
  "grant_intent n m p = Some n' \<Longrightarrow> lock_requests n' = lock_requests n \<and> lock_name n' = lock_name n"
  by (auto simp: grant_intent_def split: if_splits)

lemma drop_intent_queue:
  "drop_intent n m p = Inr n' \<Longrightarrow> lock_requests n' = lock_requests n \<and> lock_name n' = lock_name n"
  by (auto simp: drop_intent_def split: if_splits)

lemma acquire_own_queue:
  assumes "acquire l r False = Inr (l', r', ret)"
  shows "lock_requests (node l') = lock_requests (node l)"
  using assms
  by (subst (asm) acquire.simps)
    (auto simp: stay_queued_def enqueue_def split: fault_splits
      dest!: grant_target_queue grant_intent_queue drop_intent_queue)

subsection \<open>Releasing\<close>

definition release_target :: "lock_node \<Rightarrow> lock_mode \<Rightarrow> proc \<Rightarrow> lock_node option" where
  "release_target n m p =
     (if m = LOCK_REQUEST_MODE_S then
        (if p \<in># lockers_S n then Some (n\<lparr>lockers_S := lockers_S n - {#p#}\<rparr>) else None)
      else if m = LOCK_REQUEST_MODE_Splus then
        (if locker_Splus n = Some p then Some (n\<lparr>locker_Splus := None\<rparr>) else None)
      else if m = LOCK_REQUEST_MODE_X then
        (if locker_X n = Some p then Some (n\<lparr>locker_X := None\<rparr>) else None)
      else None)"

text \<open>Removing the first queued request of the same mode and requester.\<close>

fun remove_request :: "lock_mode \<Rightarrow> proc \<Rightarrow> lock_request list \<Rightarrow> lock_request list option" where
  "remove_request m p [] = None"
| "remove_request m p (cr # rs) =
     (if m = req_mode cr \<and> p = requester cr then Some rs
      else map_option ((#) cr) (remove_request m p rs))"

definition cancel_request ::
    "lock \<Rightarrow> lock_mode \<Rightarrow> proc \<Rightarrow> lock_request list \<Rightarrow> lock \<times> release_code \<times> lock_request list" where
  "cancel_request l m p answered_requests =
     (case remove_request m p (lock_requests (node l)) of
        Some rs \<Rightarrow> (Lock ((node l)\<lparr>lock_requests := rs\<rparr>) (children l), LOCK_RELEASE_SUCCESS,
                    answered_requests)
      | None \<Rightarrow> (l, LOCK_RELEASE_NOT_HELD, answered_requests))"

definition set_queue :: "lock \<Rightarrow> lock_request list \<Rightarrow> lock" where
  "set_queue l rs = Lock ((node l)\<lparr>lock_requests := rs\<rparr>) (children l)"

lemma set_queue_sel [simp]:
  "lock_requests (node (set_queue l rs)) = rs" "children (set_queue l rs) = children l"
  "name_of (set_queue l rs) = name_of l"
  by (simp_all add: set_queue_def)

definition pop_front :: "lock \<Rightarrow> lock" where
  "pop_front l = set_queue l (tl (lock_requests (node l)))"

text \<open>
  The loop that looks whether queued requests can be granted now. The front request is tried;
  it leaves the queue when it was answered or advanced to a lock further down the tree, and the
  loop ends when it stays where it is. The request object is shared with the queue, so what
  \<open>acquire\<close> wrote to it is visible in the queue.
\<close>

function regrant :: "lock \<Rightarrow> fault + lock \<times> lock_request list" where
  "regrant l =
     (case lock_requests (node l) of
        [] \<Rightarrow> Inr (l, [])
      | r # rs \<Rightarrow>
          (case acquire l r False of
             Inl e \<Rightarrow> Inl e
           | Inr (l', r', ret) \<Rightarrow>
               if ret \<noteq> LOCK_ACQUIRE_QUEUED then
                 (case regrant (pop_front l') of
                    Inl e \<Rightarrow> Inl e
                  | Inr (l'', answered_requests) \<Rightarrow> Inr (l'', r' # answered_requests))
               else if current_level r < current_level r' then regrant (pop_front l')
               else Inr (set_queue l' (r' # rs), [])))"
  by pat_completeness auto
termination
  by (relation "measure (\<lambda>l. length (lock_requests (node l)))")
    (auto simp: pop_front_def dest!: acquire_own_queue)

declare regrant.simps [simp del]

function release ::
    "lock \<Rightarrow> proc \<Rightarrow> lock_mode \<Rightarrow> string list \<Rightarrow> nat \<Rightarrow> nat \<Rightarrow>
     fault + lock \<times> release_code \<times> lock_request list" where
  "release l p m pth cur lv =
     (if cur = lv then
        (case release_target (node l) m p of
           Some n \<Rightarrow>
             (case regrant (Lock n (children l)) of
                Inl e \<Rightarrow> Inl e
              | Inr (l', answered_requests) \<Rightarrow> Inr (l', LOCK_RELEASE_SUCCESS, answered_requests))
         | None \<Rightarrow> Inr (cancel_request l m p []))
      else if children l \<noteq> [] \<and> length pth \<le> cur + 1 then Inl Bad_Index
      else
        (case find_child (pth ! (cur + 1)) (children l) of
           None \<Rightarrow> Inr (cancel_request l m p [])
         | Some i \<Rightarrow>
             (case release (children l ! i) p m pth (cur + 1) lv of
                Inl e \<Rightarrow> Inl e
              | Inr (c, code, answered_requests) \<Rightarrow>
                  if code = LOCK_RELEASE_SUCCESS then
                    (case drop_intent (node l) m p of
                       Inl e \<Rightarrow> Inl e
                     | Inr n \<Rightarrow>
                         (case regrant (Lock n ((children l)[i := c])) of
                            Inl e \<Rightarrow> Inl e
                          | Inr (l', granted_here) \<Rightarrow>
                              Inr (l', LOCK_RELEASE_SUCCESS, answered_requests @ granted_here)))
                  else Inr (cancel_request (Lock (node l) ((children l)[i := c])) m p
                              answered_requests))))"
  by pat_completeness auto
termination
  by (relation "measure (\<lambda>(l, p, m, pth, cur, lv). length pth - cur)")
    (auto simp: find_child_def dest: find_index_Some_neq_Nil)

declare release.simps [simp del]

definition release_path ::
    "lock \<Rightarrow> proc \<Rightarrow> lock_mode \<Rightarrow> string list \<Rightarrow> fault + lock \<times> release_code \<times> lock_request list" where
  "release_path l p m pth = release l p m pth 0 (length pth - 1)"

subsection \<open>Creating without holding, destroying, status\<close>

function create_not_held_at ::
    "lock \<Rightarrow> proc \<Rightarrow> string list \<Rightarrow> nat \<Rightarrow> nat \<Rightarrow> bool \<Rightarrow> fault + lock \<times> create_code" where
  "create_not_held_at l p pth cur lv ownership_ensured =
     (let ensured = (ownership_ensured \<or> locker_X (node l) = Some p)
      in if children l \<noteq> [] \<and> length pth \<le> cur then Inl Bad_Index
         else
           (case find_child (pth ! cur) (children l) of
              Some i \<Rightarrow>
                if cur < lv then
                  (case create_not_held_at (children l ! i) p pth (cur + 1) lv ensured of
                     Inl e \<Rightarrow> Inl e
                   | Inr (c, code) \<Rightarrow> Inr (Lock (node l) ((children l)[i := c]), code))
                else Inr (l, if ensured then LOCK_CREATE_EXISTS else LOCK_CREATE_PARENT_NOT_HELD)
            | None \<Rightarrow>
                if \<not> ensured then Inr (l, LOCK_CREATE_PARENT_NOT_HELD)
                else if length pth \<le> cur then Inl Bad_Index
                else if cur < lv then
                  (case create_not_held_at (new_Lock (pth ! cur)) p pth (cur + 1) lv ensured of
                     Inl e \<Rightarrow> Inl e
                   | Inr (c, code) \<Rightarrow> Inr (Lock (node l) (children l @ [c]), code))
                else Inr (Lock (node l) (children l @ [new_Lock (pth ! cur)]),
                          LOCK_CREATE_CREATED)))"
  by pat_completeness auto
termination
  by (relation "measure (\<lambda>(l, p, pth, cur, lv, e). length pth - cur)")
    (auto simp: find_child_def dest: find_index_Some_neq_Nil)

declare create_not_held_at.simps [simp del]

text \<open>The public overload. A null \<open>Process*\<close> is \<open>None\<close>.\<close>

definition create_not_held ::
    "lock \<Rightarrow> proc option \<Rightarrow> string list \<Rightarrow> fault + lock \<times> create_code" where
  "create_not_held l po pth =
     (if pth = [] then Inl Bad_Index
      else
        (case po of
           None \<Rightarrow> Inr (l, LOCK_CREATE_PARENT_NOT_HELD)
         | Some p \<Rightarrow>
             if pth ! 0 \<noteq> name_of l then Inr (l, LOCK_CREATE_PARENT_NOT_HELD)
             else
               let ensured = (locker_X (node l) = Some p)
               in if length pth \<le> 1
                  then Inr (l, if ensured then LOCK_CREATE_EXISTS else LOCK_CREATE_PARENT_NOT_HELD)
                  else create_not_held_at l p pth 1 (length pth - 1) ensured))"

text \<open>
  Destroying a lock. The C++ method reaches the parent through a pointer; here the parent does
  the work when the lock to destroy is its child. The lock at level 0 has no parent and is
  returned as it is.
\<close>

definition destroy_child ::
    "lock \<Rightarrow> nat \<Rightarrow> proc \<Rightarrow> string list \<Rightarrow> nat \<Rightarrow> fault + lock \<times> destroy_code \<times> lock option" where
  "destroy_child l i p pth cur =
     (let c = children l ! i
      in if locker_X (node c) \<noteq> Some p \<or> locker_Splus (node c) \<noteq> None \<or>
            size (lockers_ISplus (node c)) \<noteq> 0
         then Inr (l, LOCK_DESTROY_NON_EXCLUSIVE, None)
         else
           (case release (Lock (node l) (take i (children l) @ drop (Suc i) (children l)))
                   p LOCK_REQUEST_MODE_X pth cur cur of
              Inl e \<Rightarrow> Inl e
            | Inr (l', code, answered_requests) \<Rightarrow> Inr (l', LOCK_DESTROY_SUCCESS, Some c)))"

function destroy ::
    "lock \<Rightarrow> proc \<Rightarrow> string list \<Rightarrow> nat \<Rightarrow> nat \<Rightarrow> fault + lock \<times> destroy_code \<times> lock option" where
  "destroy l p pth cur lv =
     (if cur = lv then Inr (l, LOCK_DESTROY_SUCCESS, Some l)
      else if children l \<noteq> [] \<and> length pth \<le> cur + 1 then Inl Bad_Index
      else
        (case find_child (pth ! (cur + 1)) (children l) of
           None \<Rightarrow> Inr (l, LOCK_DESTROY_NON_EXISTENT, None)
         | Some i \<Rightarrow>
             if cur + 1 = lv then destroy_child l i p pth cur
             else
               (case destroy (children l ! i) p pth (cur + 1) lv of
                  Inl e \<Rightarrow> Inl e
                | Inr (c, code, freed) \<Rightarrow>
                    Inr (Lock (node l) ((children l)[i := c]), code, freed))))"
  by pat_completeness auto
termination
  by (relation "measure (\<lambda>(l, p, pth, cur, lv). length pth - cur)")
    (auto simp: find_child_def dest: find_index_Some_neq_Nil)

declare destroy.simps [simp del]

text \<open>The calls \<open>for_each_child\<close> makes to its callback, in order.\<close>

fun for_each_child :: "lock \<Rightarrow> nat \<Rightarrow> (lock \<times> nat) list" where
  "for_each_child (Lock n cs) lv = concat (map (\<lambda>c. (c, lv) # for_each_child c (lv + 1)) cs)"

definition is_IS_locked :: "lock \<Rightarrow> bool" where
  "is_IS_locked l \<longleftrightarrow> size (lockers_IS (node l)) \<noteq> 0"

definition is_ISplus_locked :: "lock \<Rightarrow> bool" where
  "is_ISplus_locked l \<longleftrightarrow> size (lockers_ISplus (node l)) \<noteq> 0"

definition is_IX_locked :: "lock \<Rightarrow> bool" where
  "is_IX_locked l \<longleftrightarrow> size (lockers_IX (node l)) \<noteq> 0"

definition is_S_locked :: "lock \<Rightarrow> bool" where
  "is_S_locked l \<longleftrightarrow> size (lockers_S (node l)) \<noteq> 0"

definition is_Splus_locked :: "lock \<Rightarrow> bool" where
  "is_Splus_locked l \<longleftrightarrow> locker_Splus (node l) \<noteq> None"

definition is_X_locked :: "lock \<Rightarrow> bool" where
  "is_X_locked l \<longleftrightarrow> locker_X (node l) \<noteq> None"

end
