(* ===== verification/Lock_Rules.thy ===== *)
theory Lock_Rules
  imports Lock_Tree
begin

text \<open>
  Induction and case rules for the operations of the lock tree. Each operation has a large
  defining equation; the rules below list its outcomes once, so that a property of an operation
  is proved by one case per outcome.
\<close>

abbreviation advanced :: "lock_request \<Rightarrow> lock_request" where
  "advanced r \<equiv> r\<lparr>current_level := current_level r + 1\<rparr>"

abbreviation blocked :: "lock \<Rightarrow> lock_request \<Rightarrow> bool" where
  "blocked l r \<equiv>
     (if current_level r = req_level r
      then grant_target (node l) (req_mode r) (requester r) = None
      else grant_intent (node l) (req_mode r) (requester r) = None)"

abbreviation next_name :: "lock_request \<Rightarrow> string" where
  "next_name r \<equiv> req_path r ! (current_level r + 1)"

lemma find_child_length: "find_child nm cs = Some i \<Longrightarrow> i < length cs"
  and find_child_name: "find_child nm cs = Some i \<Longrightarrow> name_of (cs ! i) = nm"
  and find_child_None: "find_child nm cs = None \<Longrightarrow> c \<in> set cs \<Longrightarrow> name_of c \<noteq> nm"
  and find_child_ne: "find_child nm cs = Some i \<Longrightarrow> cs \<noteq> []"
  by (auto simp: find_child_def find_index_None_iff
      dest: find_index_length find_index_nth find_index_Some_neq_Nil)

subsection \<open>Acquire\<close>

text \<open>One equation per outcome of \<open>acquire\<close>.\<close>

lemma acquire_blocked: "blocked l r \<Longrightarrow> acquire l r ins = Inr (stay_queued l r ins)"
  by (subst acquire.simps) (auto split: if_splits)

lemma acquire_granted:
  "current_level r = req_level r \<Longrightarrow> grant_target (node l) (req_mode r) (requester r) = Some n \<Longrightarrow>
   acquire l r ins = Inr (Lock n (children l), r\<lparr>acquire_status := LOCK_ACQUIRE_ACQUIRED\<rparr>,
     LOCK_ACQUIRE_ACQUIRED)"
  by (subst acquire.simps) simp

lemma acquire_bad_index:
  "current_level r \<noteq> req_level r \<Longrightarrow> grant_intent (node l) (req_mode r) (requester r) = Some n \<Longrightarrow>
   children l \<noteq> [] \<or> create_missing r \<Longrightarrow> length (req_path r) \<le> current_level r + 1 \<Longrightarrow>
   acquire l r ins = Inl Bad_Index"
  by (subst acquire.simps) auto

lemma acquire_child:
  "current_level r \<noteq> req_level r \<Longrightarrow> grant_intent (node l) (req_mode r) (requester r) = Some n \<Longrightarrow>
   find_child (next_name r) (children l) = Some i \<Longrightarrow> current_level r + 1 < length (req_path r) \<Longrightarrow>
   acquire l r ins =
     (case acquire (children l ! i) (advanced r) True of
        Inl e \<Rightarrow> Inl e
      | Inr (c, r', ret) \<Rightarrow>
          if ret = LOCK_ACQUIRE_NON_EXISTENT then
            (case drop_intent n (req_mode r') (requester r') of
               Inl e \<Rightarrow> Inl e | Inr n' \<Rightarrow> Inr (Lock n' ((children l)[i := c]), r', ret))
          else Inr (Lock n ((children l)[i := c]), r', ret))"
  by (subst acquire.simps) simp

lemma acquire_created:
  "current_level r \<noteq> req_level r \<Longrightarrow> grant_intent (node l) (req_mode r) (requester r) = Some n \<Longrightarrow>
   find_child (next_name r) (children l) = None \<Longrightarrow> create_missing r \<Longrightarrow>
   current_level r + 1 < length (req_path r) \<Longrightarrow>
   acquire l r ins =
     (case acquire (new_Lock (next_name r)) (advanced (r\<lparr>lock_created := True\<rparr>)) True of
        Inl e \<Rightarrow> Inl e | Inr (c, r', ret) \<Rightarrow> Inr (Lock n (children l @ [c]), r', ret))"
  by (subst acquire.simps) simp

lemma acquire_missing:
  "current_level r \<noteq> req_level r \<Longrightarrow> grant_intent (node l) (req_mode r) (requester r) = Some n \<Longrightarrow>
   find_child (next_name r) (children l) = None \<Longrightarrow> \<not> create_missing r \<Longrightarrow>
   \<not> (children l \<noteq> [] \<and> length (req_path r) \<le> current_level r + 1) \<Longrightarrow>
   acquire l r ins =
     (case drop_intent n (req_mode r) (requester r) of
        Inl e \<Rightarrow> Inl e
      | Inr n' \<Rightarrow> Inr (Lock n' (children l), r\<lparr>acquire_status := LOCK_ACQUIRE_NON_EXISTENT\<rparr>,
                      LOCK_ACQUIRE_NON_EXISTENT))"
  by (subst acquire.simps) auto

lemma acquire_induct [consumes 1, case_names granted queued child absent created missing]:
  assumes "acquire l r ins = Inr (l', r', ret)"
    and granted: "\<And>l r ins n. current_level r = req_level r \<Longrightarrow>
      grant_target (node l) (req_mode r) (requester r) = Some n \<Longrightarrow>
      P l r ins (Lock n (children l)) (r\<lparr>acquire_status := LOCK_ACQUIRE_ACQUIRED\<rparr>)
        LOCK_ACQUIRE_ACQUIRED"
    and queued: "\<And>l r ins. blocked l r \<Longrightarrow>
      P l r ins
        (Lock (enqueue ins (r\<lparr>acquire_status := LOCK_ACQUIRE_QUEUED\<rparr>) (node l)) (children l))
        (r\<lparr>acquire_status := LOCK_ACQUIRE_QUEUED\<rparr>) LOCK_ACQUIRE_QUEUED"
    and child: "\<And>l r ins n i c r' ret. current_level r \<noteq> req_level r \<Longrightarrow>
      current_level r + 1 < length (req_path r) \<Longrightarrow>
      grant_intent (node l) (req_mode r) (requester r) = Some n \<Longrightarrow>
      find_child (next_name r) (children l) = Some i \<Longrightarrow>
      acquire (children l ! i) (advanced r) True = Inr (c, r', ret) \<Longrightarrow>
      P (children l ! i) (advanced r) True c r' ret \<Longrightarrow> ret \<noteq> LOCK_ACQUIRE_NON_EXISTENT \<Longrightarrow>
      P l r ins (Lock n ((children l)[i := c])) r' ret"
    and absent: "\<And>l r ins n i c r' n'. current_level r \<noteq> req_level r \<Longrightarrow>
      current_level r + 1 < length (req_path r) \<Longrightarrow>
      grant_intent (node l) (req_mode r) (requester r) = Some n \<Longrightarrow>
      find_child (next_name r) (children l) = Some i \<Longrightarrow>
      acquire (children l ! i) (advanced r) True = Inr (c, r', LOCK_ACQUIRE_NON_EXISTENT) \<Longrightarrow>
      P (children l ! i) (advanced r) True c r' LOCK_ACQUIRE_NON_EXISTENT \<Longrightarrow>
      drop_intent n (req_mode r') (requester r') = Inr n' \<Longrightarrow>
      P l r ins (Lock n' ((children l)[i := c])) r' LOCK_ACQUIRE_NON_EXISTENT"
    and created: "\<And>l r ins n c r' ret. current_level r \<noteq> req_level r \<Longrightarrow>
      current_level r + 1 < length (req_path r) \<Longrightarrow>
      grant_intent (node l) (req_mode r) (requester r) = Some n \<Longrightarrow>
      find_child (next_name r) (children l) = None \<Longrightarrow> create_missing r \<Longrightarrow>
      acquire (new_Lock (next_name r)) (advanced (r\<lparr>lock_created := True\<rparr>)) True = Inr (c, r', ret) \<Longrightarrow>
      P (new_Lock (next_name r)) (advanced (r\<lparr>lock_created := True\<rparr>)) True c r' ret \<Longrightarrow>
      P l r ins (Lock n (children l @ [c])) r' ret"
    and missing: "\<And>l r ins n n'. current_level r \<noteq> req_level r \<Longrightarrow>
      grant_intent (node l) (req_mode r) (requester r) = Some n \<Longrightarrow>
      find_child (next_name r) (children l) = None \<Longrightarrow> \<not> create_missing r \<Longrightarrow>
      drop_intent n (req_mode r) (requester r) = Inr n' \<Longrightarrow>
      P l r ins (Lock n' (children l)) (r\<lparr>acquire_status := LOCK_ACQUIRE_NON_EXISTENT\<rparr>)
        LOCK_ACQUIRE_NON_EXISTENT"
  shows "P l r ins l' r' ret"
  using assms(1)
proof (induction l r ins arbitrary: l' r' ret rule: acquire.induct)
  case (1 l r ins)
  consider (blk) "blocked l r"
    | (grt) n where "current_level r = req_level r"
        "grant_target (node l) (req_mode r) (requester r) = Some n"
    | (int) n where "current_level r \<noteq> req_level r"
        "grant_intent (node l) (req_mode r) (requester r) = Some n"
    by (cases "current_level r = req_level r") auto
  then show ?case
  proof cases
    case blk
    with 1(3) queued[OF blk, of ins] show ?thesis
      by (simp add: acquire_blocked stay_queued_def Let_def del: split_paired_All) auto
  next
    case grt
    with 1(3) granted[OF grt, of ins] show ?thesis by (auto simp: acquire_granted)
  next
    case int
    have idx: "\<not> ((children l \<noteq> [] \<or> create_missing r) \<and> length (req_path r) \<le> current_level r + 1)"
      using 1(3) acquire_bad_index[OF int, of ins] by (metis sum.distinct(1))
    show ?thesis
    proof (cases "find_child (next_name r) (children l)")
      case (Some i)
      with idx find_child_ne[OF Some] have len: "current_level r + 1 < length (req_path r)" by auto
      show ?thesis using 1(3) child[OF int(1) len int(2) Some] absent[OF int(1) len int(2) Some]
          1(2)[OF int idx Some]
        by (auto simp: acquire_child[OF int Some len] split: sum.splits if_splits)
    next
      case None
      show ?thesis
      proof (cases "create_missing r")
        case True
        with idx have len: "current_level r + 1 < length (req_path r)" by auto
        show ?thesis using 1(3) created[OF int(1) len int(2) None True] 1(1)[OF int idx None True]
          by (auto simp: acquire_created[OF int None True len] split: sum.splits)
      next
        case False
        with 1(3) idx missing[OF int None False] show ?thesis
          by (auto simp: acquire_missing[OF int None False] split: sum.splits)
      qed
    qed
  qed
qed

text \<open>What a request keeps on its way down the tree.\<close>

definition same_request :: "lock_request \<Rightarrow> lock_request \<Rightarrow> bool" where
  "same_request r r' \<longleftrightarrow> req_mode r' = req_mode r \<and> requester r' = requester r \<and>
     req_path r' = req_path r \<and> req_level r' = req_level r \<and>
     create_missing r' = create_missing r \<and> requester_exists r' = requester_exists r"

lemma acquire_request:
  "acquire l r ins = Inr (l', r', ret) \<Longrightarrow>
     same_request r r' \<and> current_level r \<le> current_level r' \<and> acquire_status r' = ret"
  by (induction rule: acquire_induct) (auto simp: same_request_def)

lemma acquire_name:
  assumes "acquire l r ins = Inr (l', r', ret)"
  shows "name_of l' = name_of l"
  using assms
  by (cases rule: acquire_induct)
    (auto simp: enqueue_def dest!: grant_target_queue grant_intent_queue drop_intent_queue)

lemma acquire_stuck:
  assumes "acquire l r False = Inr (l', r', LOCK_ACQUIRE_QUEUED)"
    and "\<not> current_level r < current_level r'"
  shows "blocked l r \<and> l' = l \<and> r' = r\<lparr>acquire_status := LOCK_ACQUIRE_QUEUED\<rparr>"
proof -
  define ret where "ret = LOCK_ACQUIRE_QUEUED"
  define ins where "ins = False"
  from assms have "acquire l r ins = Inr (l', r', ret)" by (simp add: ret_def ins_def)
  moreover from assms have "ret = LOCK_ACQUIRE_QUEUED" "\<not> ins" "\<not> current_level r < current_level r'"
    by (auto simp: ret_def ins_def)
  ultimately show ?thesis
    by (induction rule: acquire_induct)
      (auto simp: enqueue_def dest: acquire_request split: if_splits)
qed

subsection \<open>The grant loop\<close>

lemma pop_front_acquire:
  "acquire l r False = Inr (l', r', ret) \<Longrightarrow> lock_requests (node l) = r # rs \<Longrightarrow>
   pop_front l' = set_queue l' rs"
  by (simp add: pop_front_def acquire_own_queue)

lemma regrant_induct [consumes 1, case_names empty answered advanced stuck]:
  assumes "regrant l = Inr (l', ans)"
    and empty: "\<And>l. lock_requests (node l) = [] \<Longrightarrow> P l l []"
    and answered: "\<And>l r rs l1 r' ret l2 ans. lock_requests (node l) = r # rs \<Longrightarrow>
      acquire l r False = Inr (l1, r', ret) \<Longrightarrow> ret \<noteq> LOCK_ACQUIRE_QUEUED \<Longrightarrow>
      regrant (set_queue l1 rs) = Inr (l2, ans) \<Longrightarrow> P (set_queue l1 rs) l2 ans \<Longrightarrow>
      P l l2 (r' # ans)"
    and adv: "\<And>l r rs l1 r' l2 ans. lock_requests (node l) = r # rs \<Longrightarrow>
      acquire l r False = Inr (l1, r', LOCK_ACQUIRE_QUEUED) \<Longrightarrow>
      current_level r < current_level r' \<Longrightarrow>
      regrant (set_queue l1 rs) = Inr (l2, ans) \<Longrightarrow> P (set_queue l1 rs) l2 ans \<Longrightarrow>
      P l l2 ans"
    and stuck: "\<And>l r rs. lock_requests (node l) = r # rs \<Longrightarrow> blocked l r \<Longrightarrow>
      P l (set_queue l (r\<lparr>acquire_status := LOCK_ACQUIRE_QUEUED\<rparr> # rs)) []"
  shows "P l l' ans"
  using assms(1)
proof (induction l arbitrary: l' ans rule: regrant.induct)
  case (1 l)
  show ?case
  proof (cases "lock_requests (node l)")
    case Nil
    with 1(3) empty show ?thesis by (subst (asm) regrant.simps) simp
  next
    case (Cons r rs)
    with 1(3) obtain l1 r' ret where a: "acquire l r False = Inr (l1, r', ret)"
      by (subst (asm) regrant.simps) (auto split: sum.splits)
    note pop = pop_front_acquire[OF a Cons]
    show ?thesis
    proof (cases "ret = LOCK_ACQUIRE_QUEUED")
      case False
      with 1(3) Cons a pop obtain ans' where ans': "regrant (set_queue l1 rs) = Inr (l', ans')"
        and "ans = r' # ans'"
        by (subst (asm) regrant.simps) (auto split: sum.splits)
      moreover have "P (set_queue l1 rs) l' ans'"
        using 1(1)[OF Cons a _ _ False] ans' pop by simp
      ultimately show ?thesis using answered[OF Cons a False] by simp
    next
      case q: True
      show ?thesis
      proof (cases "current_level r < current_level r'")
        case True
        with q 1(3) Cons a pop have "regrant (set_queue l1 rs) = Inr (l', ans)"
          by (subst (asm) regrant.simps) simp
        moreover from this have "P (set_queue l1 rs) l' ans"
          using 1(2)[OF Cons a _ _ _ True] q pop by simp
        ultimately show ?thesis using adv[OF Cons a[unfolded q] True] by simp
      next
        case False
        from acquire_stuck[OF a[unfolded q] False] 1(3) Cons a q stuck[OF Cons] show ?thesis
          by (subst (asm) regrant.simps) auto
      qed
    qed
  qed
qed

lemma regrant_name: "regrant l = Inr (l', ans) \<Longrightarrow> name_of l' = name_of l"
  by (induction rule: regrant_induct) (auto dest: acquire_name)

subsection \<open>Release\<close>

lemma cancel_request_cases:
  "cancel_request l m p ans =
     (case remove_request m p (lock_requests (node l)) of
        Some rs \<Rightarrow> (set_queue l rs, LOCK_RELEASE_SUCCESS, ans)
      | None \<Rightarrow> (l, LOCK_RELEASE_NOT_HELD, ans))"
  by (simp add: cancel_request_def set_queue_def split: option.split)

lemma cancel_outcome:
  assumes "(l', code, ans) = cancel_request l m p []"
    and "remove_request m p (lock_requests (node l)) = None \<Longrightarrow> Q l LOCK_RELEASE_NOT_HELD []"
    and "\<And>rs. remove_request m p (lock_requests (node l)) = Some rs \<Longrightarrow>
           Q (set_queue l rs) LOCK_RELEASE_SUCCESS []"
  shows "Q l' code ans"
  using assms by (cases "remove_request m p (lock_requests (node l))") (simp_all add: cancel_request_cases)

lemma release_here:
  "release_target (node l) m p = Some n \<Longrightarrow>
   release l p m pth cur cur =
     (case regrant (Lock n (children l)) of
        Inl e \<Rightarrow> Inl e | Inr (l', ans) \<Rightarrow> Inr (l', LOCK_RELEASE_SUCCESS, ans))"
  by (subst release.simps) simp

lemma release_cancel:
  "(cur = lv \<Longrightarrow> release_target (node l) m p = None) \<Longrightarrow>
   (cur \<noteq> lv \<Longrightarrow> \<not> (children l \<noteq> [] \<and> length pth \<le> cur + 1) \<and>
      find_child (pth ! (cur + 1)) (children l) = None) \<Longrightarrow>
   release l p m pth cur lv = Inr (cancel_request l m p [])"
  by (subst release.simps) auto

lemma release_bad_index:
  "cur \<noteq> lv \<Longrightarrow> children l \<noteq> [] \<Longrightarrow> length pth \<le> cur + 1 \<Longrightarrow>
   release l p m pth cur lv = Inl Bad_Index"
  by (subst release.simps) simp

lemma release_child:
  "cur \<noteq> lv \<Longrightarrow> cur + 1 < length pth \<Longrightarrow> find_child (pth ! (cur + 1)) (children l) = Some i \<Longrightarrow>
   release l p m pth cur lv =
     (case release (children l ! i) p m pth (cur + 1) lv of
        Inl e \<Rightarrow> Inl e
      | Inr (c, code, ans) \<Rightarrow>
          if code = LOCK_RELEASE_SUCCESS then
            (case drop_intent (node l) m p of
               Inl e \<Rightarrow> Inl e
             | Inr n \<Rightarrow>
                 (case regrant (Lock n ((children l)[i := c])) of
                    Inl e \<Rightarrow> Inl e
                  | Inr (l', ans') \<Rightarrow> Inr (l', LOCK_RELEASE_SUCCESS, ans @ ans')))
          else Inr (cancel_request (Lock (node l) ((children l)[i := c])) m p ans))"
  by (subst release.simps) simp

lemma release_shapes:
  obtains (here) n where "cur = lv" "release_target (node l) m p = Some n"
    | (cancel) "cur = lv \<Longrightarrow> release_target (node l) m p = None"
        "cur \<noteq> lv \<Longrightarrow> \<not> (children l \<noteq> [] \<and> length pth \<le> cur + 1) \<and>
           find_child (pth ! (cur + 1)) (children l) = None"
    | (bad) "cur \<noteq> lv" "children l \<noteq> []" "length pth \<le> cur + 1"
    | (chld) i where "cur \<noteq> lv" "cur + 1 < length pth"
        "\<not> (children l \<noteq> [] \<and> length pth \<le> cur + 1)"
        "find_child (pth ! (cur + 1)) (children l) = Some i"
  using find_child_ne by fastforce

lemma release_not_held:
  "release l p m pth cur lv = Inr (l', LOCK_RELEASE_NOT_HELD, ans) \<Longrightarrow>
   l' = l \<and> ans = [] \<and> remove_request m p (lock_requests (node l)) = None"
proof (induction l p m pth cur lv arbitrary: l' ans rule: release.induct)
  case (1 l p m pth cur lv)
  show ?case
  proof (cases rule: release_shapes[where cur = cur and lv = lv and l = l and m = m and p = p and pth = pth])
    case here
    with 1(2) show ?thesis by (auto simp: release_here split: sum.splits)
  next
    case cancel
    with 1(2) show ?thesis
      by (auto simp: release_cancel cancel_request_cases split: option.splits)
  next
    case bad
    with 1(2) show ?thesis by (simp add: release_bad_index)
  next
    case (chld i)
    from 1(2) obtain c code ans1 where
      c: "release (children l ! i) p m pth (cur + 1) lv = Inr (c, code, ans1)"
      by (auto simp: release_child[OF chld(1,2,4)] split: sum.splits)
    moreover from 1(2) c have code: "code = LOCK_RELEASE_NOT_HELD"
      by (cases code) (auto simp: release_child[OF chld(1,2,4)] split: sum.splits)
    ultimately show ?thesis using 1(1)[OF chld(1,3,4), of c ans1] 1(2)
      by (auto simp: release_child[OF chld(1,2,4)] cancel_request_cases split: option.splits)
  qed
qed

lemma release_induct [consumes 1, case_names released child cancelled not_held]:
  assumes "release l p m pth cur lv = Inr (l', code, ans)"
    and released: "\<And>l cur l' n ans. cur = lv \<Longrightarrow> release_target (node l) m p = Some n \<Longrightarrow>
      regrant (Lock n (children l)) = Inr (l', ans) \<Longrightarrow> P l cur l' LOCK_RELEASE_SUCCESS ans"
    and child: "\<And>l cur i c ans1 n l' ans2. cur \<noteq> lv \<Longrightarrow> cur + 1 < length pth \<Longrightarrow>
      find_child (pth ! (cur + 1)) (children l) = Some i \<Longrightarrow>
      release (children l ! i) p m pth (cur + 1) lv = Inr (c, LOCK_RELEASE_SUCCESS, ans1) \<Longrightarrow>
      P (children l ! i) (cur + 1) c LOCK_RELEASE_SUCCESS ans1 \<Longrightarrow>
      drop_intent (node l) m p = Inr n \<Longrightarrow>
      regrant (Lock n ((children l)[i := c])) = Inr (l', ans2) \<Longrightarrow>
      P l cur l' LOCK_RELEASE_SUCCESS (ans1 @ ans2)"
    and cancelled: "\<And>l cur rs. (cur = lv \<Longrightarrow> release_target (node l) m p = None) \<Longrightarrow>
      remove_request m p (lock_requests (node l)) = Some rs \<Longrightarrow>
      (\<And>i. cur \<noteq> lv \<Longrightarrow> find_child (pth ! (cur + 1)) (children l) = Some i \<Longrightarrow>
         P (children l ! i) (cur + 1) (children l ! i) LOCK_RELEASE_NOT_HELD []) \<Longrightarrow>
      P l cur (set_queue l rs) LOCK_RELEASE_SUCCESS []"
    and not_held: "\<And>l cur. (cur = lv \<Longrightarrow> release_target (node l) m p = None) \<Longrightarrow>
      remove_request m p (lock_requests (node l)) = None \<Longrightarrow>
      (\<And>i. cur \<noteq> lv \<Longrightarrow> find_child (pth ! (cur + 1)) (children l) = Some i \<Longrightarrow>
         P (children l ! i) (cur + 1) (children l ! i) LOCK_RELEASE_NOT_HELD []) \<Longrightarrow>
      P l cur l LOCK_RELEASE_NOT_HELD []"
  shows "P l cur l' code ans"
  using assms
proof (induction l p m pth cur lv arbitrary: l' code ans rule: release.induct)
  case (1 l p m pth cur lv)
  show ?case
  proof (cases rule: release_shapes[where cur = cur and lv = lv and l = l and m = m and p = p and pth = pth])
    case here
    with 1(2) 1(3)[OF here] show ?thesis by (auto simp: release_here split: sum.splits)
  next
    case cancel
    have res: "(l', code, ans) = cancel_request l m p []"
      using 1(2) release_cancel[OF cancel] by simp
    show ?thesis
      by (rule cancel_outcome[where Q = "P l cur", OF res])
        (use cancel 1(5)[of cur l] 1(6)[of cur l] in simp_all)
  next
    case bad
    with 1(2) show ?thesis by (simp add: release_bad_index)
  next
    case (chld i)
    note eq = release_child[OF chld(1,2,4)]
    from 1(2) obtain c code1 ans1 where
      c: "release (children l ! i) p m pth (cur + 1) lv = Inr (c, code1, ans1)"
      by (auto simp: eq split: sum.splits)
    show ?thesis
    proof (cases code1)
      case LOCK_RELEASE_SUCCESS
      with 1(2) c obtain n ans2 where d: "drop_intent (node l) m p = Inr n"
        and g: "regrant (Lock n ((children l)[i := c])) = Inr (l', ans2)"
        and res: "code = LOCK_RELEASE_SUCCESS" "ans = ans1 @ ans2"
        by (auto simp: eq split: sum.splits)
      note c' = c[unfolded LOCK_RELEASE_SUCCESS]
      have "P (children l ! i) (cur + 1) c LOCK_RELEASE_SUCCESS ans1"
        using 1(1)[OF chld(1,3,4) c'] 1(3-6) by blast
      from 1(4)[OF chld(1,2,4) c' this d g] res show ?thesis by simp
    next
        case LOCK_RELEASE_NOT_HELD
      from release_not_held[OF c[unfolded this]] have c1: "c = children l ! i" "ans1 = []" by auto
      have P: "P (children l ! k) (cur + 1) (children l ! k) LOCK_RELEASE_NOT_HELD []"
        if "find_child (pth ! (cur + 1)) (children l) = Some k" for k
        using 1(1)[OF chld(1,3,4) c] 1(3-6) c1 LOCK_RELEASE_NOT_HELD that chld(4) by simp
      have res: "(l', code, ans) = cancel_request l m p []"
        using 1(2) c c1 LOCK_RELEASE_NOT_HELD by (simp add: eq)
      show ?thesis
        by (rule cancel_outcome[where Q = "P l cur", OF res])
          (use chld(1) P 1(5)[of cur l] 1(6)[of cur l] in simp_all)
    qed
  qed
qed

lemma release_name: "release l p m pth cur lv = Inr (l', code, ans) \<Longrightarrow> name_of l' = name_of l"
  by (induction rule: release_induct)
    (auto dest!: regrant_name drop_intent_queue simp: release_target_def split: if_splits)

end
