(* ===== verification/Lock_Invariants.thy ===== *)
theory Lock_Invariants
  imports Lock_Rules
begin

text \<open>
  The invariant of the lock tree and its preservation. A lock records who holds it
  (\<open>holders\<close>), who has an intent lock on it (\<open>intents\<close>) and who waits at it
  (\<open>waiting\<close>); together these are the \<open>claims\<close> on the lock. The invariant says
  that the modes at one lock are compatible, and that every claim on a child is covered by an
  intent lock on its parent.
\<close>

subsection \<open>Uniform view of the lock modes\<close>

definition valid_mode :: "lock_mode \<Rightarrow> bool" where
  "valid_mode m \<longleftrightarrow>
     m = LOCK_REQUEST_MODE_S \<or> m = LOCK_REQUEST_MODE_Splus \<or> m = LOCK_REQUEST_MODE_X"

lemma mode_cases:
  obtains (S) "m = LOCK_REQUEST_MODE_S" | (Splus) "m = LOCK_REQUEST_MODE_Splus"
  | (X) "m = LOCK_REQUEST_MODE_X" | (invalid) "\<not> valid_mode m" "m \<noteq> LOCK_REQUEST_MODE_S"
      "m \<noteq> LOCK_REQUEST_MODE_Splus" "m \<noteq> LOCK_REQUEST_MODE_X"
  by (auto simp: valid_mode_def)

lemma valid_mode_simps [simp]:
  "valid_mode LOCK_REQUEST_MODE_S" "valid_mode LOCK_REQUEST_MODE_Splus"
  "valid_mode LOCK_REQUEST_MODE_X"
  by (simp_all add: valid_mode_def)

fun option_mset :: "'a option \<Rightarrow> 'a multiset" where
  "option_mset None = {#}"
| "option_mset (Some x) = {#x#}"

definition holders :: "lock_mode \<Rightarrow> lock_node \<Rightarrow> proc multiset" where
  "holders m n =
     (if m = LOCK_REQUEST_MODE_S then lockers_S n
      else if m = LOCK_REQUEST_MODE_Splus then option_mset (locker_Splus n)
      else if m = LOCK_REQUEST_MODE_X then option_mset (locker_X n)
      else {#})"

definition intents :: "lock_mode \<Rightarrow> lock_node \<Rightarrow> proc multiset" where
  "intents m n =
     (if m = LOCK_REQUEST_MODE_S then lockers_IS n
      else if m = LOCK_REQUEST_MODE_Splus then lockers_ISplus n
      else if m = LOCK_REQUEST_MODE_X then lockers_IX n
      else {#})"

definition waiting :: "lock_mode \<Rightarrow> lock_request list \<Rightarrow> proc multiset" where
  "waiting m rs = mset (map requester (filter (\<lambda>r. req_mode r = m) rs))"

definition claims :: "lock_mode \<Rightarrow> lock_node \<Rightarrow> proc multiset" where
  "claims m n = holders m n + intents m n + waiting m (lock_requests n)"

lemma waiting_simps [simp]:
  "waiting m [] = {#}"
  "waiting m (r # rs) = (if req_mode r = m then {#requester r#} else {#}) + waiting m rs"
  "waiting m (rs @ rs') = waiting m rs + waiting m rs'"
  by (simp_all add: waiting_def)

lemma grant_target_effect:
  assumes "grant_target n m p = Some n'"
  shows "valid_mode m" "intents k n' = intents k n"
    and "holders k n' = (if k = m then add_mset p (holders m n) else holders k n)"
    and "lock_requests n' = lock_requests n" "lock_name n' = lock_name n"
  using assms
  by (cases m rule: mode_cases; auto simp: grant_target_def holders_def intents_def split: if_splits)+

lemma grant_intent_effect:
  assumes "grant_intent n m p = Some n'"
  shows "holders k n' = holders k n"
    and "intents k n' = (if k = m \<and> valid_mode m then add_mset p (intents m n) else intents k n)"
    and "lock_requests n' = lock_requests n" "lock_name n' = lock_name n"
  using assms
  by (cases m rule: mode_cases; auto simp: grant_intent_def holders_def intents_def split: if_splits)+

lemma drop_intent_effect:
  assumes "drop_intent n m p = Inr n'"
  shows "holders k n' = holders k n" "valid_mode m \<Longrightarrow> p \<in># intents m n"
    and "intents k n' = (if k = m then intents m n - {#p#} else intents k n)"
    and "lock_requests n' = lock_requests n" "lock_name n' = lock_name n"
  using assms
  by (cases m rule: mode_cases; auto simp: drop_intent_def holders_def intents_def split: if_splits)+

lemma drop_intent_defined:
  "valid_mode m \<Longrightarrow> p \<in># intents m n \<Longrightarrow> \<exists>n'. drop_intent n m p = Inr n'"
  "\<not> valid_mode m \<Longrightarrow> drop_intent n m p = Inr n"
  by (cases m rule: mode_cases; auto simp: drop_intent_def intents_def)+

lemma release_target_effect:
  assumes "release_target n m p = Some n'"
  shows "valid_mode m" "p \<in># holders m n" "intents k n' = intents k n"
    and "holders k n' = (if k = m then holders m n - {#p#} else holders k n)"
    and "lock_requests n' = lock_requests n" "lock_name n' = lock_name n"
  using assms
  by (cases m rule: mode_cases; auto simp: release_target_def holders_def intents_def split: if_splits)+

lemma set_queue_effect [simp]:
  "holders k (node (set_queue l rs)) = holders k (node l)"
  "intents k (node (set_queue l rs)) = intents k (node l)"
  by (simp_all add: set_queue_def holders_def intents_def)

lemma queue_update_effect [simp]:
  "holders k (n\<lparr>lock_requests := rs\<rparr>) = holders k n"
  "intents k (n\<lparr>lock_requests := rs\<rparr>) = intents k n"
  by (simp_all add: holders_def intents_def)

subsection \<open>Compatible modes at one lock\<close>

text \<open>
  \<open>compatible H I\<close>: the processes \<open>H m\<close> may hold the lock in mode \<open>m\<close> while
  the processes \<open>I m\<close> hold intents for mode \<open>m\<close> on it. An X lock excludes every
  other lock and every intent except the S+ locks of its own holder; an S lock excludes intents
  to X; an S+ lock excludes other S+ locks and intents, and the X intents of others.
\<close>

definition compatible :: "(lock_mode \<Rightarrow> proc set) \<Rightarrow> (lock_mode \<Rightarrow> proc set) \<Rightarrow> bool" where
  "compatible H I \<longleftrightarrow>
     (\<forall>p q. p \<in> H LOCK_REQUEST_MODE_X \<longrightarrow>
        q \<notin> H LOCK_REQUEST_MODE_S \<and> q \<notin> I LOCK_REQUEST_MODE_S \<and> q \<notin> I LOCK_REQUEST_MODE_X \<and>
        (q \<in> H LOCK_REQUEST_MODE_Splus \<longrightarrow> p = q) \<and> (q \<in> I LOCK_REQUEST_MODE_Splus \<longrightarrow> p = q)) \<and>
     (\<forall>p q. p \<in> H LOCK_REQUEST_MODE_S \<longrightarrow> q \<notin> I LOCK_REQUEST_MODE_X) \<and>
     (\<forall>p q. p \<in> H LOCK_REQUEST_MODE_Splus \<longrightarrow>
        q \<notin> I LOCK_REQUEST_MODE_Splus \<and> (q \<in> I LOCK_REQUEST_MODE_X \<longrightarrow> p = q))"

lemma compatible_mono:
  assumes "compatible H I" "\<And>m. H' m \<subseteq> H m" "\<And>m. I' m \<subseteq> I m"
  shows "compatible H' I'"
  using assms unfolding compatible_def by blast

definition node_inv :: "lock_node \<Rightarrow> bool" where
  "node_inv n \<longleftrightarrow> compatible (\<lambda>m. set_mset (holders m n)) (\<lambda>m. set_mset (intents m n))"

lemma node_inv_mono:
  assumes "node_inv n" "\<And>m. holders m n' \<subseteq># holders m n" "\<And>m. intents m n' \<subseteq># intents m n"
  shows "node_inv n'"
  using assms unfolding node_inv_def by (blast intro: compatible_mono dest: mset_subset_eqD)

lemma node_inv_queue [simp]: "node_inv (n\<lparr>lock_requests := rs\<rparr>) = node_inv n"
  by (simp add: node_inv_def)

lemma node_inv_new [simp]: "node_inv (new_node nm)"
  by (simp add: node_inv_def compatible_def new_node_def holders_def intents_def)

lemma in_option_mset [simp]: "x \<in># option_mset y \<longleftrightarrow> y = Some x"
  by (cases y) auto

lemma node_inv_grant_target: "grant_target n m p = Some n' \<Longrightarrow> node_inv n \<Longrightarrow> node_inv n'"
  by (cases m rule: mode_cases)
    (auto simp: grant_target_def node_inv_def compatible_def holders_def intents_def split: if_splits)

lemma node_inv_grant_intent: "grant_intent n m p = Some n' \<Longrightarrow> node_inv n \<Longrightarrow> node_inv n'"
  by (cases m rule: mode_cases)
    (auto simp: grant_intent_def node_inv_def compatible_def holders_def intents_def split: if_splits)

lemma node_inv_drop_intent: "drop_intent n m p = Inr n' \<Longrightarrow> node_inv n \<Longrightarrow> node_inv n'"
  by (erule node_inv_mono) (auto simp: drop_intent_effect)

lemma node_inv_release_target: "release_target n m p = Some n' \<Longrightarrow> node_inv n \<Longrightarrow> node_inv n'"
  by (erule node_inv_mono) (auto simp: release_target_effect)

subsection \<open>The invariant of the tree\<close>

text \<open>A request that waits at the lock with path \<open>\<pi>\<close> is on its way along its own path.\<close>

definition queue_ok :: "string list \<Rightarrow> lock_request \<Rightarrow> bool" where
  "queue_ok \<pi> r \<longleftrightarrow> req_path r \<noteq> [] \<and> req_level r = length (req_path r) - 1 \<and>
     current_level r \<le> req_level r \<and> take (current_level r + 1) (req_path r) = \<pi>"

fun lock_inv :: "string list \<Rightarrow> lock \<Rightarrow> bool" where
  "lock_inv \<pi> (Lock n cs) \<longleftrightarrow>
     node_inv n \<and> (\<forall>r \<in> set (lock_requests n). queue_ok \<pi> r) \<and>
     (\<forall>m. valid_mode m \<longrightarrow> (\<Sum>c\<leftarrow>cs. claims m (node c)) \<subseteq># intents m n) \<and>
     distinct (map name_of cs) \<and> (\<forall>c \<in> set cs. lock_inv (\<pi> @ [name_of c]) c)"

declare lock_inv.simps [simp del]

lemma lock_inv_iff:
  "lock_inv \<pi> l \<longleftrightarrow>
     node_inv (node l) \<and> (\<forall>r \<in> set (lock_requests (node l)). queue_ok \<pi> r) \<and>
     (\<forall>m. valid_mode m \<longrightarrow> (\<Sum>c\<leftarrow>children l. claims m (node c)) \<subseteq># intents m (node l)) \<and>
     distinct (map name_of (children l)) \<and> (\<forall>c \<in> set (children l). lock_inv (\<pi> @ [name_of c]) c)"
  by (cases l) (simp add: lock_inv.simps)

lemma lock_inv_child:
  "lock_inv \<pi> l \<Longrightarrow> i < length (children l) \<Longrightarrow> lock_inv (\<pi> @ [name_of (children l ! i)]) (children l ! i)"
  by (auto simp: lock_inv_iff[of \<pi>])

lemma lock_inv_node: "lock_inv \<pi> l \<Longrightarrow> node_inv (node l)"
  by (simp add: lock_inv_iff[of \<pi>])

lemma lock_inv_queue: "lock_inv \<pi> l \<Longrightarrow> r \<in> set (lock_requests (node l)) \<Longrightarrow> queue_ok \<pi> r"
  by (simp add: lock_inv_iff[of \<pi>])

lemma lock_inv_covered:
  assumes "lock_inv \<pi> l" "valid_mode m" "i < length (children l)"
  shows "claims m (node (children l ! i)) \<subseteq># intents m (node l)"
  using assms sum_mset_ge_nth[OF assms(3), of "\<lambda>c. claims m (node c)"]
  by (auto simp: lock_inv_iff[of \<pi>] intro: subset_mset.order_trans)

lemma lock_inv_new [simp]: "lock_inv \<pi> (new_Lock nm)"
  by (simp add: new_Lock_def lock_inv.simps) (simp add: new_node_def)

text \<open>Changing the lock's own record, with the children left alone.\<close>

lemma lock_inv_change_node:
  assumes "lock_inv \<pi> l" "node_inv n" "\<And>r. r \<in> set (lock_requests n) \<Longrightarrow> queue_ok \<pi> r"
    and "\<And>m. valid_mode m \<Longrightarrow> intents m (node l) \<subseteq># intents m n"
  shows "lock_inv \<pi> (Lock n (children l))"
  using assms by (auto simp: lock_inv_iff[of \<pi>] intro: subset_mset.order_trans)

lemma lock_inv_set_queue:
  "lock_inv \<pi> l \<Longrightarrow> (\<And>r. r \<in> set rs \<Longrightarrow> queue_ok \<pi> r) \<Longrightarrow> lock_inv \<pi> (set_queue l rs)"
  unfolding set_queue_def by (rule lock_inv_change_node) (auto simp: lock_inv_node)

text \<open>
  Replacing child \<open>i\<close> by \<open>c\<close> while the intents of the lock change by at least as much
  as the claims on the child.
\<close>

lemma lock_inv_change_child:
  assumes inv: "lock_inv \<pi> l" and i: "i < length (children l)"
    and c: "lock_inv (\<pi> @ [name_of c]) c" "name_of c = name_of (children l ! i)"
    and n: "node_inv n" "lock_requests n = lock_requests (node l)"
    and bal: "\<And>m. valid_mode m \<Longrightarrow>
      claims m (node c) + intents m (node l) \<subseteq># claims m (node (children l ! i)) + intents m n"
  shows "lock_inv \<pi> (Lock n ((children l)[i := c]))"
proof -
  have "(\<Sum>c'\<leftarrow>(children l)[i := c]. claims m (node c')) \<subseteq># intents m n" if m: "valid_mode m" for m
  proof -
    let ?old = "claims m (node (children l ! i))"
    have "(\<Sum>c'\<leftarrow>(children l)[i := c]. claims m (node c')) + ?old =
        (\<Sum>c'\<leftarrow>children l. claims m (node c')) + claims m (node c)"
      by (rule sum_mset_list_update[OF i])
    also have "\<dots> \<subseteq># intents m (node l) + claims m (node c)"
      using inv m by (simp add: lock_inv_iff[of \<pi>])
    also have "\<dots> \<subseteq># ?old + intents m n"
      using bal[OF m] by (simp add: ac_simps)
    finally show ?thesis by (simp add: ac_simps)
  qed
  moreover have "map name_of ((children l)[i := c]) = map name_of (children l)"
    using c(2) i by (simp add: map_update list_update_same_conv)
  ultimately show ?thesis
    using inv c n by (auto simp: lock_inv_iff[of \<pi>] dest!: in_set_list_update)
qed

text \<open>Adding a child that is covered by new intents.\<close>

lemma lock_inv_add_child:
  assumes inv: "lock_inv \<pi> l" and c: "lock_inv (\<pi> @ [name_of c]) c"
    and new: "\<And>d. d \<in> set (children l) \<Longrightarrow> name_of d \<noteq> name_of c"
    and n: "node_inv n" "lock_requests n = lock_requests (node l)"
    and bal: "\<And>m. valid_mode m \<Longrightarrow> claims m (node c) + intents m (node l) \<subseteq># intents m n"
  shows "lock_inv \<pi> (Lock n (children l @ [c]))"
proof -
  have "(\<Sum>c'\<leftarrow>children l @ [c]. claims m (node c')) \<subseteq># intents m n" if m: "valid_mode m" for m
  proof -
    have "(\<Sum>c'\<leftarrow>children l @ [c]. claims m (node c')) \<subseteq># intents m (node l) + claims m (node c)"
      using inv m by (simp add: lock_inv_iff[of \<pi>] ac_simps)
    also have "\<dots> \<subseteq># intents m n" using bal[OF m] by (simp add: ac_simps)
    finally show ?thesis .
  qed
  moreover have "name_of c \<notin> set (map name_of (children l))" using new by force
  ultimately show ?thesis using inv c n by (auto simp: lock_inv_iff[of \<pi>])
qed

end
