(* ===== verification/Lock_Preservation.thy ===== *)
theory Lock_Preservation
  imports Lock_Invariants
begin

text \<open>
  Every operation of the lock tree keeps the invariant, and how each of them changes the claims
  on the lock it is applied to. The claims are what the parent has to cover by intents.
\<close>

subsection \<open>Acquire\<close>

lemma acquire_create:
  "acquire l r ins = Inr (l', r', ret) \<Longrightarrow> create_missing r \<Longrightarrow> ret \<noteq> LOCK_ACQUIRE_NON_EXISTENT"
  by (induction rule: acquire_induct) auto

lemma acquire_claims:
  assumes "acquire l r ins = Inr (l', r', ret)" "valid_mode m"
  shows "claims m (node l') = claims m (node l) +
    (if m = req_mode r \<and> ret \<noteq> LOCK_ACQUIRE_NON_EXISTENT \<and>
        (ins \<or> ret = LOCK_ACQUIRE_ACQUIRED \<or> current_level r < current_level r')
     then {#requester r#} else {#})"
  using assms
proof (induction rule: acquire_induct)
  case (granted l r ins n)
  then show ?case by (auto simp: claims_def grant_target_effect)
next
  case (queued l r ins)
  then show ?case by (auto simp: claims_def enqueue_def)
next
  case (child l r ins n i c r' ret)
  with acquire_request[OF child(5)] show ?case by (auto simp: claims_def grant_intent_effect)
next
  case (absent l r ins n i c r' n')
  with acquire_request[OF absent(5)] show ?case
    by (auto simp: claims_def same_request_def grant_intent_effect drop_intent_effect)
next
  case (created l r ins n c r' ret)
  with acquire_request[OF created(6)] acquire_create[OF created(6)] show ?case
    by (auto simp: claims_def grant_intent_effect)
next
  case (missing l r ins n n')
  then show ?case by (auto simp: claims_def grant_intent_effect drop_intent_effect)
qed

lemma queue_ok_advanced:
  assumes "queue_ok \<pi> r" "current_level r \<noteq> req_level r"
  shows "queue_ok (\<pi> @ [next_name r]) (advanced r)"
  using assms by (auto simp: queue_ok_def take_Suc_conv_app_nth)

lemma queue_ok_cong:
  "queue_ok \<pi> r \<Longrightarrow> same_request r r' \<Longrightarrow> current_level r' = current_level r \<Longrightarrow> queue_ok \<pi> r'"
  by (auto simp: queue_ok_def same_request_def)

lemma queue_ok_updates [simp]:
  "queue_ok \<pi> (r\<lparr>acquire_status := s\<rparr>) = queue_ok \<pi> r"
  "queue_ok \<pi> (r\<lparr>lock_created := b\<rparr>) = queue_ok \<pi> r"
  by (simp_all add: queue_ok_def)

lemma new_claims [simp]: "claims m (node (new_Lock nm)) = {#}"
  by (simp add: claims_def new_Lock_def new_node_def holders_def intents_def)

theorem acquire_inv:
  assumes "acquire l r ins = Inr (l', r', ret)" "lock_inv \<pi> l" "queue_ok \<pi> r"
  shows "lock_inv \<pi> l'"
  using assms
proof (induction arbitrary: \<pi> rule: acquire_induct)
  case (granted l r ins n)
  then show ?case
    by (auto intro!: lock_inv_change_node
        simp: grant_target_effect node_inv_grant_target lock_inv_node lock_inv_queue)
next
  case (queued l r ins)
  then show ?case
    by (auto intro!: lock_inv_change_node simp: lock_inv_node lock_inv_queue enqueue_def)
next
  case (child l r ins n i c r' ret)
  note name = find_child_name[OF child(4)] and i = find_child_length[OF child(4)]
  have "lock_inv (\<pi> @ [next_name r]) c"
    using child queue_ok_advanced[OF child(9,1)] lock_inv_child[OF child(8) i] name by simp
  moreover have "name_of c = next_name r" using acquire_name[OF child(5)] name by simp
  ultimately show ?case
    using child acquire_claims[OF child(5)] name i
    by (intro lock_inv_change_child)
      (auto simp: grant_intent_effect lock_inv_node intro: node_inv_grant_intent)
next
  case (absent l r ins n i c r' n')
  note name = find_child_name[OF absent(4)] and i = find_child_length[OF absent(4)]
  have "lock_inv (\<pi> @ [next_name r]) c"
    using absent queue_ok_advanced[OF absent(9,1)] lock_inv_child[OF absent(8) i] name by simp
  moreover have "name_of c = next_name r" using acquire_name[OF absent(5)] name by simp
  moreover have "node_inv n'"
    using node_inv_drop_intent[OF absent(6) node_inv_grant_intent[OF absent(3)]] absent(8)
    by (simp add: lock_inv_node)
  ultimately show ?case
    using absent acquire_claims[OF absent(5)] name i acquire_request[OF absent(5)]
    by (intro lock_inv_change_child)
      (auto simp: grant_intent_effect drop_intent_effect same_request_def)
next
  case (created l r ins n c r' ret)
  have "lock_inv (\<pi> @ [next_name r]) c"
    using created queue_ok_advanced[of \<pi> "r\<lparr>lock_created := True\<rparr>"] by simp
  moreover have "name_of c = next_name r"
    using acquire_name[OF created(6)] by (simp add: new_Lock_def new_node_def)
  ultimately show ?case
    using created acquire_claims[OF created(6)] find_child_None[OF created(4)] acquire_create[OF created(6)]
    by (intro lock_inv_add_child)
      (auto simp: grant_intent_effect lock_inv_node intro: node_inv_grant_intent)
next
  case (missing l r ins n n')
  have "node_inv n'"
    using node_inv_drop_intent[OF missing(5) node_inv_grant_intent[OF missing(2)]] missing(6)
    by (simp add: lock_inv_node)
  with missing show ?case
    by (intro lock_inv_change_node) (auto simp: grant_intent_effect drop_intent_effect lock_inv_queue)
qed

subsection \<open>The grant loop\<close>

lemma claims_set_queue:
  "claims m (node (set_queue l rs)) = holders m (node l) + intents m (node l) + waiting m rs"
  by (simp add: claims_def)

lemma set_queue_claims_acquire:
  assumes "lock_requests (node l) = r # rs" "acquire l r False = Inr (l1, r', ret)" "valid_mode m"
  shows "claims m (node (set_queue l1 rs)) \<subseteq># claims m (node l)"
  using acquire_claims[OF assms(2,3)] acquire_own_queue[OF assms(2)] assms(1)
  by (auto simp: claims_set_queue claims_def split: if_splits)

lemma regrant_claims:
  "regrant l = Inr (l', ans) \<Longrightarrow> valid_mode m \<Longrightarrow> claims m (node l') \<subseteq># claims m (node l)"
proof (induction rule: regrant_induct)
  case (stuck l r rs)
  then show ?case by (simp add: claims_def)
qed (auto dest: set_queue_claims_acquire intro: subset_mset.order_trans)

lemma lock_inv_queue_Cons:
  assumes "lock_inv \<pi> l" "lock_requests (node l) = r # rs"
  shows "queue_ok \<pi> r" "q \<in> set rs \<Longrightarrow> queue_ok \<pi> q"
  using lock_inv_queue[OF assms(1)] assms(2) by simp_all

lemma regrant_step_inv:
  assumes "lock_requests (node l) = r # rs" "acquire l r False = Inr (l1, r', ret)" "lock_inv \<pi> l"
  shows "lock_inv \<pi> (set_queue l1 rs)"
  using acquire_inv[OF assms(2,3)] lock_inv_queue_Cons[OF assms(3,1)]
  by (blast intro: lock_inv_set_queue)

theorem regrant_inv: "regrant l = Inr (l', ans) \<Longrightarrow> lock_inv \<pi> l \<Longrightarrow> lock_inv \<pi> l'"
proof (induction rule: regrant_induct)
  case (stuck l r rs)
  with lock_inv_queue_Cons[OF stuck(3,1)] show ?case by (auto intro!: lock_inv_set_queue)
qed (auto dest: regrant_step_inv)

subsection \<open>Release\<close>

lemma mset_add_mono_trans:
  fixes A :: "'a multiset"
  assumes "A \<subseteq># B"
  shows "B + D \<subseteq># C \<Longrightarrow> A + D \<subseteq># C" "add_mset x B \<subseteq># C \<Longrightarrow> add_mset x A \<subseteq># C" "B \<subseteq># C \<Longrightarrow> A \<subseteq># C"
  using assms by (meson mset_subset_eq_add_mset_cancel mset_subset_eq_mono_add subset_mset.order_trans
      subset_mset.order_refl)+

lemma remove_request_waiting:
  "remove_request m p rs = Some rs' \<Longrightarrow>
     waiting k rs = waiting k rs' + (if k = m then {#p#} else {#}) \<and> set rs' \<subseteq> set rs"
  by (induction m p rs arbitrary: rs' rule: remove_request.induct) (auto split: if_splits)

lemma release_claims:
  "release l p m pth cur lv = Inr (l', code, ans) \<Longrightarrow> code = LOCK_RELEASE_SUCCESS \<Longrightarrow> valid_mode k \<Longrightarrow>
     claims k (node l') + (if k = m then {#p#} else {#}) \<subseteq># claims k (node l)"
proof (induction rule: release_induct)
  case (released l cur l' n ans)
  have "claims k n + (if k = m then {#p#} else {#}) \<subseteq># claims k (node l)"
    using release_target_effect[OF released(2)] by (auto simp: claims_def)
  with regrant_claims[OF released(3,5)] show ?case by (auto intro: mset_add_mono_trans)
next
  case (child l cur i c ans1 n l' ans2)
  have "claims k n + (if k = m then {#p#} else {#}) \<subseteq># claims k (node l)"
    using drop_intent_effect[OF child(5)] child(9) by (auto simp: claims_def)
  with regrant_claims[OF child(6,9)] show ?case by (auto intro: mset_add_mono_trans)
next
  case (cancelled l cur rs)
  with remove_request_waiting[OF cancelled(2), of k] show ?case by (simp add: claims_def)
qed simp

text \<open>Passing the release of a child on to the intents of its parent.\<close>

lemma release_child_inv:
  assumes inv: "lock_inv \<pi> l" and i: "i < length (children l)"
    and rel: "release (children l ! i) p m pth cur lv = Inr (c, LOCK_RELEASE_SUCCESS, ans)"
    and drop: "drop_intent (node l) m p = Inr n"
    and c: "lock_inv (\<pi> @ [name_of (children l ! i)]) c"
  shows "lock_inv \<pi> (Lock n ((children l)[i := c]))"
proof -
  have "name_of c = name_of (children l ! i)" using release_name[OF rel] .
  moreover have "claims k (node c) + intents k (node l) \<subseteq># claims k (node (children l ! i)) + intents k n"
    if k: "valid_mode k" for k
    using release_claims[OF rel refl k] drop_intent_effect[OF drop] k
    by (auto dest!: multi_member_split split: if_splits)
  ultimately show ?thesis
    using inv node_inv_drop_intent[OF drop lock_inv_node[OF inv]] i c
    by (intro lock_inv_change_child) (auto simp: drop_intent_effect[OF drop])
qed

theorem release_inv:
  "release l p m pth cur lv = Inr (l', code, ans) \<Longrightarrow> lock_inv \<pi> l \<Longrightarrow> lock_inv \<pi> l'"
proof (induction arbitrary: \<pi> rule: release_induct)
  case (released l cur l' n ans)
  then show ?case
    by (intro regrant_inv[OF released(3)] lock_inv_change_node)
      (auto simp: release_target_effect node_inv_release_target lock_inv_node lock_inv_queue)
next
  case (child l cur i c ans1 n l' ans2)
  note i = find_child_length[OF child(3)]
  show ?case
    by (rule regrant_inv[OF child(6) release_child_inv[OF child(8) i child(4,5)]])
      (rule child(7)[OF lock_inv_child[OF child(8) i]])
next
  case (cancelled l cur rs)
  with remove_request_waiting[OF cancelled(2)] show ?case
    by (auto intro!: lock_inv_set_queue dest: lock_inv_queue)
qed

end
