(* ===== verification/Lock_Safety.thy ===== *)
theory Lock_Safety
  imports Lock_Preservation
begin

text \<open>
  The operations of the lock tree never run into undefined behaviour: every path index is in
  range, and every \<open>erase(find(p))\<close> finds \<open>p\<close>. The remaining operations
  (\<open>create_not_held\<close>, \<open>destroy\<close>) are shown to keep the invariant.
\<close>

subsection \<open>No undefined behaviour\<close>

lemma drop_after_grant:
  "grant_intent n m p = Some n' \<Longrightarrow> \<exists>n''. drop_intent n' m p = Inr n''"
  by (cases "valid_mode m") (auto simp: drop_intent_defined grant_intent_effect)

lemma acquire_defined:
  "current_level r \<le> req_level r \<Longrightarrow> req_level r < length (req_path r) \<Longrightarrow>
     \<exists>l' r' ret. acquire l r ins = Inr (l', r', ret)"
proof (induction l r ins rule: acquire.induct)
  case (1 l r ins)
  consider (blk) "blocked l r"
    | (grt) n where "current_level r = req_level r"
        "grant_target (node l) (req_mode r) (requester r) = Some n"
    | (int) n where "current_level r \<noteq> req_level r"
        "grant_intent (node l) (req_mode r) (requester r) = Some n"
    by (cases "current_level r = req_level r") auto
  then show ?case
  proof cases
    case blk
    then show ?thesis by (simp add: acquire_blocked stay_queued_def Let_def)
  next
    case grt
    then show ?thesis by (simp add: acquire_granted)
  next
    case int
    with 1(3,4) have len: "current_level r + 1 < length (req_path r)" by simp
    then have idx: "\<not> ((children l \<noteq> [] \<or> create_missing r) \<and>
        length (req_path r) \<le> current_level r + 1)" by simp
    show ?thesis
    proof (cases "find_child (next_name r) (children l)")
      case (Some i)
      obtain c r' ret where c: "acquire (children l ! i) (advanced r) True = Inr (c, r', ret)"
        using 1(2)[OF int idx Some] 1(3,4) int(1) by auto
      from acquire_request[OF c] drop_after_grant[OF int(2)] obtain n'
        where "drop_intent n (req_mode r') (requester r') = Inr n'" by (auto simp: same_request_def)
      with c show ?thesis by (auto simp: acquire_child[OF int Some len])
    next
      case None
      show ?thesis
      proof (cases "create_missing r")
        case True
        with 1(1)[OF int idx None True] 1(3,4) int(1) show ?thesis
          by (auto simp: acquire_created[OF int None True len])
      next
        case False
        with drop_after_grant[OF int(2)] len show ?thesis
          by (auto simp: acquire_missing[OF int None False])
      qed
    qed
  qed
qed

lemma queue_ok_bounds:
  "queue_ok \<pi> r \<Longrightarrow> current_level r \<le> req_level r \<and> req_level r < length (req_path r)"
  by (auto simp: queue_ok_def)

lemma regrant_defined: "lock_inv \<pi> l \<Longrightarrow> \<exists>l' ans. regrant l = Inr (l', ans)"
proof (induction l rule: regrant.induct)
  case (1 l)
  show ?case
  proof (cases "lock_requests (node l)")
    case Nil
    then show ?thesis by (subst regrant.simps) simp
  next
    case (Cons r rs)
    from queue_ok_bounds[OF lock_inv_queue_Cons(1)[OF 1(3) Cons]]
    obtain l1 r' ret where a: "acquire l r False = Inr (l1, r', ret)"
      using acquire_defined by blast
    from regrant_step_inv[OF Cons a 1(3)] have inv: "lock_inv \<pi> (pop_front l1)"
      by (simp add: pop_front_acquire[OF a Cons])
    show ?thesis
    proof (cases "ret = LOCK_ACQUIRE_QUEUED")
      case False
      with 1(1)[OF Cons a] inv have "\<exists>l' ans. regrant (pop_front l1) = Inr (l', ans)" by simp
      with Cons a False show ?thesis by (subst regrant.simps) auto
    next
      case True
      with 1(2)[OF Cons a _ _ _ _ inv] Cons a show ?thesis
        by (cases "current_level r < current_level r'"; subst regrant.simps) auto
    qed
  qed
qed

text \<open>A release that succeeded at a child finds its intent at the parent.\<close>

lemma release_drop_defined:
  assumes "lock_inv \<pi> l" "i < length (children l)"
    and "release (children l ! i) p m pth cur lv = Inr (c, LOCK_RELEASE_SUCCESS, ans)"
  shows "\<exists>n. drop_intent (node l) m p = Inr n"
proof (cases "valid_mode m")
  case True
  from release_claims[OF assms(3) refl True] lock_inv_covered[OF assms(1) True assms(2)]
  have "p \<in># intents m (node l)"
    by (auto dest: mset_subset_eqD simp: insert_subset_eq_iff)
  then show ?thesis using True by (simp add: drop_intent_defined)
qed (simp add: drop_intent_defined)

lemma release_defined:
  "lock_inv \<pi> l \<Longrightarrow> cur \<le> lv \<Longrightarrow> lv < length pth \<Longrightarrow>
     \<exists>l' code ans. release l p m pth cur lv = Inr (l', code, ans)"
proof (induction l p m pth cur lv arbitrary: \<pi> rule: release.induct)
  case (1 l p m pth cur lv)
  show ?case
  proof (cases rule: release_shapes[where cur = cur and lv = lv and l = l and m = m and p = p and pth = pth])
    case (here n)
    have "lock_inv \<pi> (Lock n (children l))"
      using 1(2) release_target_effect[OF here(2)] node_inv_release_target[OF here(2)]
      by (intro lock_inv_change_node) (auto simp: lock_inv_node lock_inv_queue)
    from regrant_defined[OF this] here show ?thesis by (auto simp: release_here)
  next
    case cancel
    then show ?thesis by (auto simp: release_cancel cancel_request_cases split: option.splits)
  next
    case bad
    with 1(3,4) show ?thesis by simp
  next
    case (chld i)
    note i = find_child_length[OF chld(4)]
    from 1(1)[OF chld(1,3,4) lock_inv_child[OF 1(2) i]] 1(3,4) chld(1)
    obtain c code ans where c: "release (children l ! i) p m pth (cur + 1) lv = Inr (c, code, ans)"
      by auto
    show ?thesis
    proof (cases code)
      case LOCK_RELEASE_SUCCESS
      note c' = c[unfolded LOCK_RELEASE_SUCCESS]
      from release_drop_defined[OF 1(2) i c'] obtain n where d: "drop_intent (node l) m p = Inr n"
        by blast
      from regrant_defined[OF release_child_inv[OF 1(2) i c' d]] release_inv[OF c' lock_inv_child[OF 1(2) i]]
        c' d show ?thesis
        by (auto simp: release_child[OF chld(1,2,4)])
    next
      case LOCK_RELEASE_NOT_HELD
      with c show ?thesis
        by (auto simp: release_child[OF chld(1,2,4)] cancel_request_cases split: option.splits)
    qed
  qed
qed

subsection \<open>Creating without holding\<close>

text \<open>One equation per outcome of \<open>create_not_held\<close>.\<close>

lemma create_found:
  "cur < length pth \<Longrightarrow> find_child (pth ! cur) (children l) = Some i \<Longrightarrow>
   create_not_held_at l p pth cur lv e =
     (let ens = (e \<or> locker_X (node l) = Some p)
      in if cur < lv then
           (case create_not_held_at (children l ! i) p pth (cur + 1) lv ens of
              Inl f \<Rightarrow> Inl f | Inr (c, code) \<Rightarrow> Inr (Lock (node l) ((children l)[i := c]), code))
         else Inr (l, if ens then LOCK_CREATE_EXISTS else LOCK_CREATE_PARENT_NOT_HELD))"
  by (subst create_not_held_at.simps) (simp add: Let_def)

lemma create_absent:
  "cur < length pth \<Longrightarrow> find_child (pth ! cur) (children l) = None \<Longrightarrow>
   create_not_held_at l p pth cur lv e =
     (let ens = (e \<or> locker_X (node l) = Some p)
      in if \<not> ens then Inr (l, LOCK_CREATE_PARENT_NOT_HELD)
         else if cur < lv then
           (case create_not_held_at (new_Lock (pth ! cur)) p pth (cur + 1) lv True of
              Inl f \<Rightarrow> Inl f | Inr (c, code) \<Rightarrow> Inr (Lock (node l) (children l @ [c]), code))
         else Inr (Lock (node l) (children l @ [new_Lock (pth ! cur)]), LOCK_CREATE_CREATED))"
  by (subst create_not_held_at.simps) (simp add: Let_def)

lemma create_not_held_at_defined:
  "lv < length pth \<Longrightarrow> cur \<le> lv \<Longrightarrow>
     \<exists>l' code. create_not_held_at l p pth cur lv e = Inr (l', code)"
proof (induction "lv - cur" arbitrary: l cur e)
  case 0
  then show ?case
    by (cases "find_child (pth ! cur) (children l)") (auto simp: create_found create_absent Let_def)
next
  case (Suc k)
  then have lt: "cur < lv" "cur < length pth" by auto
  have IH: "\<exists>l' code. create_not_held_at l2 p pth (cur + 1) lv e2 = Inr (l', code)" for l2 e2
    using Suc.hyps(1)[of "cur + 1" l2 e2] Suc.prems Suc.hyps(2) by simp
  show ?case
  proof (cases "find_child (pth ! cur) (children l)")
    case None
    with lt IH[of "new_Lock (pth ! cur)" True] show ?thesis by (auto simp: create_absent Let_def)
  next
    case (Some i)
    with lt IH[of "children l ! i" "e \<or> locker_X (node l) = Some p"] show ?thesis
      by (auto simp: create_found Let_def)
  qed
qed

lemma new_Lock_name [simp]: "name_of (new_Lock nm) = nm"
  by (simp add: new_Lock_def new_node_def)

lemma create_not_held_at_inv:
  "lv < length pth \<Longrightarrow> cur \<le> lv \<Longrightarrow> create_not_held_at l p pth cur lv e = Inr (l', code) \<Longrightarrow>
     lock_inv \<pi> l \<Longrightarrow> lock_inv \<pi> l' \<and> node l' = node l"
proof (induction "lv - cur" arbitrary: l cur e l' code \<pi>)
  case 0
  show ?case
  proof (cases "find_child (pth ! cur) (children l)")
    case None
    with 0 find_child_None[OF None] show ?thesis
      by (auto simp: create_absent Let_def lock_inv_node intro!: lock_inv_add_child split: if_splits)
  next
    case (Some i)
    with 0 show ?thesis by (auto simp: create_found Let_def split: if_splits)
  qed
next
  case (Suc k)
  then have lt: "cur < lv" "cur < length pth" and k: "k = lv - (cur + 1)" by auto
  note IH = Suc.hyps(1)[OF k _ _ _, of l2 e2 l2' code \<pi>2 for l2 e2 l2' \<pi>2]
  show ?case
  proof (cases "find_child (pth ! cur) (children l)")
    case None
    with Suc.prems lt find_child_None[OF None] show ?thesis
      by (auto simp: create_absent Let_def lock_inv_node intro!: lock_inv_add_child
          split: if_splits sum.splits dest!: IH)
  next
    case (Some i)
    note i = find_child_length[OF Some]
    from Suc.prems(3) Some lt obtain c where
      c: "create_not_held_at (children l ! i) p pth (cur + 1) lv (e \<or> locker_X (node l) = Some p) = Inr (c, code)"
      and l': "l' = Lock (node l) ((children l)[i := c])"
      by (auto simp: create_found Let_def split: sum.splits)
    from IH[OF _ _ c lock_inv_child[OF Suc.prems(4) i]] Suc.prems lt
    show ?thesis unfolding l'
      by (auto intro!: lock_inv_change_child[OF Suc.prems(4) i] lock_inv_node[OF Suc.prems(4)])
  qed
qed

text \<open>\<open>create_not_held\<close> never reads the path out of range and keeps the invariant.\<close>

lemma create_not_held_defined: "pth \<noteq> [] \<Longrightarrow> \<exists>l' code. create_not_held l po pth = Inr (l', code)"
  using create_not_held_at_defined[of "length pth - 1" pth 1 l]
  by (auto simp: create_not_held_def Let_def split: option.splits)

lemma create_not_held_inv:
  assumes "create_not_held l po pth = Inr (l', code)" "lock_inv \<pi> l"
  shows "lock_inv \<pi> l'" "node l' = node l"
  using assms create_not_held_at_inv[of "length pth - 1" pth 1 l _ _ l' code \<pi>]
  by (auto simp: create_not_held_def Let_def split: if_splits option.splits)

subsection \<open>Destroying\<close>

lemma lock_inv_remove_child:
  assumes inv: "lock_inv \<pi> l" and i: "i < length (children l)"
  shows "lock_inv \<pi> (Lock (node l) (take i (children l) @ drop (Suc i) (children l)))"
proof -
  let ?cs = "children l"
  have split: "?cs = take i ?cs @ ?cs ! i # drop (Suc i) ?cs"
    using i by (simp add: id_take_nth_drop)
  have "distinct (map name_of ?cs)" using inv by (simp add: lock_inv_iff[of \<pi>])
  then have dist: "distinct (map name_of (take i ?cs @ drop (Suc i) ?cs))"
    by (subst (asm) split) auto
  have "(\<Sum>c\<leftarrow>take i ?cs @ drop (Suc i) ?cs. claims m (node c)) \<subseteq># (\<Sum>c\<leftarrow>?cs. claims m (node c))" for m
    by (subst (3) split) simp
  then have "(\<Sum>c\<leftarrow>take i ?cs @ drop (Suc i) ?cs. claims m (node c)) \<subseteq># intents m (node l)"
    if "valid_mode m" for m
    using inv that by (auto simp: lock_inv_iff[of \<pi> l] intro: subset_mset.order_trans)
  with inv dist show ?thesis by (auto simp: lock_inv_iff[of \<pi>] dest: in_set_takeD in_set_dropD)
qed

lemma release_claims_le:
  assumes "release l p m pth cur lv = Inr (l', code, ans)" "valid_mode k"
  shows "claims k (node l') \<subseteq># claims k (node l)"
proof (cases code)
  case LOCK_RELEASE_SUCCESS
  from release_claims[OF assms(1) this assms(2)] show ?thesis
    by (rule subset_mset.order_trans[rotated]) simp
next
  case LOCK_RELEASE_NOT_HELD
  with assms(1) show ?thesis by (auto dest: release_not_held)
qed

lemma destroy_child_inv:
  assumes "destroy_child l i p pth cur = Inr (l', code, freed)" "lock_inv \<pi> l" "i < length (children l)"
  shows "lock_inv \<pi> l'" "name_of l' = name_of l"
    "valid_mode k \<Longrightarrow> claims k (node l') \<subseteq># claims k (node l)"
  using assms release_name[of "Lock (node l) (take i (children l) @ drop (Suc i) (children l))"]
    release_inv[OF _ lock_inv_remove_child[OF assms(2,3)]]
    release_claims_le[of "Lock (node l) (take i (children l) @ drop (Suc i) (children l))"]
  by (auto simp: destroy_child_def Let_def split: fault_splits)

lemma destroy_inv:
  "destroy l p pth cur lv = Inr (l', code, freed) \<Longrightarrow> lock_inv \<pi> l \<Longrightarrow>
     lock_inv \<pi> l' \<and> name_of l' = name_of l \<and>
     (\<forall>k. valid_mode k \<longrightarrow> claims k (node l') \<subseteq># claims k (node l))"
proof (induction l p pth cur lv arbitrary: l' \<pi> rule: destroy.induct)
  case (1 l p pth cur lv)
  consider (same) "l' = l"
    | (here) i where "find_child (pth ! (cur + 1)) (children l) = Some i"
        "destroy_child l i p pth cur = Inr (l', code, freed)"
    | (below) i c where "cur \<noteq> lv" "\<not> (children l \<noteq> [] \<and> length pth \<le> cur + 1)"
        "find_child (pth ! (cur + 1)) (children l) = Some i" "cur + 1 \<noteq> lv"
        "destroy (children l ! i) p pth (cur + 1) lv = Inr (c, code, freed)"
        "l' = Lock (node l) ((children l)[i := c])"
    using 1(2) by (subst (asm) destroy.simps) (auto split: fault_splits)
  then show ?case
  proof cases
    case same
    with 1(3) show ?thesis by simp
  next
    case here
    from destroy_child_inv[OF here(2) 1(3) find_child_length[OF here(1)]] show ?thesis by blast
  next
    case below
    note i = find_child_length[OF below(3)]
    from 1(1)[OF below(1-5) lock_inv_child[OF 1(3) i]] show ?thesis
      unfolding below(6)
      by (auto intro!: lock_inv_change_child[OF 1(3) i] lock_inv_node[OF 1(3)])
  qed
qed

end
