(* ===== verification/Lock_Spec.thy ===== *)
theory Lock_Spec
  imports Lock_Safety
begin

text \<open>
  The abstract specification of multiple-granularity locking and the refinement to it. The
  abstract state is the multiset of granted locks, each a path, a mode and a process; two grants
  may conflict when they are for the same lock or when one lock is an ancestor of the other. The
  specification promises that no two grants ever conflict.
\<close>

type_synonym grant = "string list \<times> lock_mode \<times> proc"

subsection \<open>Conflicts\<close>

definition incompatible :: "lock_mode \<Rightarrow> proc \<Rightarrow> lock_mode \<Rightarrow> proc \<Rightarrow> bool" where
  "incompatible m p m' p' \<longleftrightarrow>
     (if m = LOCK_REQUEST_MODE_X then
        m' = LOCK_REQUEST_MODE_X \<or> m' = LOCK_REQUEST_MODE_S \<or> m' = LOCK_REQUEST_MODE_Splus \<and> p \<noteq> p'
      else if m = LOCK_REQUEST_MODE_Splus then
        m' = LOCK_REQUEST_MODE_Splus \<or> m' = LOCK_REQUEST_MODE_X \<and> p \<noteq> p'
      else if m = LOCK_REQUEST_MODE_S then m' = LOCK_REQUEST_MODE_X
      else False)"

lemma incompatible_sym: "incompatible m p m' p' \<longleftrightarrow> incompatible m' p' m p"
  by (cases m rule: mode_cases; cases m' rule: mode_cases) (auto simp: incompatible_def)

fun conflict :: "grant \<Rightarrow> grant \<Rightarrow> bool" where
  "conflict (\<pi>, m, p) (\<pi>', m', p') \<longleftrightarrow>
     (prefix \<pi> \<pi>' \<or> prefix \<pi>' \<pi>) \<and> incompatible m p m' p'"

lemma conflict_sym: "conflict a b \<longleftrightarrow> conflict b a"
  by (cases a; cases b) (auto simp: incompatible_sym)

text \<open>A grant that is there twice is compared with itself.\<close>

definition conflict_free :: "grant multiset \<Rightarrow> bool" where
  "conflict_free G \<longleftrightarrow>
     (\<forall>a \<in># G. \<forall>b \<in># G. a \<noteq> b \<longrightarrow> \<not> conflict a b) \<and>
     (\<forall>a \<in># G. 2 \<le> count G a \<longrightarrow> \<not> conflict a a)"

lemma conflict_free_empty [simp]: "conflict_free {#}"
  by (simp add: conflict_free_def)

lemma conflict_freeD:
  assumes "conflict_free G"
  shows "a \<in># G \<Longrightarrow> b \<in># G \<Longrightarrow> a \<noteq> b \<Longrightarrow> \<not> conflict a b" "2 \<le> count G a \<Longrightarrow> \<not> conflict a a"
  using assms unfolding conflict_free_def by (auto, metis count_inI not_numeral_le_zero)

lemma conflict_free_add:
  assumes A: "conflict_free A" and B: "conflict_free B"
    and AB: "\<And>a b. a \<in># A \<Longrightarrow> b \<in># B \<Longrightarrow> \<not> conflict a b"
  shows "conflict_free (A + B)"
proof -
  have "\<not> conflict a a" if "2 \<le> count A a + count B a" for a
  proof -
    from that have "2 \<le> count A a \<or> 2 \<le> count B a \<or> 0 < count A a \<and> 0 < count B a" by arith
    then show ?thesis using conflict_freeD(2)[OF A, of a] conflict_freeD(2)[OF B, of a] AB[of a a]
      unfolding count_greater_zero_iff by blast
  qed
  moreover have "\<not> conflict a b" if "a \<in># A + B" "b \<in># A + B" "a \<noteq> b" for a b
    using that conflict_freeD(1)[OF A, of a b] conflict_freeD(1)[OF B, of a b] AB[of a b] AB[of b a]
      conflict_sym[of a b] unfolding union_iff by blast
  ultimately show ?thesis unfolding conflict_free_def by simp
qed

subsection \<open>The grants of a lock tree\<close>

definition node_grants :: "string list \<Rightarrow> lock_node \<Rightarrow> grant multiset" where
  "node_grants \<pi> n =
     (\<Sum>m\<leftarrow>[LOCK_REQUEST_MODE_S, LOCK_REQUEST_MODE_Splus, LOCK_REQUEST_MODE_X].
        image_mset (\<lambda>p. (\<pi>, m, p)) (holders m n))"

fun granted :: "string list \<Rightarrow> lock \<Rightarrow> grant multiset" where
  "granted \<pi> (Lock n cs) = node_grants \<pi> n + (\<Sum>c\<leftarrow>cs. granted (\<pi> @ [name_of c]) c)"

declare granted.simps [simp del]

lemma granted_iff:
  "granted \<pi> l = node_grants \<pi> (node l) + (\<Sum>c\<leftarrow>children l. granted (\<pi> @ [name_of c]) c)"
  by (cases l) (simp add: granted.simps)

lemma in_node_grants:
  "(\<pi>', m, p) \<in># node_grants \<pi> n \<longleftrightarrow> \<pi>' = \<pi> \<and> valid_mode m \<and> p \<in># holders m n"
  by (auto simp: node_grants_def valid_mode_def)

lemma in_sum_list: "x \<in># (\<Sum>c\<leftarrow>cs. (f c :: 'a multiset)) \<longleftrightarrow> (\<exists>c \<in> set cs. x \<in># f c)"
  by (induction cs) auto

text \<open>A grant below a lock is for a longer path, and its holder has a claim on the way.\<close>

lemma granted_below:
  "lock_inv \<pi> l \<Longrightarrow> (\<pi>', m, p) \<in># granted \<pi> l \<Longrightarrow>
     prefix \<pi> \<pi>' \<and> valid_mode m \<and> p \<in># claims m (node l)"
proof (induction l arbitrary: \<pi>)
  case (Lock n cs)
  from Lock.prems(2) consider (here) "(\<pi>', m, p) \<in># node_grants \<pi> n"
    | (below) c where "c \<in> set cs" "(\<pi>', m, p) \<in># granted (\<pi> @ [name_of c]) c"
    by (auto simp: granted.simps in_sum_list)
  then show ?case
  proof cases
    case here
    then show ?thesis by (auto simp: in_node_grants claims_def)
  next
    case (below c)
    then obtain i where i: "i < length cs" "c = cs ! i" by (auto simp: in_set_conv_nth)
    have "lock_inv (\<pi> @ [name_of c]) c" using Lock.prems(1) below(1) by (simp add: lock_inv.simps)
    from Lock.IH[OF below(1) this below(2)]
    have c: "prefix (\<pi> @ [name_of c]) \<pi>'" "valid_mode m" "p \<in># claims m (node c)" by auto
    moreover have "claims m (node c) \<subseteq># intents m n"
      using lock_inv_covered[OF Lock.prems(1) c(2), of i] i by simp
    ultimately show ?thesis by (auto simp: claims_def append_prefixD dest: mset_subset_eqD)
  qed
qed

lemma compatible_no_conflict:
  assumes "compatible H I" "p \<in> H m"
  shows "q \<in> I m' \<Longrightarrow> \<not> incompatible m p m' q"
    and "q \<in> H m' \<Longrightarrow> m \<noteq> m' \<Longrightarrow> \<not> incompatible m p m' q"
  using assms unfolding compatible_def
  by (cases m rule: mode_cases; cases m' rule: mode_cases; simp add: incompatible_def; blast)+

lemma holders_no_conflict:
  assumes "p \<in># holders m n" "q \<in># holders m n" "p \<noteq> q \<or> 2 \<le> count (holders m n) p"
  shows "\<not> incompatible m p m q"
  using assms by (cases m rule: mode_cases) (auto simp: incompatible_def holders_def)

lemma mode_grants_conflict_free: "conflict_free (image_mset (\<lambda>p. (\<pi>, m, p)) (holders m n))"
proof -
  have "count (image_mset (\<lambda>p. (\<pi>, m, p)) M) (\<pi>, m, q) = count M q"
    for M :: "proc multiset" and q
    by (induction M) auto
  then show ?thesis
    by (auto simp: conflict_free_def dest: holders_no_conflict)
qed

lemma node_grants_conflict_free:
  assumes "node_inv n"
  shows "conflict_free (node_grants \<pi> n)"
  using compatible_no_conflict(2)[OF assms[unfolded node_inv_def]]
  by (auto simp: node_grants_def intro!: conflict_free_add mode_grants_conflict_free)

lemma children_conflict_free:
  assumes "distinct (map name_of cs)" "\<And>c. c \<in> set cs \<Longrightarrow> lock_inv (\<pi> @ [name_of c]) c"
    and "\<And>c. c \<in> set cs \<Longrightarrow> conflict_free (granted (\<pi> @ [name_of c]) c)"
  shows "conflict_free (\<Sum>c\<leftarrow>cs. granted (\<pi> @ [name_of c]) c)"
  using assms
proof (induction cs)
  case Nil
  then show ?case by simp
next
  case (Cons c cs)
  have "\<not> conflict a b" if a: "a \<in># granted (\<pi> @ [name_of c]) c"
    and d: "d \<in> set cs" and b: "b \<in># granted (\<pi> @ [name_of d]) d" for a b d
  proof -
    obtain \<pi>1 m1 p1 \<pi>2 m2 p2 where ab: "a = (\<pi>1, m1, p1)" "b = (\<pi>2, m2, p2)"
      by (cases a, cases b) auto
    have "prefix (\<pi> @ [name_of c]) \<pi>1" "prefix (\<pi> @ [name_of d]) \<pi>2"
      using granted_below[OF Cons.prems(2), of c \<pi>1 m1 p1] granted_below[OF Cons.prems(2), of d \<pi>2 m2 p2]
        a b d ab by auto
    moreover have "name_of c \<noteq> name_of d" using Cons.prems(1) d by force
    ultimately show ?thesis using ab by (auto simp: prefix_def)
  qed
  then have cross: "\<not> conflict a b" if "a \<in># granted (\<pi> @ [name_of c]) c"
    "b \<in># (\<Sum>c\<leftarrow>cs. granted (\<pi> @ [name_of c]) c)" for a b
    using that unfolding in_sum_list by blast
  have "conflict_free (granted (\<pi> @ [name_of c]) c + (\<Sum>c\<leftarrow>cs. granted (\<pi> @ [name_of c]) c))"
    by (rule conflict_free_add[OF Cons.prems(3) Cons.IH cross]) (use Cons.prems in auto)
  then show ?case by simp
qed

theorem lock_inv_conflict_free: "lock_inv \<pi> l \<Longrightarrow> conflict_free (granted \<pi> l)"
proof (induction l arbitrary: \<pi>)
  case (Lock n cs)
  have inv: "node_inv n" "distinct (map name_of cs)"
    "\<And>c. c \<in> set cs \<Longrightarrow> lock_inv (\<pi> @ [name_of c]) c"
    using Lock.prems by (auto simp: lock_inv.simps)
  have "\<not> conflict a b" if a: "a \<in># node_grants \<pi> n"
    and c: "c \<in> set cs" and b: "b \<in># granted (\<pi> @ [name_of c]) c" for a b c
  proof -
    obtain \<pi>1 m1 p1 \<pi>2 m2 p2 where ab: "a = (\<pi>1, m1, p1)" "b = (\<pi>2, m2, p2)"
      by (cases a, cases b) auto
    obtain i where i: "i < length cs" "c = cs ! i" using c by (auto simp: in_set_conv_nth)
    have m2: "valid_mode m2" "p2 \<in># claims m2 (node c)"
      using granted_below[OF inv(3)[OF c]] b ab by auto
    have "p2 \<in># intents m2 n"
      using lock_inv_covered[OF Lock.prems m2(1), of i] m2(2) i by (auto dest: mset_subset_eqD)
    then show ?thesis
      using compatible_no_conflict(1)[OF inv(1)[unfolded node_inv_def]] a ab
      by (auto simp: in_node_grants)
  qed
  then have cross: "\<not> conflict a b" if "a \<in># node_grants \<pi> n"
    "b \<in># (\<Sum>c\<leftarrow>cs. granted (\<pi> @ [name_of c]) c)" for a b
    using that unfolding in_sum_list by blast
  have "conflict_free (\<Sum>c\<leftarrow>cs. granted (\<pi> @ [name_of c]) c)"
    using inv Lock.IH by (intro children_conflict_free) auto
  from conflict_free_add[OF node_grants_conflict_free[OF inv(1)] this cross] show ?case
    by (simp add: granted.simps)
qed

end
