(* ===== verification/Lock_Refinement.thy ===== *)
theory Lock_Refinement
  imports Lock_Spec
begin

text \<open>
  How the operations change the grants: \<open>acquire\<close> adds exactly the requested grant when it
  reports \<open>LOCK_ACQUIRE_ACQUIRED\<close> and nothing otherwise; \<open>release\<close> removes exactly
  the named grant, if there is one, and adds the grants of the requests it answers.
\<close>

definition request_grant :: "lock_request \<Rightarrow> grant" where
  "request_grant r = (req_path r, req_mode r, requester r)"

definition answered_grants :: "lock_request list \<Rightarrow> grant multiset" where
  "answered_grants ans =
     mset (map request_grant (filter (\<lambda>r. acquire_status r = LOCK_ACQUIRE_ACQUIRED) ans))"

lemma answered_grants_simps [simp]:
  "answered_grants [] = {#}"
  "answered_grants (r # ans) =
     (if acquire_status r = LOCK_ACQUIRE_ACQUIRED then {#request_grant r#} else {#}) + answered_grants ans"
  "answered_grants (as @ bs) = answered_grants as + answered_grants bs"
  by (simp_all add: answered_grants_def)

subsection \<open>Grants of one node\<close>

lemma node_grants_cong:
  "(\<And>m. holders m n' = holders m n) \<Longrightarrow> node_grants \<pi> n' = node_grants \<pi> n"
  by (simp add: node_grants_def)

lemma node_grants_grant:
  assumes "grant_target n m p = Some n'"
  shows "node_grants \<pi> n' = add_mset (\<pi>, m, p) (node_grants \<pi> n)"
  using grant_target_effect(1,3)[OF assms]
  by (cases m rule: mode_cases) (simp_all add: node_grants_def)

lemma node_grants_release:
  assumes "release_target n m p = Some n'"
  shows "node_grants \<pi> n = add_mset (\<pi>, m, p) (node_grants \<pi> n')"
proof -
  from release_target_effect[OF assms]
  have v: "valid_mode m" and h: "holders m n = add_mset p (holders m n')"
    and o: "\<And>k. k \<noteq> m \<Longrightarrow> holders k n' = holders k n" by simp_all
  show ?thesis using v h o by (cases m rule: mode_cases) (simp_all add: node_grants_def)
qed

lemma granted_change_child:
  assumes "i < length (children l)" "name_of c = name_of (children l ! i)"
    and "node_grants \<pi> n = node_grants \<pi> (node l)"
    and "granted (\<pi> @ [name_of c]) c + A = granted (\<pi> @ [name_of c]) (children l ! i) + B"
  shows "granted \<pi> (Lock n ((children l)[i := c])) + A = granted \<pi> l + B"
proof -
  let ?f = "\<lambda>c. granted (\<pi> @ [name_of c]) c"
  have "(\<Sum>c\<leftarrow>(children l)[i := c]. ?f c) + ?f (children l ! i) + A = (\<Sum>c\<leftarrow>children l. ?f c) + ?f c + A"
    using sum_mset_list_update[OF assms(1), of ?f c] by simp
  also have "\<dots> = (\<Sum>c\<leftarrow>children l. ?f c) + (?f (children l ! i) + B)"
    using assms(2,4) by (simp add: add.assoc)
  finally have "(\<Sum>c\<leftarrow>(children l)[i := c]. ?f c) + A = (\<Sum>c\<leftarrow>children l. ?f c) + B"
    by (simp add: ac_simps)
  with assms(3) show ?thesis by (simp add: granted_iff[of \<pi>] add.assoc)
qed

lemma granted_set_queue [simp]: "granted \<pi> (set_queue l rs) = granted \<pi> l"
  by (simp add: granted_iff[of \<pi>]) (rule node_grants_cong, simp)

lemma granted_new [simp]: "granted \<pi> (new_Lock nm) = {#}"
  by (simp add: new_Lock_def granted.simps node_grants_def new_node_def holders_def)

subsection \<open>Acquire\<close>

lemma queue_ok_at_target: "queue_ok \<pi> r \<Longrightarrow> current_level r = req_level r \<Longrightarrow> \<pi> = req_path r"
  by (auto simp: queue_ok_def)

theorem acquire_granted_eq:
  "acquire l r ins = Inr (l', r', ret) \<Longrightarrow> queue_ok \<pi> r \<Longrightarrow>
   granted \<pi> l' = granted \<pi> l + (if ret = LOCK_ACQUIRE_ACQUIRED then {#request_grant r#} else {#})"
proof (induction arbitrary: \<pi> rule: acquire_induct)
  case (granted l r ins n)
  with queue_ok_at_target[OF granted(3,1)] node_grants_grant[OF granted(2)] show ?case
    by (simp add: granted_iff[of "req_path r"] request_grant_def)
next
  case (queued l r ins)
  have "node_grants \<pi> (enqueue ins r' (node l)) = node_grants \<pi> (node l)" for r'
    by (rule node_grants_cong) (simp add: enqueue_def)
  then show ?case by (simp add: granted_iff[of \<pi>])
next
  case (child l r ins n i c r' ret)
  note name = find_child_name[OF child(4)] and i = find_child_length[OF child(4)]
  have "node_grants \<pi> n = node_grants \<pi> (node l)"
    by (rule node_grants_cong) (simp add: grant_intent_effect[OF child(3)])
  with granted_change_child[OF i, of c \<pi> n "{#}"] acquire_name[OF child(5)] name
    child(7)[OF queue_ok_advanced[OF child(8,1)]]
  show ?case by (simp add: request_grant_def)
next
  case (absent l r ins n i c r' n')
  note name = find_child_name[OF absent(4)] and i = find_child_length[OF absent(4)]
  have "node_grants \<pi> n' = node_grants \<pi> (node l)"
    by (rule node_grants_cong) (simp add: grant_intent_effect[OF absent(3)] drop_intent_effect[OF absent(6)])
  with granted_change_child[OF i, of c \<pi> n' "{#}" "{#}"] acquire_name[OF absent(5)] name
    absent(7)[OF queue_ok_advanced[OF absent(8,1)]]
  show ?case by simp
next
  case (created l r ins n c r' ret)
  have "node_grants \<pi> n = node_grants \<pi> (node l)"
    by (rule node_grants_cong) (simp add: grant_intent_effect[OF created(3)])
  moreover have "name_of c = next_name r" using acquire_name[OF created(6)] by simp
  ultimately show ?case
    using created(7)[OF queue_ok_advanced[of \<pi> "r\<lparr>lock_created := True\<rparr>"]] created(1,8)
    by (simp add: granted_iff[of \<pi>] request_grant_def)
next
  case (missing l r ins n n')
  have "node_grants \<pi> n' = node_grants \<pi> (node l)"
    by (rule node_grants_cong) (simp add: grant_intent_effect[OF missing(2)] drop_intent_effect[OF missing(5)])
  then show ?case by (simp add: granted_iff[of \<pi>])
qed

subsection \<open>The grant loop\<close>

theorem regrant_granted_eq:
  "regrant l = Inr (l', ans) \<Longrightarrow> lock_inv \<pi> l \<Longrightarrow>
   granted \<pi> l' = granted \<pi> l + answered_grants ans"
proof (induction rule: regrant_induct)
  case (answered l r rs l1 r' ret l2 ans)
  note q = lock_inv_queue_Cons(1)[OF answered(6,1)]
  have "request_grant r' = request_grant r" "acquire_status r' = ret"
    using acquire_request[OF answered(2)] by (auto simp: same_request_def request_grant_def)
  with acquire_granted_eq[OF answered(2) q] answered(5)[OF regrant_step_inv[OF answered(1,2,6)]]
  show ?case by simp
next
  case (advanced l r rs l1 r' l2 ans)
  note q = lock_inv_queue_Cons(1)[OF advanced(6,1)]
  from acquire_granted_eq[OF advanced(2) q] advanced(5)[OF regrant_step_inv[OF advanced(1,2,6)]]
  show ?case by simp
qed simp_all

subsection \<open>Release\<close>

text \<open>A grant below a lock is in the child that the path names next.\<close>

lemma granted_next_child:
  assumes inv: "lock_inv \<pi> l" and g: "(pth, m, p) \<in># granted \<pi> l"
    and \<pi>: "\<pi> = take (cur + 1) pth" "cur + 1 < length pth"
  shows "\<exists>i. find_child (pth ! (cur + 1)) (children l) = Some i \<and>
    (pth, m, p) \<in># granted (\<pi> @ [pth ! (cur + 1)]) (children l ! i)"
proof -
  have "pth \<noteq> \<pi>" using \<pi> by (metis length_take min_less_iff_conj nat_neq_iff)
  then obtain c where c: "c \<in> set (children l)" "(pth, m, p) \<in># granted (\<pi> @ [name_of c]) c"
    using g by (auto simp: granted_iff[of \<pi>] in_node_grants in_sum_list)
  have "lock_inv (\<pi> @ [name_of c]) c" using inv c(1) by (simp add: lock_inv_iff[of \<pi>])
  from granted_below[OF this c(2)] have "prefix (\<pi> @ [name_of c]) pth" by simp
  with \<pi> have name: "name_of c = pth ! (cur + 1)"
    by (auto simp: prefix_def nth_append) (metis length_take min.absorb4 nth_append_length)
  with c(1) obtain i where i: "find_child (pth ! (cur + 1)) (children l) = Some i"
    by (cases "find_child (pth ! (cur + 1)) (children l)") (auto dest: find_child_None)
  have "distinct (map name_of (children l))" using inv by (simp add: lock_inv_iff[of \<pi>])
  then have "children l ! i = c"
    using find_child_name[OF i] find_child_length[OF i] name c(1)
    by (metis (no_types, lifting) distinct_map in_set_conv_nth inj_on_eq_iff nth_mem)
  with i c(2) name show ?thesis by auto
qed

lemma granted_at_target:
  assumes "lock_inv \<pi> l" "(\<pi>, m, p) \<in># granted \<pi> l"
  shows "\<exists>n. release_target (node l) m p = Some n"
proof -
  have "(\<pi>, m, p) \<notin># granted (\<pi> @ [name_of c]) c" if "c \<in> set (children l)" for c
    using granted_below[of "\<pi> @ [name_of c]" c \<pi> m p] assms(1) that
    by (auto simp: lock_inv_iff[of \<pi>] dest: prefix_length_le)
  then have "valid_mode m \<and> p \<in># holders m (node l)"
    using assms(2) by (auto simp: granted_iff[of \<pi>] in_node_grants in_sum_list)
  then show ?thesis
    by (cases m rule: mode_cases) (auto simp: release_target_def holders_def)
qed

lemma take_next: "cur + 1 < length pth \<Longrightarrow> take (cur + 1) pth @ [pth ! (cur + 1)] = take (cur + 1 + 1) pth"
  by (simp add: take_Suc_conv_app_nth)

lemma not_granted_here:
  assumes inv: "lock_inv \<pi> l" and \<pi>: "\<pi> = take (cur + 1) pth" "lv + 1 = length pth" "cur \<le> lv"
    and here: "cur = lv \<Longrightarrow> release_target (node l) m p = None"
    and below: "\<And>i. cur \<noteq> lv \<Longrightarrow> find_child (pth ! (cur + 1)) (children l) = Some i \<Longrightarrow>
      lock_inv (take (cur + 1 + 1) pth) (children l ! i) \<Longrightarrow>
      (pth, m, p) \<notin># granted (take (cur + 1 + 1) pth) (children l ! i)"
  shows "(pth, m, p) \<notin># granted \<pi> l"
proof
  assume g: "(pth, m, p) \<in># granted \<pi> l"
  show False
  proof (cases "cur = lv")
    case True
    with granted_at_target[OF inv, of m p] g \<pi> here show False by auto
  next
    case False
    with \<pi> have lt: "cur + 1 < length pth" by simp
    from granted_next_child[OF inv g \<pi>(1) lt] obtain i
      where i: "find_child (pth ! (cur + 1)) (children l) = Some i"
        and g': "(pth, m, p) \<in># granted (take (cur + 1 + 1) pth) (children l ! i)"
      using take_next[OF lt] \<pi>(1) by auto
    from lock_inv_child[OF inv find_child_length[OF i]] find_child_name[OF i] take_next[OF lt] \<pi>(1)
    have "lock_inv (take (cur + 1 + 1) pth) (children l ! i)" by simp
    with below[OF False i] g' show False by simp
  qed
qed

theorem release_granted_eq:
  "release l p m pth cur lv = Inr (l', code, ans) \<Longrightarrow> lock_inv \<pi> l \<Longrightarrow> \<pi> = take (cur + 1) pth \<Longrightarrow>
   lv + 1 = length pth \<Longrightarrow> cur \<le> lv \<Longrightarrow>
   granted \<pi> l' = granted \<pi> l - {#(pth, m, p)#} + answered_grants ans \<and>
   (code = LOCK_RELEASE_NOT_HELD \<longrightarrow> (pth, m, p) \<notin># granted \<pi> l)"
proof (induction arbitrary: \<pi> rule: release_induct)
  case (released l cur l' n ans)
  have \<pi>: "\<pi> = pth" using released by simp
  have "lock_inv \<pi> (Lock n (children l))"
    using released(4) release_target_effect[OF released(2)] node_inv_release_target[OF released(2)]
    by (intro lock_inv_change_node) (auto simp: lock_inv_node lock_inv_queue)
  from regrant_granted_eq[OF released(3) this] node_grants_release[OF released(2), of \<pi>] \<pi>
  show ?case by (simp add: granted_iff[of pth l] granted.simps)
next
  case (child l cur i c ans1 n l' ans2)
  let ?g = "(pth, m, p)"
  note i = find_child_length[OF child(3)] and name = find_child_name[OF child(3)]
  note inv = lock_inv_child[OF child(8) i, unfolded name]
  have \<pi>': "\<pi> @ [pth ! (cur + 1)] = take (cur + 1 + 1) pth"
    using child(9) take_next[OF child(2)] by simp
  have c: "granted (\<pi> @ [pth ! (cur + 1)]) c =
      granted (\<pi> @ [pth ! (cur + 1)]) (children l ! i) - {#?g#} + answered_grants ans1"
    using child(7)[OF inv \<pi>' child(10)] child(1,11) by simp
  have name_c: "name_of c = name_of (children l ! i)" using release_name[OF child(4)] .
  have node: "node_grants \<pi> n = node_grants \<pi> (node l)"
    by (rule node_grants_cong) (simp add: drop_intent_effect[OF child(5)])
  let ?G = "granted (\<pi> @ [pth ! (cur + 1)]) (children l ! i)"
  have sub: "?G \<subseteq># granted \<pi> l"
    using sum_mset_ge_nth[OF i, of "\<lambda>c. granted (\<pi> @ [name_of c]) c"] name
    by (simp add: granted_iff[of \<pi>] subset_mset.add_increasing)
  have mem: "?g \<in># granted \<pi> l \<longleftrightarrow> ?g \<in># ?G"
    using granted_next_child[OF child(8) _ child(9,2)] child(3) mset_subset_eqD[OF sub, of ?g] by auto
  have "granted \<pi> (Lock n ((children l)[i := c])) = granted \<pi> l - {#?g#} + answered_grants ans1"
    using granted_change_child[OF i name_c node,
        of "if ?g \<in># ?G then {#?g#} else {#}" "answered_grants ans1"] c name name_c mem
    by (auto simp: diff_single_trivial dest!: multi_member_split split: if_splits)
  with regrant_granted_eq[OF child(6) release_child_inv[OF child(8) i child(4,5)]]
    release_inv[OF child(4) lock_inv_child[OF child(8) i]]
  show ?case by simp
next
  case (cancelled l cur rs)
  have "(pth, m, p) \<notin># granted \<pi> l"
    by (rule not_granted_here[OF cancelled(4-7)]) (use cancelled in auto)
  then show ?case by (simp add: diff_single_trivial)
next
  case (not_held l cur)
  have "(pth, m, p) \<notin># granted \<pi> l"
    by (rule not_granted_here[OF not_held(4-7)]) (use not_held in auto)
  then show ?case by (simp add: diff_single_trivial)
qed

end
