(* ===== verification/Lock_Queues.thy ===== *)
theory Lock_Queues
  imports Lock_Refinement
begin

text \<open>
  Requests are neither lost nor duplicated. \<open>pending\<close> is the multiset of the requests that
  wait anywhere in a tree. A queued \<open>acquire\<close> adds its request, the grant loop moves
  requests down the tree or answers them, and \<open>release\<close> takes away at most one request of
  the calling process. The grant loop works in queue order and stops only at a request that
  really is blocked.
\<close>

definition queue_of :: "lock_node \<Rightarrow> grant multiset" where
  "queue_of n = mset (map request_grant (lock_requests n))"

fun pending :: "lock \<Rightarrow> grant multiset" where
  "pending (Lock n cs) = queue_of n + (\<Sum>c\<leftarrow>cs. pending c)"

declare pending.simps [simp del]

lemma pending_iff: "pending l = queue_of (node l) + (\<Sum>c\<leftarrow>children l. pending c)"
  by (cases l) (simp add: pending.simps)

lemma pending_new [simp]: "pending (new_Lock nm) = {#}"
  by (simp add: new_Lock_def pending.simps queue_of_def new_node_def)

lemma pending_change_child:
  assumes "i < length (children l)" "lock_requests n = lock_requests (node l)"
    and "pending c + A = pending (children l ! i) + B"
  shows "pending (Lock n ((children l)[i := c])) + A = pending l + B"
proof -
  have "(\<Sum>c\<leftarrow>(children l)[i := c]. pending c) + pending (children l ! i) + A =
      (\<Sum>c\<leftarrow>children l. pending c) + (pending c + A)"
    using sum_mset_list_update[OF assms(1), of pending c] by simp
  also have "\<dots> = (\<Sum>c\<leftarrow>children l. pending c) + B + pending (children l ! i)"
    unfolding assms(3) by (simp add: ac_simps)
  finally have "(\<Sum>c\<leftarrow>(children l)[i := c]. pending c) + A = (\<Sum>c\<leftarrow>children l. pending c) + B"
    by (simp add: ac_simps)
  with assms(2) show ?thesis by (simp add: pending.simps pending_iff[of l] queue_of_def add.assoc)
qed

lemma pending_set_queue:
  "pending (set_queue l rs) + queue_of (node l) = pending l + mset (map request_grant rs)"
  by (simp add: pending.simps set_queue_def pending_iff[of l] queue_of_def)

lemma request_grant_updates [simp]:
  "request_grant (r\<lparr>acquire_status := s\<rparr>) = request_grant r"
  "request_grant (r\<lparr>lock_created := b\<rparr>) = request_grant r"
  "request_grant (r\<lparr>current_level := k\<rparr>) = request_grant r"
  by (simp_all add: request_grant_def)

subsection \<open>Acquire\<close>

theorem acquire_pending_eq:
  "acquire l r ins = Inr (l', r', ret) \<Longrightarrow>
   pending l' = pending l +
     (if ret = LOCK_ACQUIRE_QUEUED \<and> (ins \<or> current_level r < current_level r')
      then {#request_grant r#} else {#})"
proof (induction rule: acquire_induct)
  case (granted l r ins n)
  then show ?case by (simp add: pending.simps pending_iff[of l] queue_of_def grant_target_effect)
next
  case (queued l r ins)
  then show ?case by (simp add: pending.simps pending_iff[of l] queue_of_def enqueue_def)
next
  case (child l r ins n i c r' ret)
  have "current_level r < current_level r'" using acquire_request[OF child(5)] by simp
  with pending_change_child[OF find_child_length[OF child(4)], of n c "{#}"] child
  show ?case by (simp add: grant_intent_effect)
next
  case (absent l r ins n i c r' n')
  with pending_change_child[OF find_child_length[OF absent(4)], of n' c "{#}" "{#}"]
  show ?case by (simp add: grant_intent_effect drop_intent_effect)
next
  case (created l r ins n c r' ret)
  have "current_level r < current_level r'" using acquire_request[OF created(6)] by simp
  with created show ?case by (simp add: pending.simps pending_iff[of l] queue_of_def grant_intent_effect)
next
  case (missing l r ins n n')
  then show ?case by (simp add: pending.simps pending_iff[of l] queue_of_def grant_intent_effect drop_intent_effect)
qed

text \<open>The intent that \<open>grant_intent\<close> took is given back.\<close>

lemma drop_grant_intent:
  "grant_intent n m p = Some n1 \<Longrightarrow> drop_intent n1 m p = Inr n2 \<Longrightarrow> n2 = n"
  by (cases m rule: mode_cases) (auto simp: grant_intent_def drop_intent_def split: if_splits)

theorem acquire_non_existent:
  "acquire l r ins = Inr (l', r', ret) \<Longrightarrow> ret = LOCK_ACQUIRE_NON_EXISTENT \<Longrightarrow> l' = l"
proof (induction rule: acquire_induct)
  case (absent l r ins n i c r' n')
  from acquire_request[OF absent(5)]
  have "req_mode r' = req_mode r" "requester r' = requester r" by (auto simp: same_request_def)
  with absent drop_grant_intent[OF absent(3)] show ?case by simp
qed (auto dest: drop_grant_intent acquire_create)

subsection \<open>The grant loop\<close>

theorem regrant_pending_eq:
  "regrant l = Inr (l', ans) \<Longrightarrow> pending l = pending l' + mset (map request_grant ans)"
proof (induction rule: regrant_induct)
  case (answered l r rs l1 r' ret l2 ans)
  have "request_grant r' = request_grant r"
    using acquire_request[OF answered(2)] by (auto simp: same_request_def request_grant_def)
  with acquire_pending_eq[OF answered(2)] acquire_own_queue[OF answered(2)] answered(1,3,5)
    pending_set_queue[of l1 rs]
  show ?case by (simp add: queue_of_def)
next
  case (advanced l r rs l1 r' l2 ans)
  with acquire_pending_eq[OF advanced(2)] acquire_own_queue[OF advanced(2)]
    pending_set_queue[of l1 rs]
  show ?case by (simp add: queue_of_def)
next
  case (stuck l r rs)
  with pending_set_queue[of l "r\<lparr>acquire_status := LOCK_ACQUIRE_QUEUED\<rparr> # rs"] show ?case
    by (simp add: queue_of_def)
qed simp

text \<open>First come, first served: what is left of the queue is an end piece of it.\<close>

theorem regrant_fifo:
  "regrant l = Inr (l', ans) \<Longrightarrow>
   suffix (map request_grant (lock_requests (node l'))) (map request_grant (lock_requests (node l)))"
  by (induction rule: regrant_induct) (auto intro: suffix_ConsI)

text \<open>The loop does not stop early: the request at the front of the queue is blocked.\<close>

lemma blocked_set_queue [simp]:
  "grant_target (node (set_queue l rs)) m p = None \<longleftrightarrow> grant_target (node l) m p = None"
  "grant_intent (node (set_queue l rs)) m p = None \<longleftrightarrow> grant_intent (node l) m p = None"
  by (cases m rule: mode_cases; simp add: set_queue_def grant_target_def grant_intent_def)+

theorem regrant_front_blocked:
  "regrant l = Inr (l', ans) \<Longrightarrow> lock_requests (node l') = r # rs \<Longrightarrow> blocked l' r"
  by (induction arbitrary: r rs rule: regrant_induct) auto

subsection \<open>Release\<close>

lemma remove_request_pending:
  "remove_request m p rs = Some rs' \<Longrightarrow>
   \<exists>q. mset (map request_grant rs) = add_mset (q, m, p) (mset (map request_grant rs'))"
  by (induction rs arbitrary: rs') (fastforce simp: request_grant_def split: if_splits)+

theorem release_pending_eq:
  "release l p m pth cur lv = Inr (l', code, ans) \<Longrightarrow> lock_inv \<pi> l \<Longrightarrow> \<pi> = take (cur + 1) pth \<Longrightarrow>
   lv + 1 = length pth \<Longrightarrow> cur \<le> lv \<Longrightarrow>
   (\<exists>C. pending l = pending l' + mset (map request_grant ans) + C \<and>
     (C = {#} \<or> (\<exists>q. C = {#(q, m, p)#}) \<and> code = LOCK_RELEASE_SUCCESS \<and>
       (pth, m, p) \<notin># granted \<pi> l)) \<and>
   (code = LOCK_RELEASE_NOT_HELD \<longrightarrow> (pth, m, p) \<notin># granted \<pi> l)"
proof (induction arbitrary: \<pi> rule: release_induct)
  case (released l cur l' n ans)
  have "pending (Lock n (children l)) = pending l"
    by (simp add: pending.simps pending_iff[of l] queue_of_def release_target_effect[OF released(2)])
  with regrant_pending_eq[OF released(3)] show ?case by auto
next
  case (child l cur i c ans1 n l' ans2)
  note i = find_child_length[OF child(3)] and name = find_child_name[OF child(3)]
  note inv = lock_inv_child[OF child(8) i, unfolded name]
  have \<pi>': "\<pi> @ [pth ! (cur + 1)] = take (cur + 1 + 1) pth"
    using child(9) take_next[OF child(2)] by simp
  have cur: "cur + 1 \<le> lv" using child(1,11) by simp
  from child(7)[OF inv \<pi>' child(10) cur] obtain C where
    C: "pending (children l ! i) = pending c + mset (map request_grant ans1) + C"
      "C = {#} \<or> (\<exists>q. C = {#(q, m, p)#}) \<and>
         (pth, m, p) \<notin># granted (\<pi> @ [pth ! (cur + 1)]) (children l ! i)"
    by blast
  have "pending l = pending (Lock n ((children l)[i := c])) + mset (map request_grant ans1) + C"
    using pending_change_child[OF i, of n c "mset (map request_grant ans1) + C" "{#}"] C(1)
      drop_intent_effect(4)[OF child(5)] by (simp add: add.assoc)
  moreover have "(pth, m, p) \<notin># granted \<pi> l"
    if "(pth, m, p) \<notin># granted (\<pi> @ [pth ! (cur + 1)]) (children l ! i)"
    using granted_next_child[OF child(8) _ child(9,2)] that child(3) by auto
  ultimately show ?case using regrant_pending_eq[OF child(6)] C(2)
    by (intro conjI exI[of _ C]) (auto simp: ac_simps)
next
  case (cancelled l cur rs)
  have "(pth, m, p) \<notin># granted \<pi> l"
    by (rule not_granted_here[OF cancelled(4-7)]) (use cancelled in auto)
  moreover obtain q where "queue_of (node l) = add_mset (q, m, p) (mset (map request_grant rs))"
    using remove_request_pending[OF cancelled(2)] by (auto simp: queue_of_def)
  ultimately show ?case using pending_set_queue[of l rs]
    by (intro conjI exI[of _ "{#(q, m, p)#}"]) simp_all
next
  case (not_held l cur)
  have "(pth, m, p) \<notin># granted \<pi> l"
    by (rule not_granted_here[OF not_held(4-7)]) (use not_held in auto)
  then show ?case by simp
qed

end
