(* ===== verification/Lock_Creation.thy ===== *)
theory Lock_Creation
  imports Lock_Refinement
begin

text \<open>
  What \<open>create_not_held\<close> does on every branch, in terms of two questions about the tree
  before the call: does the lock exist, and does the process hold an X lock on the way to it.
\<close>

fun lookup_lock :: "lock \<Rightarrow> string list \<Rightarrow> lock option" where
  "lookup_lock l [] = Some l"
| "lookup_lock l (nm # ns) =
     (case find_child nm (children l) of None \<Rightarrow> None | Some i \<Rightarrow> lookup_lock (children l ! i) ns)"

text \<open>The process holds the lock or one below it, before the end of the path, in X mode.\<close>

fun owned_on_path :: "lock \<Rightarrow> proc \<Rightarrow> string list \<Rightarrow> bool" where
  "owned_on_path l p [] \<longleftrightarrow> False"
| "owned_on_path l p (nm # ns) \<longleftrightarrow>
     locker_X (node l) = Some p \<or>
     (case find_child nm (children l) of None \<Rightarrow> False | Some i \<Rightarrow> owned_on_path (children l ! i) p ns)"

definition create_outcome :: "lock \<Rightarrow> proc \<Rightarrow> string list \<Rightarrow> bool \<Rightarrow> create_code" where
  "create_outcome l p ns e =
     (if e \<or> owned_on_path l p ns then
        if lookup_lock l ns = None then LOCK_CREATE_CREATED else LOCK_CREATE_EXISTS
      else LOCK_CREATE_PARENT_NOT_HELD)"

lemma find_child_append:
  "find_child nm cs = None \<Longrightarrow> find_child nm (cs @ [c]) = (if name_of c = nm then Some (length cs) else None)"
  by (induction cs) (auto simp: find_child_def split: if_splits)

lemma find_child_update:
  "find_child nm cs = Some i \<Longrightarrow> name_of c = nm \<Longrightarrow> find_child nm (cs[i := c]) = Some i"
  by (induction cs arbitrary: i) (auto simp: find_child_def split: if_splits)

lemma granted_add_child:
  "granted \<pi> (Lock (node l) (children l @ [c])) = granted \<pi> l + granted (\<pi> @ [name_of c]) c"
  by (simp add: granted_iff[of \<pi>])

lemma create_not_held_at_correct:
  assumes "lv + 1 = length pth" "cur \<le> lv" "create_not_held_at l p pth cur lv e = Inr (l', code)"
  shows "code = create_outcome l p (drop cur pth) e" (is ?code)
    and "code \<noteq> LOCK_CREATE_CREATED \<Longrightarrow> l' = l" (is "_ \<Longrightarrow> ?same")
    and "code = LOCK_CREATE_CREATED \<Longrightarrow> lookup_lock l' (drop cur pth) = Some (new_Lock (last pth))"
    and "granted \<pi> l' = granted \<pi> l" and "node l' = node l"
proof -
  have "code = create_outcome l p (drop cur pth) e \<and> (code \<noteq> LOCK_CREATE_CREATED \<longrightarrow> l' = l) \<and>
    (code = LOCK_CREATE_CREATED \<longrightarrow> lookup_lock l' (drop cur pth) = Some (new_Lock (last pth))) \<and>
    granted \<pi> l' = granted \<pi> l \<and> node l' = node l"
    using assms
  proof (induction "lv - cur" arbitrary: l cur e l' code \<pi>)
    case 0
    then have cur: "cur = lv" "cur < length pth" "pth \<noteq> []" "length pth - 1 = cur" by auto
    have d: "drop cur pth = [pth ! cur]" "last pth = pth ! cur"
      using 0 cur Cons_nth_drop_Suc[OF cur(2)] by (simp_all add: last_conv_nth)
    show ?case
    proof (cases "find_child (pth ! cur) (children l)")
      case None
      with 0 cur show ?thesis unfolding d
        by (auto simp: create_absent Let_def create_outcome_def granted_add_child find_child_append
            split: if_splits)
    next
      case (Some i)
      with 0 cur show ?thesis unfolding d
        by (auto simp: create_found Let_def create_outcome_def split: if_splits)
    qed
  next
    case (Suc k)
    then have lt: "cur < lv" "cur < length pth" and k: "k = lv - (cur + 1)" by auto
    have d: "drop cur pth = pth ! cur # drop (cur + 1) pth" using lt by (simp add: Cons_nth_drop_Suc)
    note IH = Suc.hyps(1)[OF k Suc.prems(1)]
    show ?case
    proof (cases "find_child (pth ! cur) (children l)")
      case None
      show ?thesis
      proof (cases "e \<or> locker_X (node l) = Some p")
        case False
        with None Suc.prems lt show ?thesis unfolding d
          by (auto simp: create_absent Let_def create_outcome_def)
      next
        case True
        with Suc.prems(3) None lt obtain c where
          c: "create_not_held_at (new_Lock (pth ! cur)) p pth (cur + 1) lv True = Inr (c, code)"
          and l': "l' = Lock (node l) (children l @ [c])"
          by (auto simp: create_absent Let_def split: sum.splits)
        have ex: "lookup_lock (new_Lock (pth ! cur)) (drop (cur + 1) pth) = None"
          using lt Suc.prems(1) by (cases "drop (cur + 1) pth") (auto simp: new_Lock_def find_child_def)
        from IH[OF _ c, of "\<pi> @ [pth ! cur]"] lt ex True None
        show ?thesis unfolding l' d
          by (auto simp: create_outcome_def granted_add_child find_child_append)
      qed
    next
      case (Some i)
      note i = find_child_length[OF Some] find_child_name[OF Some]
      from Suc.prems(3) Some lt obtain c where
        c: "create_not_held_at (children l ! i) p pth (cur + 1) lv (e \<or> locker_X (node l) = Some p) = Inr (c, code)"
        and l': "l' = Lock (node l) ((children l)[i := c])"
        by (auto simp: create_found Let_def split: sum.splits)
      note IHc = IH[OF _ c, of "\<pi> @ [pth ! cur]"]
      have g: "granted \<pi> l' + {#} = granted \<pi> l + {#}" unfolding l'
        using IHc lt i by (intro granted_change_child) auto
      with IHc lt Some i show ?thesis unfolding l' d
        by (auto simp: create_outcome_def find_child_update)
    qed
  qed
  then show ?code "code \<noteq> LOCK_CREATE_CREATED \<Longrightarrow> ?same"
    "code = LOCK_CREATE_CREATED \<Longrightarrow> lookup_lock l' (drop cur pth) = Some (new_Lock (last pth))"
    "granted \<pi> l' = granted \<pi> l" "node l' = node l" by auto
qed

text \<open>The public operation, for a path that starts at the lock itself.\<close>

lemma create_not_held_correct:
  assumes "create_not_held l (Some p) (name_of l # ns) = Inr (l', code)"
  shows "code = (if ns = [] then
      if locker_X (node l) = Some p then LOCK_CREATE_EXISTS else LOCK_CREATE_PARENT_NOT_HELD
      else create_outcome l p ns False) \<and>
    (code \<noteq> LOCK_CREATE_CREATED \<longrightarrow> l' = l) \<and>
    (code = LOCK_CREATE_CREATED \<longrightarrow> lookup_lock l' ns = Some (new_Lock (last ns)))"
proof (cases ns)
    case Nil
    with assms show ?thesis
      by (cases "locker_X (node l) = Some p") (simp_all add: create_not_held_def Let_def)
  next
    case (Cons nm ms)
    then have at: "create_not_held_at l p (name_of l # ns) 1 (length ns) (locker_X (node l) = Some p) =
        Inr (l', code)" "1 \<le> length ns"
      using assms by (simp_all add: create_not_held_def Let_def)
    have "create_outcome l p ns (locker_X (node l) = Some p) = create_outcome l p ns False"
      by (simp add: Cons create_outcome_def)
    with create_not_held_at_correct(1-3)[OF _ at(2,1)] Cons show ?thesis by simp
qed

lemma create_not_held_granted:
  assumes "create_not_held l po pth = Inr (l', code)"
  shows "granted \<pi> l' = granted \<pi> l"
  using assms create_not_held_at_correct(4)[of "length pth - 1" pth 1 l]
  by (auto simp: create_not_held_def Let_def split: if_splits option.splits)

end
