(* ===== verification/Lock_Properties.thy ===== *)
theory Lock_Properties
  imports Lock_Queues Lock_Creation
begin

text \<open>
  The properties of the lock tree (\<open>src/src/server/Lock.cpp\<close>), each with a run on a small
  tree that shows its hypotheses can hold.
\<close>

definition example_node :: lock_node where
  "example_node = (new_node ''a'')\<lparr>locker_X := Some 1\<rparr>"

definition example_tree :: lock where
  "example_tree = Lock example_node []"

definition example_request :: lock_request where
  "example_request = Lock_Request_create LOCK_REQUEST_MODE_S 2 [''a''] False"

definition example_waiting :: lock where
  "example_waiting = Lock (example_node\<lparr>lock_requests := [example_request]\<rparr>) []"

lemma example_inv:
  "lock_inv [''a''] example_tree" "lock_inv [''a''] example_waiting" "queue_ok [''a''] example_request"
  by (auto simp: lock_inv.simps example_tree_def example_waiting_def example_node_def example_request_def
      new_node_def node_inv_def compatible_def holders_def intents_def queue_ok_def Lock_Request_create_def)

lemma example_runs:
  "acquire example_tree example_request True =
     Inr (Lock (example_node\<lparr>lock_requests := [example_request\<lparr>acquire_status := LOCK_ACQUIRE_QUEUED\<rparr>]\<rparr>) [],
          example_request\<lparr>acquire_status := LOCK_ACQUIRE_QUEUED\<rparr>, LOCK_ACQUIRE_QUEUED)"
  "release example_waiting 1 LOCK_REQUEST_MODE_X [''a''] 0 0 =
     Inr (Lock ((new_node ''a'')\<lparr>lockers_S := {#2#}\<rparr>) [], LOCK_RELEASE_SUCCESS, [example_request])"
  "regrant (Lock ((new_node ''a'')\<lparr>locker_Splus := Some 1, lock_requests := [example_request]\<rparr>) []) =
     Inr (Lock ((new_node ''a'')\<lparr>locker_Splus := Some 1, lockers_S := {#2#}\<rparr>) [], [example_request])"
  "regrant example_waiting = Inr (Lock (example_node\<lparr>lock_requests :=
     [example_request\<lparr>acquire_status := LOCK_ACQUIRE_QUEUED\<rparr>]\<rparr>) [], [])"
  "acquire (new_Lock ''a'') (Lock_Request_create LOCK_REQUEST_MODE_S 2 [''a'', ''b''] False) True =
     Inr (new_Lock ''a'', (Lock_Request_create LOCK_REQUEST_MODE_S 2 [''a'', ''b''] False)
       \<lparr>acquire_status := LOCK_ACQUIRE_NON_EXISTENT\<rparr>, LOCK_ACQUIRE_NON_EXISTENT)"
  "create_not_held example_tree (Some 1) [''a'', ''b''] =
     Inr (Lock example_node [new_Lock ''b''], LOCK_CREATE_CREATED)"
  by code_simp+

text \<open>
  C13: acquiring refines the abstract lock table. \<open>Lock::acquire\<close> keeps the invariant of the
  tree; the grants grow by exactly the requested one when it answers \<open>LOCK_ACQUIRE_ACQUIRED\<close>
  and are unchanged otherwise; the waiting requests grow by exactly this request when it answers
  \<open>LOCK_ACQUIRE_QUEUED\<close> and the request was inserted in a queue.
\<close>

theorem acquire_refines:
  assumes "acquire l r ins = Inr (l', r', ret)" "lock_inv \<pi> l" "queue_ok \<pi> r"
  shows "lock_inv \<pi> l' \<and>
    granted \<pi> l' = granted \<pi> l + (if ret = LOCK_ACQUIRE_ACQUIRED then {#request_grant r#} else {#}) \<and>
    pending l' = pending l +
      (if ret = LOCK_ACQUIRE_QUEUED \<and> (ins \<or> current_level r < current_level r')
       then {#request_grant r#} else {#})"
  using acquire_inv[OF assms] acquire_granted_eq[OF assms(1,3)] acquire_pending_eq[OF assms(1)] by simp

theorem acquire_refines_witness:
  "pending (Lock (example_node\<lparr>lock_requests := [example_request\<lparr>acquire_status := LOCK_ACQUIRE_QUEUED\<rparr>]\<rparr>) []) =
     pending example_tree + {#([''a''], LOCK_REQUEST_MODE_S, 2)#}"
  using acquire_refines[OF example_runs(1) example_inv(1,3)]
  by (simp add: request_grant_def example_request_def Lock_Request_create_def)

text \<open>
  C14: releasing refines the abstract lock table. \<open>Lock::release\<close> keeps the invariant,
  takes away exactly the named grant, if it is there, and adds the grants of the requests it
  answers; every waiting request is still waiting, or answered, or it is the single request of
  the same process and mode that a release of a lock not held withdraws.
\<close>

theorem release_refines:
  assumes "release l p m pth 0 (length pth - 1) = Inr (l', code, ans)" "lock_inv [pth ! 0] l" "pth \<noteq> []"
  shows "lock_inv [pth ! 0] l' \<and>
    granted [pth ! 0] l' = granted [pth ! 0] l - {#(pth, m, p)#} + answered_grants ans \<and>
    (code = LOCK_RELEASE_NOT_HELD \<longrightarrow> (pth, m, p) \<notin># granted [pth ! 0] l) \<and>
    (\<exists>C. pending l = pending l' + mset (map request_grant ans) + C \<and>
      (C = {#} \<or> (\<exists>q. C = {#(q, m, p)#}) \<and> (pth, m, p) \<notin># granted [pth ! 0] l))"
proof -
  have \<pi>: "[pth ! 0] = take (0 + 1) pth" and lv: "length pth - 1 + 1 = length pth"
    using assms(3) by (cases pth; auto)+
  show ?thesis
    using release_inv[OF assms(1,2)] release_granted_eq[OF assms(1,2) \<pi> lv] release_pending_eq[OF assms(1,2) \<pi> lv]
    by auto
qed

theorem release_refines_witness:
  "granted [''a''] (Lock ((new_node ''a'')\<lparr>lockers_S := {#2#}\<rparr>) []) =
     granted [''a''] example_waiting - {#([''a''], LOCK_REQUEST_MODE_X, 1)#} + answered_grants [example_request]"
  using release_refines[of example_waiting 1 LOCK_REQUEST_MODE_X "[''a'']"] example_runs(2) example_inv(2)
  by simp

text \<open>
  No undefined behaviour in the lock tree. With the invariant, neither \<open>acquire\<close> nor
  \<open>release\<close> indexes a path past its end or erases the \<open>end()\<close> iterator; both return.
\<close>

theorem lock_operations_defined:
  assumes "lock_inv [pth ! 0] l" "pth \<noteq> []"
  shows "(\<exists>l' r' ret. acquire l (Lock_Request_create m p pth create) True = Inr (l', r', ret)) \<and>
    (\<exists>l' code ans. release l p m pth 0 (length pth - 1) = Inr (l', code, ans)) \<and>
    (\<exists>l' code. create_not_held l po pth = Inr (l', code))"
proof -
  have "\<exists>l' r' ret. acquire l (Lock_Request_create m p pth create) True = Inr (l', r', ret)"
    using assms(2) by (intro acquire_defined) (simp_all add: Lock_Request_create_def)
  moreover have "\<exists>l' code ans. release l p m pth 0 (length pth - 1) = Inr (l', code, ans)"
    using assms by (intro release_defined) auto
  ultimately show ?thesis using create_not_held_defined[OF assms(2)] by blast
qed

theorem lock_operations_defined_witness:
  "\<exists>l' code ans. release example_tree 1 LOCK_REQUEST_MODE_X [''a''] 0 0 = Inr (l', code, ans)"
  using lock_operations_defined[of "[''a'']" example_tree LOCK_REQUEST_MODE_X 1] example_inv(1) by simp

text \<open>
  A failed acquire leaves no trace. When the lock does not exist and is not to be created,
  \<open>acquire\<close> gives back every intent lock it took on the way: the tree is unchanged.
\<close>

theorem acquire_failed_no_trace:
  assumes "acquire l r ins = Inr (l', r', LOCK_ACQUIRE_NON_EXISTENT)"
  shows "l' = l"
  using acquire_non_existent[OF assms] by simp

theorem acquire_failed_no_trace_witness:
  "\<exists>l' r'. acquire (new_Lock ''a'') (Lock_Request_create LOCK_REQUEST_MODE_S 2 [''a'', ''b''] False) True =
     Inr (l', r', LOCK_ACQUIRE_NON_EXISTENT) \<and> l' = new_Lock ''a''"
  using acquire_failed_no_trace example_runs(5) by blast

text \<open>
  The grant loop is first come, first served and complete. What \<open>release\<close> leaves in a
  queue is an end piece of the queue, and the request now at its front is blocked.
\<close>

theorem regrant_in_order:
  assumes "regrant l = Inr (l', ans)"
  shows "suffix (map request_grant (lock_requests (node l'))) (map request_grant (lock_requests (node l))) \<and>
    (lock_requests (node l') \<noteq> [] \<longrightarrow> blocked l' (hd (lock_requests (node l'))))"
  using regrant_fifo[OF assms] regrant_front_blocked[OF assms] by (cases "lock_requests (node l')") auto

theorem regrant_in_order_witness:
  "suffix [([''a''], LOCK_REQUEST_MODE_S, 2)] [([''a''], LOCK_REQUEST_MODE_S, 2 :: proc)]"
  using regrant_in_order[OF example_runs(4)]
  by (simp add: example_waiting_def request_grant_def example_request_def Lock_Request_create_def)

text \<open>
  C16: creating a lock without holding it, for a path of at least two components that begins at the
  root lock. When \<open>create_not_held\<close> returns, its answer is determined by whether the process holds an
  X lock on the way and whether the lock exists; the tree changes only when the lock is created, as
  a new lock at the path, and no lock is granted to anyone.
\<close>

theorem create_not_held_outcome:
  assumes "create_not_held l (Some p) (name_of l # nm # ns) = Inr (l', code)"
  shows "code = (if owned_on_path l p (nm # ns) then
      if lookup_lock l (nm # ns) = None then LOCK_CREATE_CREATED else LOCK_CREATE_EXISTS
      else LOCK_CREATE_PARENT_NOT_HELD) \<and>
    (code \<noteq> LOCK_CREATE_CREATED \<longrightarrow> l' = l) \<and>
    (code = LOCK_CREATE_CREATED \<longrightarrow> lookup_lock l' (nm # ns) = Some (new_Lock (last (nm # ns)))) \<and>
    granted \<pi> l' = granted \<pi> l"
  using create_not_held_correct[OF assms] create_not_held_granted[OF assms]
  unfolding create_outcome_def by auto

theorem create_not_held_outcome_witness:
  "lookup_lock (Lock example_node [new_Lock ''b'']) [''b''] = Some (new_Lock ''b'')"
proof -
  have "create_not_held example_tree (Some 1) (name_of example_tree # ''b'' # []) =
      Inr (Lock example_node [new_Lock ''b''], LOCK_CREATE_CREATED)"
    using example_runs(6) by (simp add: example_tree_def example_node_def new_node_def)
  from create_not_held_outcome[OF this, of "[]"] show ?thesis by (simp del: lookup_lock.simps)
qed

text \<open>
  Destroying a lock keeps the invariant of the tree that remains, whatever it answers.
\<close>

theorem destroy_keeps_inv:
  assumes "destroy l p pth cur lv = Inr (l', code, freed)" "lock_inv \<pi> l"
  shows "lock_inv \<pi> l'"
  using destroy_inv[OF assms] by simp

theorem destroy_keeps_inv_witness: "lock_inv [''a''] (new_Lock ''a'')"
proof -
  have "destroy (new_Lock ''a'') 1 [''a'', ''b''] 0 1 = Inr (new_Lock ''a'', LOCK_DESTROY_NON_EXISTENT, None)"
    by code_simp
  from destroy_keeps_inv[OF this lock_inv_new] show ?thesis .
qed

end
