(* ===== verification/Ordered_Containers.thy ===== *)
theory Ordered_Containers
  imports Tclm_Prelude
begin

text \<open>
  \<open>std::map\<close> and \<open>std::set\<close> iterate in key order, and some of the modelled code
  depends on it. A map is modelled as an association list kept in strictly ascending key order,
  a set as a strictly ascending list. The locale \<open>dictionary\<close> states what the clients of
  a map rely on; it is interpreted on the association lists.
\<close>

subsection \<open>The dictionary interface\<close>

locale dictionary =
  fixes get :: "'m \<Rightarrow> 'k \<Rightarrow> 'v option"
    and put :: "'k \<Rightarrow> 'v \<Rightarrow> 'm \<Rightarrow> 'm"
    and del :: "'k \<Rightarrow> 'm \<Rightarrow> 'm"
    and keys :: "'m \<Rightarrow> 'k list"
    and ordered :: "'m \<Rightarrow> bool"
  assumes get_put: "get (put k v m) = (get m)(k \<mapsto> v)"
    and get_del: "get (del k m) = (get m)(k := None)"
    and keys_get: "set (keys m) = dom (get m)"
    and ordered_put: "ordered m \<Longrightarrow> ordered (put k v m)"
    and ordered_del: "ordered m \<Longrightarrow> ordered (del k m)"
begin

lemma put_same: "get (put k v m) k = Some v"
  by (simp add: get_put)

lemma put_other: "k' \<noteq> k \<Longrightarrow> get (put k v m) k' = get m k'"
  by (simp add: get_put)

lemma del_same: "get (del k m) k = None"
  by (simp add: get_del)

lemma del_other: "k' \<noteq> k \<Longrightarrow> get (del k m) k' = get m k'"
  by (simp add: get_del)

lemma keys_put: "set (keys (put k v m)) = insert k (set (keys m))"
  by (simp add: keys_get get_put)

lemma keys_del: "set (keys (del k m)) = set (keys m) - {k}"
  by (simp add: keys_get get_del)

text \<open>A property of every stored value survives an update by a value that has it.\<close>

lemma put_all:
  assumes "\<And>k v. get m k = Some v \<Longrightarrow> P k v" "P k v" "get (put k v m) k' = Some v'"
  shows "P k' v'"
  using assms by (cases "k' = k") (auto simp: get_put)

lemma del_all:
  assumes "\<And>k v. get m k = Some v \<Longrightarrow> P k v" "get (del k m) k' = Some v'"
  shows "P k' v'"
  using assms by (cases "k' = k") (auto simp: get_del)

end

subsection \<open>Sorted association lists\<close>

fun smap_put :: "'k::linorder \<Rightarrow> 'v \<Rightarrow> ('k \<times> 'v) list \<Rightarrow> ('k \<times> 'v) list" where
  "smap_put k v [] = [(k, v)]"
| "smap_put k v ((k', v') # m) =
     (if k = k' then (k, v) # m
      else if k < k' then (k, v) # (k', v') # m
      else (k', v') # smap_put k v m)"

definition smap_del :: "'k::linorder \<Rightarrow> ('k \<times> 'v) list \<Rightarrow> ('k \<times> 'v) list" where
  "smap_del k m = filter (\<lambda>(k', v). k' \<noteq> k) m"

definition smap_keys :: "('k \<times> 'v) list \<Rightarrow> 'k list" where
  "smap_keys m = map fst m"

definition smap_ordered :: "('k::linorder \<times> 'v) list \<Rightarrow> bool" where
  "smap_ordered m \<longleftrightarrow> sorted_wrt (<) (map fst m)"

lemma map_of_smap_put: "map_of (smap_put k v m) = (map_of m)(k \<mapsto> v)"
  by (induction k v m rule: smap_put.induct) (auto simp: fun_eq_iff)

lemma set_keys_smap_put: "fst ` set (smap_put k v m) = insert k (fst ` set m)"
  by (induction k v m rule: smap_put.induct) auto

lemma map_of_smap_del: "map_of (smap_del k m) = (map_of m)(k := None)"
  by (induction m) (auto simp: smap_del_def fun_eq_iff)

lemma smap_ordered_put: "smap_ordered m \<Longrightarrow> smap_ordered (smap_put k v m)"
  by (induction k v m rule: smap_put.induct) (auto simp: smap_ordered_def set_keys_smap_put)

lemma smap_ordered_del: "smap_ordered m \<Longrightarrow> smap_ordered (smap_del k m)"
  by (induction m) (auto simp: smap_ordered_def smap_del_def)

interpretation smap: dictionary
  "map_of :: ('k::linorder \<times> 'v) list \<Rightarrow> 'k \<Rightarrow> 'v option" smap_put smap_del smap_keys smap_ordered
  by unfold_locales
    (auto simp: map_of_smap_put map_of_smap_del smap_keys_def dom_map_of_conv_image_fst
      intro: smap_ordered_put smap_ordered_del)

lemma smap_ordered_distinct: "smap_ordered m \<Longrightarrow> distinct (map fst m)"
  unfolding smap_ordered_def strict_sorted_iff by simp

subsection \<open>Sorted lists as sets\<close>

definition sset_insert :: "'a::linorder \<Rightarrow> 'a list \<Rightarrow> 'a list" where
  "sset_insert x xs = insort_insert x xs"

definition sset_erase :: "'a::linorder \<Rightarrow> 'a list \<Rightarrow> 'a list" where
  "sset_erase x xs = remove1 x xs"

definition sset_ordered :: "'a::linorder list \<Rightarrow> bool" where
  "sset_ordered xs \<longleftrightarrow> sorted xs \<and> distinct xs"

lemma set_sset_insert [simp]: "set (sset_insert x xs) = insert x (set xs)"
  by (simp add: sset_insert_def set_insort_insert)

lemma set_sset_erase [simp]: "sset_ordered xs \<Longrightarrow> set (sset_erase x xs) = set xs - {x}"
  by (simp add: sset_erase_def sset_ordered_def)

lemma sset_ordered_insert [simp]: "sset_ordered xs \<Longrightarrow> sset_ordered (sset_insert x xs)"
  by (simp add: sset_insert_def sset_ordered_def sorted_insort_insert distinct_insort_insert)

lemma sset_ordered_erase [simp]: "sset_ordered xs \<Longrightarrow> sset_ordered (sset_erase x xs)"
  by (simp add: sset_erase_def sset_ordered_def sorted_remove1)

lemma sset_ordered_Nil [simp]: "sset_ordered []"
  by (simp add: sset_ordered_def)

end
