(* ===== verification/Server_Process.thy ===== *)
theory Server_Process
  imports Messages Ordered_Containers
begin

text \<open>
  The client processes the server knows (\<open>src/src/server/Process.cpp\<close>). A process keeps
  the set of the locks it holds or waits for, as pairs of the path string the client sent and the
  mode, and the connection it was last seen on. The registry of weak pointers to its requests
  (\<open>add_lock_request\<close>, \<open>remove_lock_request\<close>) holds exactly the requests of the
  process that are alive, that is, those in a queue of the lock forest and those that were
  answered and not yet dropped; it is not stored a second time, and what the destructor does with
  it is \<open>mark_destroyed\<close> of the theory \<open>Lock_Forest\<close> and \<open>set_requester_destroyed\<close>.
\<close>

type_synonym conn = nat

record process =
  proc_id :: proc
  held_locks :: "(string \<times> lock_mode) list"
  tcp_conn :: "conn option"

definition Process_new :: "proc \<Rightarrow> process" where
  "Process_new i = \<lparr>proc_id = i, held_locks = [], tcp_conn = None\<rparr>"

definition get_id :: "process \<Rightarrow> proc" where
  "get_id p = proc_id p"

definition get_tcp_conn :: "process \<Rightarrow> conn option" where
  "get_tcp_conn p = tcp_conn p"

definition update_tcp_conn :: "conn option \<Rightarrow> process \<Rightarrow> process" where
  "update_tcp_conn c p = p\<lparr>tcp_conn := c\<rparr>"

definition add_held_lock :: "string \<Rightarrow> lock_mode \<Rightarrow> process \<Rightarrow> process" where
  "add_held_lock path m p = p\<lparr>held_locks := sset_insert (path, m) (held_locks p)\<rparr>"

definition remove_held_lock :: "string \<Rightarrow> lock_mode \<Rightarrow> process \<Rightarrow> process" where
  "remove_held_lock path m p = p\<lparr>held_locks := sset_erase (path, m) (held_locks p)\<rparr>"

text \<open>\<open>std::set::size\<close> truncated to \<open>uint32_t\<close>.\<close>

definition get_lock_count :: "process \<Rightarrow> u32" where
  "get_lock_count p = of_nat (length (held_locks p))"

definition get_held_locks :: "process \<Rightarrow> (string \<times> lock_mode) list" where
  "get_held_locks p = held_locks p"

subsection \<open>The set of held locks\<close>

definition process_inv :: "process \<Rightarrow> bool" where
  "process_inv p \<longleftrightarrow> sset_ordered (held_locks p)"

lemma process_inv_new [simp]: "process_inv (Process_new i)"
  by (simp add: process_inv_def Process_new_def)

lemma process_inv_ops [simp]:
  "process_inv p \<Longrightarrow> process_inv (add_held_lock path m p)"
  "process_inv p \<Longrightarrow> process_inv (remove_held_lock path m p)"
  "process_inv (update_tcp_conn c p) = process_inv p"
  by (simp_all add: process_inv_def add_held_lock_def remove_held_lock_def update_tcp_conn_def)

lemma proc_id_ops [simp]:
  "proc_id (Process_new i) = i"
  "proc_id (add_held_lock path m p) = proc_id p"
  "proc_id (remove_held_lock path m p) = proc_id p"
  "proc_id (update_tcp_conn c p) = proc_id p"
  by (simp_all add: Process_new_def add_held_lock_def remove_held_lock_def update_tcp_conn_def)

lemma held_locks_ops [simp]:
  "held_locks (Process_new i) = []"
  "set (held_locks (add_held_lock path m p)) = insert (path, m) (set (held_locks p))"
  "process_inv p \<Longrightarrow> set (held_locks (remove_held_lock path m p)) = set (held_locks p) - {(path, m)}"
  "held_locks (update_tcp_conn c p) = held_locks p"
  by (simp_all add: Process_new_def add_held_lock_def remove_held_lock_def update_tcp_conn_def
      process_inv_def)

lemma get_lock_count_zero:
  assumes "length (held_locks p) < 2 ^ 32"
  shows "get_lock_count p = 0 \<longleftrightarrow> held_locks p = []"
proof -
  have "unat (get_lock_count p) = length (held_locks p)"
    using assms by (simp add: get_lock_count_def unat_of_nat take_bit_nat_eq_self)
  then show ?thesis by (metis length_0_conv unat_eq_zero unsigned_0)
qed

end
