(* ===== verification/Lock_Forest.thy ===== *)
theory Lock_Forest
  imports Lock_Refinement Server_Process
begin

text \<open>
  The forest of lock trees (\<open>src/src/server/Lock_Forest.cpp\<close>): the map from the first
  component of a path to the root lock of that name, the translation of path strings to
  component vectors, and the operations of the forest, which also keep the held-lock set of the
  process up to date.
\<close>

subsection \<open>Paths\<close>

text \<open>\<open>std::string::find(c, pos)\<close> and \<open>substr(pos, n)\<close>.\<close>

definition find_from :: "char \<Rightarrow> string \<Rightarrow> nat \<Rightarrow> nat option" where
  "find_from c s b = map_option ((+) b) (find_index (\<lambda>x. x = c) (drop b s))"

definition substr :: "string \<Rightarrow> nat \<Rightarrow> nat \<Rightarrow> string" where
  "substr s b n = take n (drop b s)"

lemma find_from_bounds: "find_from c s b = Some e \<Longrightarrow> b \<le> e \<and> e < length s"
  by (auto simp: find_from_def dest!: find_index_length)

function split_from :: "string \<Rightarrow> nat \<Rightarrow> string list" where
  "split_from s cbegin =
     (case find_from CHR ''.'' s cbegin of
        None \<Rightarrow> [drop cbegin s]
      | Some cend \<Rightarrow>
          if cbegin < cend then substr s cbegin (cend - cbegin) # split_from s (cend + 1)
          else split_from s (cend + 1))"
  by pat_completeness auto
termination
  by (relation "measure (\<lambda>(s, b). length s - b)") (auto dest!: find_from_bounds)

declare split_from.simps [simp del]

definition split_path :: "string \<Rightarrow> string list" where
  "split_path path = split_from path 0"

lemma split_from_nonempty: "split_from s b \<noteq> []"
  by (induction s b rule: split_from.induct) (subst split_from.simps, auto split: option.splits)

lemma split_path_nonempty [simp]: "split_path s \<noteq> []"
  by (simp add: split_path_def split_from_nonempty)

lemma split_from_length: "b \<le> length s \<Longrightarrow> length (split_from s b) \<le> length s - b + 1"
proof (induction s b rule: split_from.induct)
  case (1 s b)
  show ?case
  proof (cases "find_from CHR ''.'' s b")
    case None
    then show ?thesis by (subst split_from.simps) simp
  next
    case (Some e)
    note e = find_from_bounds[OF Some]
    have "length (split_from s (e + 1)) \<le> length s - (e + 1) + 1"
      using "1.IH"[OF Some] e by (cases "b < e") simp_all
    with e Some show ?thesis by (subst split_from.simps) auto
  qed
qed

lemma split_path_length: "length (split_path s) \<le> length s + 1"
  using split_from_length[of 0 s] by (simp add: split_path_def)

subsection \<open>The forest\<close>

record lock_forest =
  roots :: "(string \<times> lock) list"

definition forest_new :: lock_forest where
  "forest_new = \<lparr>roots = []\<rparr>"

definition set_root :: "string \<Rightarrow> lock \<Rightarrow> lock_forest \<Rightarrow> lock_forest" where
  "set_root k l f = f\<lparr>roots := smap_put k l (roots f)\<rparr>"

definition forest_create ::
    "lock_forest \<Rightarrow> process \<Rightarrow> string \<Rightarrow> bool \<Rightarrow> fault + lock_forest \<times> process \<times> create_code" where
  "forest_create f p path_str acquire_X =
     (let path = split_path path_str;
          req = Lock_Request_create LOCK_REQUEST_MODE_X (proc_id p) path True;
          i_root = map_of (roots f) (path ! 0)
      in if i_root = None \<and> \<not> acquire_X then Inr (f, p, LOCK_CREATE_PARENT_NOT_HELD)
         else
           let root = (case i_root of Some l \<Rightarrow> l | None \<Rightarrow> new_Lock (path ! 0));
               req = (case i_root of Some l \<Rightarrow> req | None \<Rightarrow> req\<lparr>lock_created := True\<rparr>)
           in if acquire_X then
                (case acquire root req True of
                   Inl e \<Rightarrow> Inl e
                 | Inr (root', req', ret) \<Rightarrow>
                     let f' = set_root (path ! 0) root' f
                     in (case ret of
                           LOCK_ACQUIRE_ACQUIRED \<Rightarrow>
                             Inr (f', add_held_lock path_str LOCK_REQUEST_MODE_X p,
                                  if lock_created req' then LOCK_CREATE_CREATED
                                  else LOCK_CREATE_EXISTS)
                         | LOCK_ACQUIRE_QUEUED \<Rightarrow>
                             Inr (f', add_held_lock path_str LOCK_REQUEST_MODE_X p,
                                  LOCK_CREATE_QUEUED)
                         | LOCK_ACQUIRE_NON_EXISTENT \<Rightarrow> Inr (f', p, LOCK_CREATE_EXISTS)))
              else
                (case create_not_held root (Some (proc_id p)) path of
                   Inl e \<Rightarrow> Inl e
                 | Inr (root', code) \<Rightarrow> Inr (set_root (path ! 0) root' f, p, code)))"

definition forest_acquire ::
    "lock_forest \<Rightarrow> process \<Rightarrow> string \<Rightarrow> lock_mode \<Rightarrow> fault + lock_forest \<times> process \<times> acquire_code" where
  "forest_acquire f p path_str m =
     (let path = split_path path_str
      in case map_of (roots f) (path ! 0) of
           None \<Rightarrow> Inr (f, p, LOCK_ACQUIRE_NON_EXISTENT)
         | Some root \<Rightarrow>
             (case acquire root (Lock_Request_create m (proc_id p) path False) True of
                Inl e \<Rightarrow> Inl e
              | Inr (root', req', ret) \<Rightarrow>
                  Inr (set_root (path ! 0) root' f,
                       (case ret of
                          LOCK_ACQUIRE_ACQUIRED \<Rightarrow> add_held_lock path_str m p
                        | LOCK_ACQUIRE_QUEUED \<Rightarrow> add_held_lock path_str m p
                        | LOCK_ACQUIRE_NON_EXISTENT \<Rightarrow> p),
                       ret)))"

definition forest_release ::
    "lock_forest \<Rightarrow> process \<Rightarrow> string \<Rightarrow> lock_mode \<Rightarrow>
     fault + lock_forest \<times> process \<times> release_code \<times> lock_request list" where
  "forest_release f p path_str m =
     (let path = split_path path_str
      in case map_of (roots f) (path ! 0) of
           None \<Rightarrow> Inr (f, p, LOCK_RELEASE_NOT_HELD, [])
         | Some root \<Rightarrow>
             (case release_path root (proc_id p) m path of
                Inl e \<Rightarrow> Inl e
              | Inr (root', code, answered_requests) \<Rightarrow>
                  Inr (set_root (path ! 0) root' f,
                       if code = LOCK_RELEASE_SUCCESS then remove_held_lock path_str m p else p,
                       code, answered_requests)))"

text \<open>The calls to the callback, in order.\<close>

definition for_each_lock :: "lock_forest \<Rightarrow> (lock \<times> nat) list" where
  "for_each_lock f = concat (map (\<lambda>(k, r). (r, 0) # for_each_child r 1) (roots f))"

text \<open>What \<open>Process::~Process\<close> does to the requests that wait in the forest.\<close>

definition mark_request :: "proc \<Rightarrow> lock_request \<Rightarrow> lock_request" where
  "mark_request p r = (if requester r = p then set_requester_destroyed r else r)"

fun mark_lock :: "proc \<Rightarrow> lock \<Rightarrow> lock" where
  "mark_lock p (Lock n cs) =
     Lock (n\<lparr>lock_requests := map (mark_request p) (lock_requests n)\<rparr>) (map (mark_lock p) cs)"

definition mark_destroyed :: "proc \<Rightarrow> lock_forest \<Rightarrow> lock_forest" where
  "mark_destroyed p f = f\<lparr>roots := map (\<lambda>(k, l). (k, mark_lock p l)) (roots f)\<rparr>"

end
