(* ===== verification/Process_Map.thy ===== *)
theory Process_Map
  imports Lock_Forest
begin

text \<open>
  The table of client processes (\<open>src/src/server/Process_map.cpp\<close>): allocation of process
  ids, lookup, and \<open>try_destroy\<close>, which releases the locks of a process until its
  held-lock set is empty. That loop may run forever, so its result is an \<open>option\<close>.
\<close>

record process_map =
  Processes :: "(proc \<times> process) list"
  next_id :: u32

datatype backend_exception = too_many_processes_exception

datatype unregister_code =
  PROCESS_UNREGISTER_RESULT_SUCCESS | PROCESS_UNREGISTER_RESULT_HOLDS_LOCKS
| PROCESS_UNREGISTER_RESULT_NON_EXISTENT

definition Process_map_new :: process_map where
  "Process_map_new = \<lparr>Processes = [], next_id = 0\<rparr>"

text \<open>The calls to the callback, in order.\<close>

definition for_each_process :: "process_map \<Rightarrow> process list" where
  "for_each_process pm = map snd (Processes pm)"

definition Process_map_create :: "process_map \<Rightarrow> backend_exception + process_map \<times> proc" where
  "Process_map_create pm =
     (if map_of (Processes pm) (next_id pm) \<noteq> None then Inl too_many_processes_exception
      else
        let p = Process_new (next_id pm)
        in Inr (pm\<lparr>Processes := smap_put (next_id pm) p (Processes pm),
                   next_id := (if next_id pm = 0xFFFFFFFF then 0 else next_id pm + 1)\<rparr>,
                get_id p))"

definition find_process :: "process_map \<Rightarrow> proc \<Rightarrow> process option" where
  "find_process pm i = map_of (Processes pm) i"

text \<open>A process object that was changed through its pointer.\<close>

definition store_process :: "process \<Rightarrow> process_map \<Rightarrow> process_map" where
  "store_process p pm = pm\<lparr>Processes := smap_put (proc_id p) p (Processes pm)\<rparr>"

text \<open>The inner loop of \<open>try_destroy\<close>, over a copy of the held-lock set.\<close>

fun release_all ::
    "lock_forest \<Rightarrow> process \<Rightarrow> (string \<times> lock_mode) list \<Rightarrow>
     fault + lock_forest \<times> process \<times> lock_request list" where
  "release_all f p [] = Inr (f, p, [])"
| "release_all f p ((path, m) # locks) =
     (case forest_release f p path m of
        Inl e \<Rightarrow> Inl e
      | Inr (f', p', code, ans) \<Rightarrow>
          (case release_all f' p' locks of
             Inl e \<Rightarrow> Inl e
           | Inr (f'', p'', ans') \<Rightarrow> Inr (f'', p'', ans @ ans')))"

definition add_answered ::
    "lock_request list \<Rightarrow> fault + lock_forest \<times> process \<times> lock_request list \<Rightarrow>
     (fault + lock_forest \<times> process \<times> lock_request list) option" where
  "add_answered ans res =
     Some (case res of Inl e \<Rightarrow> Inl e | Inr (f, p, ans') \<Rightarrow> Inr (f, p, ans @ ans'))"

partial_function (option) release_loop ::
    "lock_forest \<Rightarrow> process \<Rightarrow> (fault + lock_forest \<times> process \<times> lock_request list) option" where
  "release_loop f p =
     (if 0 < get_lock_count p then
        (case release_all f p (get_held_locks p) of
           Inl e \<Rightarrow> Some (Inl e)
         | Inr (f', p', ans) \<Rightarrow> Option.bind (release_loop f' p') (add_answered ans))
      else Some (Inr (f, p, [])))"

declare release_loop.simps [code]

definition erase_process ::
    "lock_forest \<Rightarrow> process_map \<Rightarrow> process \<Rightarrow> lock_request list \<Rightarrow>
     lock_forest \<times> process_map \<times> unregister_code \<times> lock_request list" where
  "erase_process f pm p ans =
     (mark_destroyed (proc_id p) f, pm\<lparr>Processes := smap_del (get_id p) (Processes pm)\<rparr>,
      PROCESS_UNREGISTER_RESULT_SUCCESS, map (mark_request (proc_id p)) ans)"

definition try_destroy ::
    "lock_forest \<Rightarrow> process_map \<Rightarrow> proc \<Rightarrow> bool \<Rightarrow>
     (fault + lock_forest \<times> process_map \<times> unregister_code \<times> lock_request list) option" where
  "try_destroy f pm i release_locks =
     (case map_of (Processes pm) i of
        None \<Rightarrow> Some (Inr (f, pm, PROCESS_UNREGISTER_RESULT_NON_EXISTENT, []))
      | Some p \<Rightarrow>
          if release_locks then
            Option.bind (release_loop f p)
              (\<lambda>res. Some (case res of
                 Inl e \<Rightarrow> Inl e | Inr (f', p', ans) \<Rightarrow> Inr (erase_process f' pm p' ans)))
          else if 0 < get_lock_count p then
            Some (Inr (f, pm, PROCESS_UNREGISTER_RESULT_HOLDS_LOCKS, []))
          else Some (Inr (erase_process f pm p [])))"

subsection \<open>The release loop\<close>

lemma release_loop_done:
  "\<not> 0 < get_lock_count p \<Longrightarrow> release_loop f p = Some (Inr (f, p, []))"
  by (subst release_loop.simps) simp

lemma release_loop_step:
  "0 < get_lock_count p \<Longrightarrow> release_all f p (held_locks p) = Inr (f', p', ans) \<Longrightarrow>
   release_loop f p = Option.bind (release_loop f' p') (add_answered ans)"
  by (subst release_loop.simps) (simp add: get_held_locks_def)

lemma release_loop_fault:
  "0 < get_lock_count p \<Longrightarrow> release_all f p (held_locks p) = Inl e \<Longrightarrow> release_loop f p = Some (Inl e)"
  by (subst release_loop.simps) (simp add: get_held_locks_def)

text \<open>When a pass over the held locks changes nothing, the loop never ends.\<close>

lemma release_loop_diverges:
  assumes "0 < get_lock_count p" "release_all f p (held_locks p) = Inr (f, p, ans)"
  shows "release_loop f p = None"
proof -
  have "\<forall>ans. release_all f p (held_locks p) = Inr (f, p, ans) \<longrightarrow> \<not> 0 < get_lock_count p"
    if "release_loop f p = Some y" for f p y
  proof (rule release_loop.raw_induct[OF _ that])
    fix release_loop' :: "lock_forest \<Rightarrow> process \<Rightarrow>
      (fault + lock_forest \<times> process \<times> lock_request list) option" and f p y
    assume IH: "\<And>f p y. release_loop' f p = Some y \<Longrightarrow>
        \<forall>ans. release_all f p (held_locks p) = Inr (f, p, ans) \<longrightarrow> \<not> 0 < get_lock_count p"
      and body: "(if 0 < get_lock_count p then
          (case release_all f p (get_held_locks p) of
             Inl e \<Rightarrow> Some (Inl e)
           | Inr (f', p', ans) \<Rightarrow> Option.bind (release_loop' f' p') (add_answered ans))
        else Some (Inr (f, p, []))) = Some y"
    show "\<forall>ans. release_all f p (held_locks p) = Inr (f, p, ans) \<longrightarrow> \<not> 0 < get_lock_count p"
      using IH[of f p] body by (auto simp: get_held_locks_def bind_eq_Some_conv)
  qed
  with assms show ?thesis by (cases "release_loop f p") auto
qed

lemma release_all_append:
  "release_all f p (ls @ ls') =
     (case release_all f p ls of
        Inl e \<Rightarrow> Inl e
      | Inr (f', p', ans) \<Rightarrow>
          (case release_all f' p' ls' of
             Inl e \<Rightarrow> Inl e | Inr (f'', p'', ans') \<Rightarrow> Inr (f'', p'', ans @ ans')))"
  by (induction f p ls rule: release_all.induct) (auto split: sum.splits)

subsection \<open>Process ids\<close>

definition process_map_inv :: "process_map \<Rightarrow> bool" where
  "process_map_inv pm \<longleftrightarrow> smap_ordered (Processes pm) \<and>
     (\<forall>i p. map_of (Processes pm) i = Some p \<longrightarrow> proc_id p = i \<and> process_inv p)"

lemma process_map_inv_new [simp]: "process_map_inv Process_map_new"
  by (simp add: process_map_inv_def Process_map_new_def smap_ordered_def)

lemma process_map_inv_process:
  "process_map_inv pm \<Longrightarrow> map_of (Processes pm) i = Some p \<Longrightarrow> proc_id p = i"
  "process_map_inv pm \<Longrightarrow> map_of (Processes pm) i = Some p \<Longrightarrow> process_inv p"
  by (auto simp: process_map_inv_def)

lemma process_map_inv_store:
  "process_map_inv pm \<Longrightarrow> process_inv p \<Longrightarrow> process_map_inv (store_process p pm)"
  by (auto simp: process_map_inv_def store_process_def smap.ordered_put smap.get_put split: if_splits)

lemma process_map_inv_erase:
  "process_map_inv pm \<Longrightarrow> process_map_inv (pm\<lparr>Processes := smap_del i (Processes pm)\<rparr>)"
  by (auto simp: process_map_inv_def smap.ordered_del smap.get_del split: if_splits)

lemma process_map_inv_create:
  "process_map_inv pm \<Longrightarrow> Process_map_create pm = Inr (pm', i) \<Longrightarrow> process_map_inv pm'"
  by (auto simp: process_map_inv_def Process_map_create_def smap.ordered_put smap.get_put Let_def
      split: if_splits)

text \<open>
  Ids are handed out in the order of \<open>uint32_t\<close> counting, never twice at the same time, and
  the creation fails only when the next id is still in use.
\<close>

lemma next_id_wraps: "(if n = 0xFFFFFFFF then 0 else n + 1) = (n + 1 :: u32)"
  by (auto simp: word_eq_iff_unsigned)

lemma Process_map_create_spec:
  "Process_map_create pm =
     (case find_process pm (next_id pm) of
        Some p \<Rightarrow> Inl too_many_processes_exception
      | None \<Rightarrow>
          Inr (\<lparr>Processes = smap_put (next_id pm) (Process_new (next_id pm)) (Processes pm),
                next_id = next_id pm + 1\<rparr>, next_id pm))"
  by (cases pm) (simp add: Process_map_create_def find_process_def Let_def next_id_wraps get_id_def
      split: option.splits)

end
