(* ===== verification/Forest_Refinement.thy ===== *)
theory Forest_Refinement
  imports Lock_Forest Lock_Creation
begin

text \<open>
  The lock forest refines the abstract lock table: the invariant of the forest, the multiset of
  granted locks of the whole forest, and the effect of every operation of the forest on it. The
  operations never run into undefined behaviour when the invariant holds.
\<close>

subsection \<open>Invariant and abstraction\<close>

definition forest_inv :: "lock_forest \<Rightarrow> bool" where
  "forest_inv f \<longleftrightarrow> smap_ordered (roots f) \<and>
     (\<forall>k l. map_of (roots f) k = Some l \<longrightarrow> name_of l = k \<and> lock_inv [k] l)"

definition forest_granted :: "lock_forest \<Rightarrow> grant multiset" where
  "forest_granted f = (\<Sum>(k, l)\<leftarrow>roots f. granted [k] l)"

lemma forest_inv_new [simp]: "forest_inv forest_new"
  by (simp add: forest_inv_def forest_new_def smap_ordered_def)

lemma forest_granted_new [simp]: "forest_granted forest_new = {#}"
  by (simp add: forest_granted_def forest_new_def)

lemma forest_inv_root:
  "forest_inv f \<Longrightarrow> map_of (roots f) k = Some l \<Longrightarrow> lock_inv [k] l"
  "forest_inv f \<Longrightarrow> map_of (roots f) k = Some l \<Longrightarrow> name_of l = k"
  by (auto simp: forest_inv_def)

lemma forest_inv_set_root:
  assumes "forest_inv f" "lock_inv [k] l" "name_of l = k"
  shows "forest_inv (set_root k l f)"
  using assms by (auto simp: forest_inv_def set_root_def smap.ordered_put smap.get_put split: if_splits)

lemma sum_smap_put:
  fixes g :: "'k::linorder \<Rightarrow> 'v \<Rightarrow> 'b multiset"
  assumes "smap_ordered m"
  shows "(\<Sum>(k, v)\<leftarrow>smap_put k v m. g k v) + (case map_of m k of None \<Rightarrow> {#} | Some w \<Rightarrow> g k w) =
    (\<Sum>(k, v)\<leftarrow>m. g k v) + g k v"
  using assms
proof (induction k v m rule: smap_put.induct)
  case (1 k v)
  then show ?case by simp
next
  case (2 k v k' v' m)
  have "map_of m k = None" if "k < k'"
    using "2.prems" that by (force simp: smap_ordered_def map_of_eq_None_iff)
  with 2 show ?case by (auto simp: smap_ordered_def ac_simps)
qed

lemma forest_granted_set_root:
  assumes "forest_inv f"
  shows "forest_granted (set_root k l' f) +
      (case map_of (roots f) k of None \<Rightarrow> {#} | Some l \<Rightarrow> granted [k] l) =
    forest_granted f + granted [k] l'"
  using sum_smap_put[of "roots f" "\<lambda>k. granted [k]" k l'] assms
  by (simp add: forest_inv_def forest_granted_def set_root_def)

text \<open>The forest behaves like the children of one lock with the empty path.\<close>

theorem forest_conflict_free:
  assumes "forest_inv f"
  shows "conflict_free (forest_granted f)"
proof -
  have dist: "distinct (map fst (roots f))"
    using assms by (simp add: forest_inv_def smap_ordered_distinct)
  have root: "name_of l = k" "lock_inv [k] l" if "(k, l) \<in> set (roots f)" for k l
    using that assms map_of_is_SomeI[OF dist that] by (auto simp: forest_inv_def)
  have names: "map (name_of \<circ> snd) (roots f) = map fst (roots f)"
    using root by auto
  have "conflict_free (\<Sum>c\<leftarrow>map snd (roots f). granted ([] @ [name_of c]) c)"
    by (rule children_conflict_free)
      (use root in \<open>auto simp: names dist intro!: lock_inv_conflict_free\<close>)
  moreover have "(\<Sum>c\<leftarrow>map snd (roots f). granted ([] @ [name_of c]) c) = forest_granted f"
    unfolding forest_granted_def map_map using root
    by (intro arg_cong[where f = sum_list] map_cong) auto
  ultimately show ?thesis by simp
qed

subsection \<open>Requests made by the forest\<close>

lemma Lock_Request_create_sel [simp]:
  "req_mode (Lock_Request_create m p pth c) = m" "requester (Lock_Request_create m p pth c) = p"
  "req_path (Lock_Request_create m p pth c) = pth"
  "current_level (Lock_Request_create m p pth c) = 0"
  "req_level (Lock_Request_create m p pth c) = length pth - 1"
  "create_missing (Lock_Request_create m p pth c) = c"
  by (simp_all add: Lock_Request_create_def)

lemma queue_ok_create [simp]:
  "pth \<noteq> [] \<Longrightarrow> queue_ok [pth ! 0] (Lock_Request_create m p pth c)"
  by (cases pth) (auto simp: queue_ok_def)

lemma acquire_created_defined:
  "\<exists>l' r' ret. acquire l (Lock_Request_create m p (split_path s) c) True = Inr (l', r', ret)"
  "\<exists>l' r' ret. acquire l (Lock_Request_create m p (split_path s) c\<lparr>lock_created := b\<rparr>) True =
     Inr (l', r', ret)"
  by (rule acquire_defined; simp)+

lemma request_grant_create [simp]:
  "request_grant (Lock_Request_create m p pth c) = (pth, m, p)"
  "request_grant (r\<lparr>lock_created := b\<rparr>) = request_grant r"
  by (simp_all add: request_grant_def)

subsection \<open>The operations\<close>

text \<open>Replacing a root by the result of an operation on it.\<close>

lemma granted_replace_root:
  assumes "forest_inv f" "map_of (roots f) k = Some l" "granted [k] l' + A = granted [k] l + B"
  shows "forest_granted (set_root k l' f) + A = forest_granted f + B"
proof -
  have "forest_granted (set_root k l' f) + granted [k] l + A = forest_granted f + (granted [k] l' + A)"
    using forest_granted_set_root[OF assms(1), of k l'] assms(2) by (simp add: ac_simps)
  then show ?thesis unfolding assms(3) by (simp add: ac_simps)
qed

lemma granted_new_root:
  assumes "forest_inv f" "map_of (roots f) k = None"
  shows "forest_granted (set_root k l' f) = forest_granted f + granted [k] l'"
  using forest_granted_set_root[OF assms(1), of k l'] assms(2) by simp

theorem forest_acquire_correct:
  assumes "forest_inv f"
  shows "\<exists>f' p' ret. forest_acquire f p s m = Inr (f', p', ret) \<and> forest_inv f' \<and>
    proc_id p' = proc_id p \<and>
    forest_granted f' = forest_granted f +
      (if ret = LOCK_ACQUIRE_ACQUIRED then {#(split_path s, m, proc_id p)#} else {#})"
proof (cases "map_of (roots f) (split_path s ! 0)")
  case None
  with assms show ?thesis by (simp add: forest_acquire_def)
next
  case (Some root)
  let ?k = "split_path s ! 0" and ?r = "Lock_Request_create m (proc_id p) (split_path s) False"
  obtain root' r' ret where acq: "acquire root ?r True = Inr (root', r', ret)"
    using acquire_created_defined by blast
  have q: "queue_ok [?k] ?r" by simp
  note root = forest_inv_root[OF assms Some]
  have inv: "forest_inv (set_root ?k root' f)"
    using acquire_inv[OF acq root(1) q] acquire_name[OF acq] root(2)
    by (intro forest_inv_set_root[OF assms]) simp_all
  have "granted [?k] root' + {#} = granted [?k] root +
      (if ret = LOCK_ACQUIRE_ACQUIRED then {#(split_path s, m, proc_id p)#} else {#})"
    using acquire_granted_eq[OF acq q] by simp
  from granted_replace_root[OF assms Some this] inv Some acq show ?thesis
    by (auto simp: forest_acquire_def Let_def split: acquire_code.splits)
qed

text \<open>A grant belongs to the tree of the first component of its path.\<close>

lemma in_forest_granted:
  assumes "forest_inv f"
  shows "(\<pi>, m, p) \<in># forest_granted f \<longleftrightarrow>
    (\<exists>l. map_of (roots f) (\<pi> ! 0) = Some l \<and> (\<pi>, m, p) \<in># granted [\<pi> ! 0] l)"
proof -
  have dist: "distinct (map fst (roots f))"
    using assms by (simp add: forest_inv_def smap_ordered_distinct)
  have "\<pi> ! 0 = k" if "map_of (roots f) k = Some l" "(\<pi>, m, p) \<in># granted [k] l" for k l
    using granted_below[OF forest_inv_root(1)[OF assms that(1)] that(2)] by (auto simp: prefix_def)
  moreover have "(\<exists>(k, l) \<in> set (roots f). (\<pi>, m, p) \<in># granted [k] l) \<longleftrightarrow>
      (\<exists>k l. map_of (roots f) k = Some l \<and> (\<pi>, m, p) \<in># granted [k] l)"
    using map_of_eq_Some_iff[OF dist] by force
  ultimately show ?thesis
    unfolding forest_granted_def in_sum_list by (simp add: case_prod_beta) metis
qed

lemma release_path_defined:
  assumes "lock_inv [pth ! 0] l" "pth \<noteq> []"
  shows "\<exists>l' code ans. release_path l p m pth = Inr (l', code, ans)"
  unfolding release_path_def using assms by (intro release_defined) auto

lemma release_path_granted:
  assumes "release_path l p m pth = Inr (l', code, ans)" "lock_inv [pth ! 0] l" "pth \<noteq> []"
  shows "granted [pth ! 0] l' = granted [pth ! 0] l - {#(pth, m, p)#} + answered_grants ans"
    and "code = LOCK_RELEASE_NOT_HELD \<Longrightarrow> (pth, m, p) \<notin># granted [pth ! 0] l"
proof -
  have "[pth ! 0] = take (0 + 1) pth" using assms(3) by (cases pth) auto
  from release_granted_eq[OF assms(1)[unfolded release_path_def] assms(2) this] assms(3)
  show "granted [pth ! 0] l' = granted [pth ! 0] l - {#(pth, m, p)#} + answered_grants ans"
    and "code = LOCK_RELEASE_NOT_HELD \<Longrightarrow> (pth, m, p) \<notin># granted [pth ! 0] l" by auto
qed

theorem forest_release_correct:
  assumes "forest_inv f"
  shows "\<exists>f' p' code ans. forest_release f p s m = Inr (f', p', code, ans) \<and> forest_inv f' \<and>
    proc_id p' = proc_id p \<and>
    forest_granted f' = forest_granted f - {#(split_path s, m, proc_id p)#} + answered_grants ans \<and>
    (code = LOCK_RELEASE_NOT_HELD \<longrightarrow> (split_path s, m, proc_id p) \<notin># forest_granted f)"
proof (cases "map_of (roots f) (split_path s ! 0)")
  case None
  then have "(split_path s, m, proc_id p) \<notin># forest_granted f"
    by (simp add: in_forest_granted[OF assms])
  with assms None show ?thesis by (simp add: forest_release_def diff_single_trivial)
next
  case (Some root)
  let ?k = "split_path s ! 0" and ?g = "(split_path s, m, proc_id p)"
  note root = forest_inv_root[OF assms Some]
  obtain root' code ans where rel: "release_path root (proc_id p) m (split_path s) = Inr (root', code, ans)"
    using release_path_defined[OF root(1) split_path_nonempty] by blast
  note gr = release_path_granted[OF rel root(1)]
  have mem: "?g \<in># forest_granted f \<longleftrightarrow> ?g \<in># granted [?k] root"
    using Some by (simp add: in_forest_granted[OF assms])
  have inv: "forest_inv (set_root ?k root' f)"
    using rel root unfolding release_path_def
    by (intro forest_inv_set_root[OF assms]) (auto dest: release_inv release_name)
  have "forest_granted (set_root ?k root' f) = forest_granted f - {#?g#} + answered_grants ans"
  proof (cases "?g \<in># granted [?k] root")
    case True
    have "granted [?k] root' + {#?g#} = granted [?k] root + answered_grants ans"
      unfolding gr(1)[OF split_path_nonempty] using True by simp
    moreover from True mem obtain G where "forest_granted f = add_mset ?g G"
      by (meson multi_member_split)
    ultimately show ?thesis using granted_replace_root[OF assms Some, of root' "{#?g#}"] by simp
  next
    case False
    have "granted [?k] root' + {#} = granted [?k] root + answered_grants ans"
      unfolding gr(1)[OF split_path_nonempty] using False by (simp add: diff_single_trivial)
    from granted_replace_root[OF assms Some this] False mem show ?thesis
      by (simp add: diff_single_trivial)
  qed
  with inv Some rel gr(2) mem show ?thesis
    by (auto simp: forest_release_def Let_def)
qed

text \<open>
  \<open>create\<close> with \<open>acquire_X\<close> grants an X lock when the answer says the lock was
  created or existed; without it, no lock is granted.
\<close>

theorem forest_create_correct:
  assumes "forest_inv f"
  shows "\<exists>f' p' code. forest_create f p s x = Inr (f', p', code) \<and> forest_inv f' \<and>
    proc_id p' = proc_id p \<and> (x \<longrightarrow> code \<noteq> LOCK_CREATE_PARENT_NOT_HELD) \<and>
    forest_granted f' = forest_granted f +
      (if x \<and> code \<noteq> LOCK_CREATE_QUEUED then {#(split_path s, LOCK_REQUEST_MODE_X, proc_id p)#} else {#})"
proof -
  let ?k = "split_path s ! 0" and ?g = "(split_path s, LOCK_REQUEST_MODE_X, proc_id p)"
  let ?r = "Lock_Request_create LOCK_REQUEST_MODE_X (proc_id p) (split_path s) True"
  have acq: "\<exists>root' r' ret. acquire root (?r\<lparr>lock_created := b\<rparr>) True = Inr (root', r', ret) \<and>
      ret \<noteq> LOCK_ACQUIRE_NON_EXISTENT \<and> lock_inv [?k] root' \<and> name_of root' = ?k \<and>
      granted [?k] root' = granted [?k] root + (if ret = LOCK_ACQUIRE_ACQUIRED then {#?g#} else {#})"
    if root: "lock_inv [?k] root" "name_of root = ?k" for root b
  proof -
    let ?r = "?r\<lparr>lock_created := b\<rparr>"
    obtain root' r' ret where a: "acquire root ?r True = Inr (root', r', ret)"
      using acquire_created_defined(2) by blast
    have q: "queue_ok [?k] ?r" by simp
    show ?thesis using a acquire_inv[OF a root(1) q] acquire_name[OF a] root(2)
        acquire_granted_eq[OF a q] acquire_create[OF a] by simp
  qed
  show ?thesis
  proof (cases "map_of (roots f) ?k")
    case None
    show ?thesis
    proof (cases x)
      case False
      with None assms show ?thesis by (simp add: forest_create_def)
    next
      case True
      from acq[of "new_Lock ?k" True] obtain root' r' ret where
        a: "acquire (new_Lock ?k) (?r\<lparr>lock_created := True\<rparr>) True = Inr (root', r', ret)"
        and *: "ret \<noteq> LOCK_ACQUIRE_NON_EXISTENT" "lock_inv [?k] root'" "name_of root' = ?k"
          "granted [?k] root' = (if ret = LOCK_ACQUIRE_ACQUIRED then {#?g#} else {#})"
        by auto
      from granted_new_root[OF assms None, of root'] forest_inv_set_root[OF assms *(2,3)] * a None True
      show ?thesis by (cases ret) (auto simp: forest_create_def Let_def)
    qed
  next
    case (Some root)
    note root = forest_inv_root[OF assms Some]
    show ?thesis
    proof (cases x)
      case True
      from acq[OF root, of False] obtain root' r' ret where
        a: "acquire root ?r True = Inr (root', r', ret)"
        and *: "ret \<noteq> LOCK_ACQUIRE_NON_EXISTENT" "lock_inv [?k] root'" "name_of root' = ?k"
          "granted [?k] root' + {#} =
             granted [?k] root + (if ret = LOCK_ACQUIRE_ACQUIRED then {#?g#} else {#})"
        by (auto simp: Lock_Request_create_def)
      from granted_replace_root[OF assms Some *(4)] forest_inv_set_root[OF assms *(2,3)] * a Some True
      show ?thesis by (cases ret) (auto simp: forest_create_def Let_def)
    next
      case False
      obtain root' code where c: "create_not_held root (Some (proc_id p)) (split_path s) = Inr (root', code)"
        using create_not_held_defined[OF split_path_nonempty] by blast
      note inv = create_not_held_inv[OF c root(1)]
      have "granted [?k] root' + {#} = granted [?k] root + {#}"
        using create_not_held_granted[OF c] by simp
      from granted_replace_root[OF assms Some this] forest_inv_set_root[OF assms, of ?k root'] inv root(2)
        c Some False
      show ?thesis by (auto simp: forest_create_def Let_def)
    qed
  qed
qed

end
