(* ===== verification/Backend.thy ===== *)
theory Backend
  imports Process_Map Forest_Refinement Lock_Queues Transition_System
begin

text \<open>
  The backend (\<open>src/src/server/backend.cpp\<close>): one lock forest and one process table, and
  the operations the daemon calls. An operation looks the process up, works on the forest and
  writes the process object back; the result codes are those of
  \<open>backend_operation_defines.h\<close>.
\<close>

record backend =
  Forest :: lock_forest
  Process_table :: process_map

definition backend_new :: backend where
  "backend_new = \<lparr>Forest = forest_new, Process_table = Process_map_new\<rparr>"

definition register_process :: "backend \<Rightarrow> backend_exception + backend \<times> proc" where
  "register_process b =
     (case Process_map_create (Process_table b) of
        Inl e \<Rightarrow> Inl e
      | Inr (pm, i) \<Rightarrow> Inr (b\<lparr>Process_table := pm\<rparr>, i))"

definition unregister_process ::
    "backend \<Rightarrow> proc \<Rightarrow> (fault + backend \<times> unregister_code \<times> lock_request list) option" where
  "unregister_process b i =
     map_option (\<lambda>res. case res of
         Inl e \<Rightarrow> Inl e
       | Inr (f, pm, code, ans) \<Rightarrow> Inr (\<lparr>Forest = f, Process_table = pm\<rparr>, code, ans))
       (try_destroy (Forest b) (Process_table b) i True)"

definition create_lock ::
    "backend \<Rightarrow> proc \<Rightarrow> string \<Rightarrow> bool \<Rightarrow> fault + backend \<times> create_lock_result" where
  "create_lock b pid path acquire_X =
     (case find_process (Process_table b) pid of
        None \<Rightarrow> Inr (b, CREATE_LOCK_RESULT_NO_SUCH_PROCESS)
      | Some p \<Rightarrow>
          (case forest_create (Forest b) p path acquire_X of
             Inl e \<Rightarrow> Inl e
           | Inr (f, p', ret) \<Rightarrow>
               Inr (\<lparr>Forest = f, Process_table = store_process p' (Process_table b)\<rparr>,
                    (case ret of
                       LOCK_CREATE_CREATED \<Rightarrow> CREATE_LOCK_RESULT_CREATED
                     | LOCK_CREATE_QUEUED \<Rightarrow> CREATE_LOCK_RESULT_QUEUED
                     | LOCK_CREATE_EXISTS \<Rightarrow> CREATE_LOCK_RESULT_EXISTS
                     | LOCK_CREATE_PARENT_NOT_HELD \<Rightarrow> CREATE_LOCK_RESULT_PARENT_NOT_HELD))))"

definition acquire_lock :: "backend \<Rightarrow> proc \<Rightarrow> string \<Rightarrow> lock_mode \<Rightarrow> fault + backend \<times> u16" where
  "acquire_lock b pid path m =
     (case find_process (Process_table b) pid of
        None \<Rightarrow> Inr (b, ACQUIRE_LOCK_RESULT_NO_SUCH_PROCESS)
      | Some p \<Rightarrow>
          (case forest_acquire (Forest b) p path m of
             Inl e \<Rightarrow> Inl e
           | Inr (f, p', ret) \<Rightarrow>
               Inr (\<lparr>Forest = f, Process_table = store_process p' (Process_table b)\<rparr>,
                    (case ret of
                       LOCK_ACQUIRE_ACQUIRED \<Rightarrow> ACQUIRE_LOCK_RESULT_ACQUIRED
                     | LOCK_ACQUIRE_QUEUED \<Rightarrow> ACQUIRE_LOCK_RESULT_QUEUED
                     | LOCK_ACQUIRE_NON_EXISTENT \<Rightarrow> ACQUIRE_LOCK_RESULT_NO_SUCH_LOCK))))"

definition release_lock ::
    "backend \<Rightarrow> proc \<Rightarrow> string \<Rightarrow> lock_mode \<Rightarrow> fault + backend \<times> u16 \<times> lock_request list" where
  "release_lock b pid path m =
     (case find_process (Process_table b) pid of
        None \<Rightarrow> Inr (b, RELEASE_LOCK_RESULT_NO_SUCH_PROCESS, [])
      | Some p \<Rightarrow>
          (case forest_release (Forest b) p path m of
             Inl e \<Rightarrow> Inl e
           | Inr (f, p', code, ans) \<Rightarrow>
               Inr (\<lparr>Forest = f, Process_table = store_process p' (Process_table b)\<rparr>,
                    (case code of
                       LOCK_RELEASE_SUCCESS \<Rightarrow> RELEASE_LOCK_RESULT_RELEASED
                     | LOCK_RELEASE_NOT_HELD \<Rightarrow> RELEASE_LOCK_RESULT_NOT_HELD),
                    ans)))"

text \<open>\<open>daemon::update_pid_connection\<close>: remember the connection a process was seen on.\<close>

definition update_pid_connection :: "backend \<Rightarrow> proc \<Rightarrow> conn \<Rightarrow> backend" where
  "update_pid_connection b pid c =
     (case find_process (Process_table b) pid of
        None \<Rightarrow> b
      | Some p \<Rightarrow>
          b\<lparr>Process_table := store_process (update_tcp_conn (Some c) p) (Process_table b)\<rparr>)"

subsection \<open>Runs of the backend\<close>

inductive backend_step :: "backend \<Rightarrow> backend \<Rightarrow> bool" where
  step_register: "register_process b = Inr (b', i) \<Longrightarrow> backend_step b b'"
| step_unregister: "unregister_process b i = Some (Inr (b', code, ans)) \<Longrightarrow> backend_step b b'"
| step_create: "create_lock b i path x = Inr (b', res) \<Longrightarrow> backend_step b b'"
| step_acquire: "acquire_lock b i path m = Inr (b', status) \<Longrightarrow> backend_step b b'"
| step_release: "release_lock b i path m = Inr (b', status, ans) \<Longrightarrow> backend_step b b'"
| step_connection: "backend_step b (update_pid_connection b i c)"

abbreviation backend_reachable :: "backend \<Rightarrow> bool" where
  "backend_reachable \<equiv> reachable (\<lambda>b. b = backend_new) backend_step"

definition backend_inv :: "backend \<Rightarrow> bool" where
  "backend_inv b \<longleftrightarrow> forest_inv (Forest b) \<and> process_map_inv (Process_table b)"

lemma backend_inv_new [simp]: "backend_inv backend_new"
  by (simp add: backend_inv_def backend_new_def)

end
