(* ===== verification/Path_Names.thy ===== *)
theory Path_Names
  imports Lock_Forest
begin

text \<open>
  Path strings and component vectors. \<open>split_path\<close> scans with \<open>find\<close> and
  \<open>substr\<close>; it is compared with a reference definition that splits at every dot and
  drops the empty components except the last. \<open>join_path\<close> is the loop in
  \<open>daemon::notify_answered_requests\<close> that puts a path together again for the client.
\<close>

fun split_dots :: "string \<Rightarrow> string list" where
  "split_dots [] = [[]]"
| "split_dots (c # s) =
     (if c = CHR ''.'' then [] # split_dots s
      else (case split_dots s of w # ws \<Rightarrow> (c # w) # ws | [] \<Rightarrow> [[c]]))"

definition keep_components :: "string list \<Rightarrow> string list" where
  "keep_components ws = filter (\<lambda>w. w \<noteq> []) (butlast ws) @ [last ws]"

definition join_path :: "string list \<Rightarrow> string" where
  "join_path cs = foldl (\<lambda>path component. (if path \<noteq> [] then path @ ''.'' else path) @ component) [] cs"

lemma split_dots_nonempty [simp]: "split_dots s \<noteq> []"
  by (induction s) (auto split: list.splits)

lemma split_dots_plain: "CHR ''.'' \<notin> set s \<Longrightarrow> split_dots s = [s]"
  by (induction s) auto

lemma split_dots_append: "CHR ''.'' \<notin> set w \<Longrightarrow> split_dots (w @ CHR ''.'' # s) = w # split_dots s"
  by (induction w) auto

lemma find_from_None: "find_from c s b = None \<Longrightarrow> c \<notin> set (drop b s)"
  by (auto simp: find_from_def find_index_None_iff)

lemma find_from_Some:
  assumes "find_from c s b = Some e"
  shows "drop b s = substr s b (e - b) @ c # drop (e + 1) s" "c \<notin> set (substr s b (e - b))"
proof -
  obtain i where i: "find_index (\<lambda>x. x = c) (drop b s) = Some i" "e = b + i"
    using assms by (auto simp: find_from_def)
  note f = find_index_SomeD[OF i(1)]
  have "drop b s = take i (drop b s) @ drop b s ! i # drop (Suc i) (drop b s)"
    using f by (intro id_take_nth_drop) simp
  then show "drop b s = substr s b (e - b) @ c # drop (e + 1) s"
    using f i(2) by (simp add: substr_def ac_simps)
  show "c \<notin> set (substr s b (e - b))"
    using f i(2) by (auto simp: substr_def in_set_conv_nth)
qed

lemma split_from_eq: "split_from s b = keep_components (split_dots (drop b s))"
proof (induction s b rule: split_from.induct)
  case (1 s b)
  show ?case
  proof (cases "find_from CHR ''.'' s b")
    case None
    then show ?thesis
      by (subst split_from.simps) (simp add: split_dots_plain[OF find_from_None] keep_components_def)
  next
    case (Some e)
    note e = find_from_Some[OF Some] find_from_bounds[OF Some]
    have "substr s b (e - b) = [] \<longleftrightarrow> \<not> b < e" using e(3) by (auto simp: substr_def)
    moreover have "split_from s (e + 1) = keep_components (split_dots (drop (e + 1) s))"
      using "1.IH"[OF Some] by (cases "b < e") auto
    ultimately show ?thesis
      by (subst split_from.simps) (simp add: Some e(1) split_dots_append[OF e(2)] keep_components_def)
  qed
qed

lemma split_path_eq: "split_path s = keep_components (split_dots s)"
  by (simp add: split_path_def split_from_eq)

subsection \<open>Component vectors that name a lock\<close>

definition path_ok :: "string list \<Rightarrow> bool" where
  "path_ok cs \<longleftrightarrow> cs \<noteq> [] \<and> (\<forall>c \<in> set cs. CHR ''.'' \<notin> set c) \<and> (\<forall>c \<in> set (butlast cs). c \<noteq> [])"

lemma split_dots_no_dot: "w \<in> set (split_dots s) \<Longrightarrow> CHR ''.'' \<notin> set w"
  by (induction s arbitrary: w) (auto split: if_splits list.splits)

lemma split_path_ok: "path_ok (split_path s)"
  using split_dots_no_dot[of _ s]
  by (auto simp: path_ok_def split_path_eq keep_components_def butlast_append dest: in_set_butlastD)

fun dotted :: "string list \<Rightarrow> string" where
  "dotted [] = []"
| "dotted [c] = c"
| "dotted (c # d # cs) = c @ CHR ''.'' # dotted (d # cs)"

lemma foldl_join:
  assumes "acc \<noteq> []"
  shows "foldl (\<lambda>path component. (if path \<noteq> [] then path @ ''.'' else path) @ component) acc cs =
    acc @ concat (map ((#) CHR ''.'') cs)"
  using assms by (induction cs arbitrary: acc) auto

lemma dotted_Cons: "dotted (c # cs) = c @ concat (map ((#) CHR ''.'') cs)"
  by (induction cs arbitrary: c) auto

lemma join_path_dotted: "path_ok cs \<Longrightarrow> join_path cs = dotted cs"
  by (cases cs; cases "tl cs") (auto simp: join_path_def path_ok_def foldl_join dotted_Cons)

lemma split_dotted: "cs \<noteq> [] \<Longrightarrow> \<forall>c \<in> set cs. CHR ''.'' \<notin> set c \<Longrightarrow> split_dots (dotted cs) = cs"
  by (induction cs rule: dotted.induct) (simp_all add: split_dots_plain split_dots_append)

lemma keep_components_ok: "path_ok cs \<Longrightarrow> keep_components cs = cs"
  by (simp add: path_ok_def keep_components_def append_butlast_last_id)

lemma split_join: "path_ok cs \<Longrightarrow> split_path (join_path cs) = cs"
  by (simp add: join_path_dotted split_path_eq)
    (simp add: split_dotted keep_components_ok path_ok_def)

lemma dotted_split: "dotted (split_dots s) = s"
proof (induction s)
  case (Cons c s)
  then show ?case
    by (cases "split_dots s"; cases "tl (split_dots s)") auto
qed simp

text \<open>A string that is put together again unchanged has no empty component before its last.\<close>

definition canonical :: "string \<Rightarrow> bool" where
  "canonical s \<longleftrightarrow> (\<forall>w \<in> set (butlast (split_dots s)). w \<noteq> [])"

lemma join_split: "join_path (split_path s) = s \<longleftrightarrow> canonical s"
proof
  assume "canonical s"
  then have "path_ok (split_dots s)"
    using split_dots_no_dot[of _ s] by (auto simp: path_ok_def canonical_def)
  then show "join_path (split_path s) = s"
    by (simp add: split_path_eq keep_components_ok join_path_dotted dotted_split)
next
  assume j: "join_path (split_path s) = s"
  have "split_dots s = split_path s"
    using j split_path_ok[of s] split_dotted[of "split_path s"]
    by (metis join_path_dotted path_ok_def)
  then show "canonical s" using split_path_ok[of s] by (simp add: canonical_def path_ok_def)
qed

end
