(* ===== verification/Byte_Order.thy ===== *)
theory Byte_Order
  imports Tclm_Prelude
begin

text \<open>
  Integers as byte sequences: the shift-and-mask loops of \<open>src/src/stream.c\<close> and the byte
  order macros of \<open>endian.h\<close>, whose effect depends on the byte order of the host.
\<close>

unbundle bit_operations_syntax

text \<open>\<open>d & 0xff; d >>= 8; ...\<close>: the bytes of \<open>d\<close>, lowest first.\<close>

fun low_bytes :: "nat \<Rightarrow> 'a::len word \<Rightarrow> byte list" where
  "low_bytes 0 d = []"
| "low_bytes (Suc n) d = ucast (d AND 0xff) # low_bytes n (drop_bit 8 d)"

text \<open>\<open>d <<= 8; d |= buf[pos++]; ...\<close>.\<close>

definition shift_in :: "'a::len word \<Rightarrow> byte \<Rightarrow> 'a word" where
  "shift_in d b = (push_bit 8 d OR ucast b)"

definition from_bytes :: "byte list \<Rightarrow> 'a::len word" where
  "from_bytes bs = foldl shift_in 0 bs"

definition byte_swap :: "'a::len word \<Rightarrow> 'a word" where
  "byte_swap d = from_bytes (low_bytes (LENGTH('a) div 8) d)"

datatype byte_order = Little_Endian | Big_Endian

text \<open>\<open>htobe16\<close>, \<open>htobe32\<close>, \<open>htobe64\<close> and \<open>be16toh\<close> etc.\<close>

definition htobe :: "byte_order \<Rightarrow> 'a::len word \<Rightarrow> 'a word" where
  "htobe h d = (case h of Little_Endian \<Rightarrow> byte_swap d | Big_Endian \<Rightarrow> d)"

definition letoh :: "byte_order \<Rightarrow> 'a::len word \<Rightarrow> 'a word" where
  "letoh h d = (case h of Little_Endian \<Rightarrow> d | Big_Endian \<Rightarrow> byte_swap d)"

subsection \<open>The two directions are inverse\<close>

lemma length_low_bytes [simp]: "length (low_bytes n d) = n"
  by (induction n arbitrary: d) auto

lemma from_bytes_snoc: "from_bytes (bs @ [b]) = shift_in (from_bytes bs) b"
  by (simp add: from_bytes_def)

lemma and_ff: "d AND 0xff = take_bit 8 (d :: 'a::len word)"
proof -
  have "(0xff :: 'a word) = mask 8" by (simp add: mask_eq_exp_minus_1)
  then show ?thesis by (simp only: take_bit_eq_mask)
qed

lemma shift_in_low_byte:
  "shift_in (take_bit n (drop_bit 8 d)) (ucast (d AND 0xff)) = take_bit (n + 8) (d :: 'a::len word)"
  unfolding and_ff by (rule bit_word_eqI) (auto simp: shift_in_def bit_simps)

lemma from_low_bytes_rev: "from_bytes (rev (low_bytes n d)) = take_bit (8 * n) (d :: 'a::len word)"
proof (induction n arbitrary: d)
  case 0
  then show ?case by (simp add: from_bytes_def)
next
  case (Suc n)
  then show ?case by (simp add: from_bytes_snoc shift_in_low_byte add.commute)
qed

lemma low_bytes_cong:
  "take_bit (8 * n) d = take_bit (8 * n) d' \<Longrightarrow> low_bytes n (d :: 'a::len word) = low_bytes n d'"
proof (induction n arbitrary: d d')
  case 0
  then show ?case by simp
next
  case (Suc n)
  have bits: "bit d k = bit d' k" if "k < 8 * Suc n" for k
    using arg_cong[OF Suc.prems, of "\<lambda>w. bit w k"] that by (simp add: bit_simps)
  have "take_bit (8 * n) (drop_bit 8 d) = take_bit (8 * n) (drop_bit 8 d')"
    by (rule bit_word_eqI) (auto simp: bit_simps bits)
  moreover have "bit (take_bit 8 d) k = bit (take_bit 8 d') k" for k
    using bits[of k] by (cases "k < 8") (simp_all add: bit_take_bit_iff)
  then have "d AND 0xff = d' AND 0xff"
    unfolding and_ff by (intro bit_eqI)
  ultimately show ?case using Suc.IH[of "drop_bit 8 d" "drop_bit 8 d'"] by simp
qed

lemma low_bytes_shift_in:
  assumes "8 * Suc n \<le> LENGTH('a)"
  shows "low_bytes (Suc n) (shift_in (d :: 'a::len word) b) = b # low_bytes n d"
proof -
  have "ucast (shift_in d b AND 0xff) = b"
    unfolding and_ff using assms by (intro bit_word_eqI) (auto simp: shift_in_def bit_simps)
  moreover have "low_bytes n (drop_bit 8 (shift_in d b)) = low_bytes n d"
    using assms by (intro low_bytes_cong bit_word_eqI) (auto simp: shift_in_def bit_simps dest: bit_imp_le_length)
  ultimately show ?thesis by simp
qed

lemma low_bytes_from_bytes:
  "8 * length bs \<le> LENGTH('a) \<Longrightarrow> low_bytes (length bs) (from_bytes bs :: 'a::len word) = rev bs"
  by (induction bs rule: rev_induct)
    (simp_all add: from_bytes_snoc low_bytes_shift_in del: low_bytes.simps(2))

text \<open>For a word of whole bytes.\<close>

lemma low_bytes_byte_swap:
  "n = LENGTH('a) div 8 \<Longrightarrow> low_bytes n (byte_swap (d :: 'a::len word)) = rev (low_bytes n d)"
  using low_bytes_from_bytes[of "low_bytes n d", where ?'a = 'a] by (simp add: byte_swap_def)

lemma byte_swap_from_bytes:
  assumes "length bs = LENGTH('a) div 8" "8 * length bs = LENGTH('a)"
  shows "byte_swap (from_bytes bs :: 'a::len word) = from_bytes (rev bs)"
  using assms low_bytes_from_bytes[of bs, where ?'a = 'a] by (simp add: byte_swap_def)

lemma from_bytes_rev_low_bytes:
  assumes "n = LENGTH('a) div 8" "8 * n = LENGTH('a)"
  shows "from_bytes (rev (low_bytes n d)) = (d :: 'a::len word)"
  by (simp add: from_low_bytes_rev assms(2))

text \<open>What is written can be read back on a host of the same byte order.\<close>

lemma letoh_htobe:
  assumes "n = LENGTH('a) div 8" "8 * n = LENGTH('a)"
  shows "letoh h (from_bytes (low_bytes n (htobe h (d :: 'a::len word)))) = d"
proof (cases h)
  case Little_Endian
  with assms show ?thesis
    by (simp add: letoh_def htobe_def low_bytes_byte_swap from_bytes_rev_low_bytes)
next
  case Big_Endian
  with assms from_bytes_rev_low_bytes[OF assms, of d] byte_swap_from_bytes[of "low_bytes n d", where ?'a = 'a]
  show ?thesis by (simp add: letoh_def htobe_def)
qed

end
