(* ===== verification/Byte_Stream.thy ===== *)
theory Byte_Stream
  imports Byte_Order "HOL-Library.While_Combinator"
begin

text \<open>
  The growing byte buffer of \<open>src/src/stream.c\<close> and the message helpers of
  \<open>src/src/message_utils.h\<close>. \<open>unsigned long\<close> is a natural number below
  $2^{64}$ with the wrap-around written out. \<open>malloc\<close> and \<open>realloc\<close> are the
  parameter \<open>alloc\<close>: for a size, no block or a block of that size with arbitrary contents.
  A write or read outside the buffer is \<open>Out_Of_Bounds\<close>.
\<close>

record stream =
  s_buffer :: "byte list option"
  s_pos :: nat
  s_length :: nat
  s_capacity :: nat

type_synonym alloc = "nat \<Rightarrow> byte list option"

definition alloc_ok :: "alloc \<Rightarrow> bool" where
  "alloc_ok alloc \<longleftrightarrow> (\<forall>n b. alloc n = Some b \<longrightarrow> length b = n)"

definition sizeof_stream :: nat where
  "sizeof_stream = 32"

definition stream_new :: "alloc \<Rightarrow> stream option" where
  "stream_new alloc =
     (case alloc sizeof_stream of
        None \<Rightarrow> None
      | Some b \<Rightarrow> Some \<lparr>s_buffer = None, s_pos = 0, s_length = 0, s_capacity = 0\<rparr>)"

text \<open>\<open>stream_seek\<close>, \<open>stream_set_length\<close>, \<open>stream_remaining_length\<close>.\<close>

definition stream_seek :: "nat \<Rightarrow> stream \<Rightarrow> stream" where
  "stream_seek p s = s\<lparr>s_pos := p mod 2 ^ 64\<rparr>"

definition stream_set_length :: "nat \<Rightarrow> stream \<Rightarrow> stream" where
  "stream_set_length n s = s\<lparr>s_length := n mod 2 ^ 64\<rparr>"

definition stream_remaining_length :: "stream \<Rightarrow> nat" where
  "stream_remaining_length s = (s_length s + 2 ^ 64 - s_pos s) mod 2 ^ 64"

subsection \<open>Capacity\<close>

text \<open>\<open>64 - __builtin_clzl(l)\<close> is the number of bits of \<open>l\<close>.\<close>

fun bit_count_of :: "nat \<Rightarrow> nat" where
  "bit_count_of n = (if n = 0 then 0 else Suc (bit_count_of (n div 2)))"

declare bit_count_of.simps [simp del]

definition clzl :: "nat \<Rightarrow> nat" where
  "clzl l = 64 - bit_count_of l"

definition grow :: "nat \<Rightarrow> nat \<Rightarrow> nat option" where
  "grow want nc = while_option (\<lambda>nc. nc < want \<and> \<not> 2 ^ 63 \<le> nc) (\<lambda>nc. nc * 2 mod 2 ^ 64) nc"

definition stream_ensure_remaining_capacity :: "alloc \<Rightarrow> nat \<Rightarrow> stream \<Rightarrow> (stream \<times> int) option" where
  "stream_ensure_remaining_capacity alloc l s =
     (if 0 < l then
        (case s_buffer s of
           None \<Rightarrow>
             let l = (if \<not> 2 ^ 63 \<le> l then 2 ^ (64 - clzl l) else l)
             in (case alloc l of
                   None \<Rightarrow> Some (s, -1)
                 | Some b \<Rightarrow> Some (s\<lparr>s_buffer := Some b, s_capacity := l\<rparr>, 0))
         | Some b \<Rightarrow>
             let want = (l + s_pos s) mod 2 ^ 64
             in if s_capacity s < want then
                  Option.bind (grow want (s_capacity s))
                    (\<lambda>nc. Some
                       (if nc < want then (s, -1)
                        else
                          (case alloc nc of
                             None \<Rightarrow> (s, -1)
                           | Some n \<Rightarrow>
                               (s\<lparr>s_buffer := Some (b @ drop (length b) n), s_capacity := nc\<rparr>, 0))))
                else Some (s, 0))
      else Some (s, 0))"

subsection \<open>Writing\<close>

text \<open>\<open>s->buffer[s->pos++] = d\<close>.\<close>

definition put_byte :: "byte \<Rightarrow> stream \<Rightarrow> fault + stream" where
  "put_byte d s =
     (case s_buffer s of
        None \<Rightarrow> Inl Out_Of_Bounds
      | Some b \<Rightarrow>
          if s_pos s < length b
          then Inr (s\<lparr>s_buffer := Some (b[s_pos s := d]), s_pos := (s_pos s + 1) mod 2 ^ 64\<rparr>)
          else Inl Out_Of_Bounds)"

fun put_bytes :: "byte list \<Rightarrow> stream \<Rightarrow> fault + stream" where
  "put_bytes [] s = Inr s"
| "put_bytes (d # ds) s = (case put_byte d s of Inl e \<Rightarrow> Inl e | Inr s' \<Rightarrow> put_bytes ds s')"

definition extend_length :: "stream \<Rightarrow> stream" where
  "extend_length s = (if s_length s < s_pos s then s\<lparr>s_length := s_pos s\<rparr> else s)"

definition write_bytes :: "byte list \<Rightarrow> stream \<Rightarrow> fault + stream" where
  "write_bytes ds s = (case put_bytes ds s of Inl e \<Rightarrow> Inl e | Inr s' \<Rightarrow> Inr (extend_length s'))"

definition stream_write_uint8_t :: "byte \<Rightarrow> stream \<Rightarrow> fault + stream" where
  "stream_write_uint8_t d s = write_bytes [d] s"

definition stream_write_uint16_t :: "byte_order \<Rightarrow> u16 \<Rightarrow> stream \<Rightarrow> fault + stream" where
  "stream_write_uint16_t h d s = write_bytes (low_bytes 2 (htobe h d)) s"

definition stream_write_uint32_t :: "byte_order \<Rightarrow> u32 \<Rightarrow> stream \<Rightarrow> fault + stream" where
  "stream_write_uint32_t h d s = write_bytes (low_bytes 4 (htobe h d)) s"

definition stream_write_uint64_t :: "byte_order \<Rightarrow> 64 word \<Rightarrow> stream \<Rightarrow> fault + stream" where
  "stream_write_uint64_t h d s = write_bytes (low_bytes 8 (htobe h d)) s"

text \<open>
  \<open>memcpy(stream_pointer(s), data, n)\<close>, as the message handlers do it; position and length
  stay.
\<close>

definition copy_in :: "byte list \<Rightarrow> stream \<Rightarrow> fault + stream" where
  "copy_in ds s =
     (case s_buffer s of
        None \<Rightarrow> if ds = [] then Inr s else Inl Out_Of_Bounds
      | Some b \<Rightarrow>
          if s_pos s + length ds \<le> length b
          then Inr (s\<lparr>s_buffer := Some (take (s_pos s) b @ ds @ drop (s_pos s + length ds) b)\<rparr>)
          else Inl Out_Of_Bounds)"

subsection \<open>Reading\<close>

text \<open>\<open>s->buffer[s->pos++]\<close>, \<open>n\<close> times.\<close>

fun get_bytes :: "nat \<Rightarrow> stream \<Rightarrow> fault + byte list \<times> stream" where
  "get_bytes 0 s = Inr ([], s)"
| "get_bytes (Suc n) s =
     (case s_buffer s of
        None \<Rightarrow> Inl Out_Of_Bounds
      | Some b \<Rightarrow>
          if s_pos s < length b then
            (case get_bytes n (s\<lparr>s_pos := (s_pos s + 1) mod 2 ^ 64\<rparr>) of
               Inl e \<Rightarrow> Inl e
             | Inr (ds, s') \<Rightarrow> Inr (b ! s_pos s # ds, s'))
          else Inl Out_Of_Bounds)"

definition read_word :: "nat \<Rightarrow> byte_order \<Rightarrow> stream \<Rightarrow> fault + 'a::len word \<times> stream" where
  "read_word n h s =
     (if (s_pos s + n) mod 2 ^ 64 \<le> s_length s then
        (case get_bytes n s of
           Inl e \<Rightarrow> Inl e | Inr (ds, s') \<Rightarrow> Inr (letoh h (from_bytes ds), s'))
      else Inr (0, s))"

definition stream_read_uint8_t :: "stream \<Rightarrow> fault + byte \<times> stream" where
  "stream_read_uint8_t s =
     (if s_pos s < s_length s then
        (case get_bytes 1 s of Inl e \<Rightarrow> Inl e | Inr (ds, s') \<Rightarrow> Inr (hd ds, s'))
      else Inr (0, s))"

definition stream_read_uint16_t :: "byte_order \<Rightarrow> stream \<Rightarrow> fault + u16 \<times> stream" where
  "stream_read_uint16_t h s = read_word 2 h s"

definition stream_read_uint32_t :: "byte_order \<Rightarrow> stream \<Rightarrow> fault + u32 \<times> stream" where
  "stream_read_uint32_t h s = read_word 4 h s"

definition stream_read_uint64_t :: "byte_order \<Rightarrow> stream \<Rightarrow> fault + 64 word \<times> stream" where
  "stream_read_uint64_t h s = read_word 8 h s"

subsection \<open>Message headers\<close>

definition write_message_header ::
    "alloc \<Rightarrow> byte_order \<Rightarrow> byte \<Rightarrow> u32 \<Rightarrow> stream \<Rightarrow> (fault + stream \<times> bool) option" where
  "write_message_header alloc h i n s =
     Option.bind (stream_ensure_remaining_capacity alloc 5 s)
       (\<lambda>(s, ret). Some
          (if ret \<noteq> 0 then Inr (s, False)
           else
             (case stream_write_uint8_t i s of
                Inl e \<Rightarrow> Inl e
              | Inr s \<Rightarrow>
                  (case stream_write_uint32_t h n s of
                     Inl e \<Rightarrow> Inl e | Inr s \<Rightarrow> Inr (s, True)))))"

definition update_message_length :: "byte_order \<Rightarrow> u32 \<Rightarrow> stream \<Rightarrow> fault + stream" where
  "update_message_length h total_length s =
     stream_write_uint32_t h (total_length - 5) (stream_seek 1 s)"

end
