(* ===== verification/Stream_Correct.thy ===== *)
theory Stream_Correct
  imports Byte_Stream
begin

text \<open>
  Correctness of the byte stream: the capacity request terminates and either provides the room
  that was asked for or leaves the stream as it is; writing inside the capacity never leaves the
  buffer; what was written is read back.
\<close>

subsection \<open>Growing\<close>

lemma bit_count_of_bounds: "n < 2 ^ bit_count_of n" "0 < n \<Longrightarrow> 2 ^ (bit_count_of n - 1) \<le> n"
proof (induction n rule: bit_count_of.induct)
  case (1 n)
  {
    case 1
    show ?case
    proof (cases "n = 0")
      case False
      with "1.IH"(1) have "n div 2 < 2 ^ bit_count_of (n div 2)" by simp
      with False show ?thesis by (subst bit_count_of.simps) auto
    qed (subst bit_count_of.simps, simp)
  next
    case 2
    show ?case
    proof (cases "n = 1")
      case False
      with 2 have "0 < n div 2" by auto
      moreover from this have "0 < bit_count_of (n div 2)" by (subst bit_count_of.simps) simp
      ultimately have "2 * 2 ^ (bit_count_of (n div 2) - 1) \<le> n" using "1.IH"(2) 2 by simp
      with \<open>0 < bit_count_of (n div 2)\<close> 2 show ?thesis
        by (subst bit_count_of.simps) (simp add: power_eq_if[of _ "bit_count_of (n div 2)"])
    qed (simp add: bit_count_of.simps)
  }
qed

lemma bit_count_of_le: "n < 2 ^ k \<Longrightarrow> bit_count_of n \<le> k"
proof (cases "n = 0")
  case False
  assume "n < 2 ^ k"
  with bit_count_of_bounds(2)[of n] False have "2 ^ (bit_count_of n - 1) < (2 :: nat) ^ k" by linarith
  then have "bit_count_of n - 1 < k" by (rule power_less_imp_less_exp[rotated]) simp
  then show ?thesis by simp
qed (simp add: bit_count_of.simps)

lemma round_up_power:
  assumes "0 < l" "l < 2 ^ 63"
  shows "l < 2 ^ (64 - clzl l)" "2 ^ (64 - clzl l) \<le> (2 :: nat) ^ 63" "2 ^ (64 - clzl l) \<le> 2 * l"
proof -
  have le: "bit_count_of l \<le> 63" using assms(2) by (rule bit_count_of_le)
  then have eq: "64 - clzl l = bit_count_of l" by (simp add: clzl_def)
  show "l < 2 ^ (64 - clzl l)" unfolding eq by (rule bit_count_of_bounds(1))
  show "2 ^ (64 - clzl l) \<le> (2 :: nat) ^ 63" unfolding eq using le by (rule power_increasing) simp
  have "0 < bit_count_of l" using assms(1) by (subst bit_count_of.simps) simp
  then show "2 ^ (64 - clzl l) \<le> 2 * l"
    unfolding eq using bit_count_of_bounds(2)[OF assms(1)]
    by (simp add: power_eq_if[of _ "bit_count_of l"])
qed

lemma grow_terminates:
  assumes "0 < nc" "nc < 2 ^ 64"
  shows "\<exists>r. grow want nc = Some r"
  unfolding grow_def
  by (rule measure_while_option_Some[where P = "\<lambda>nc. 0 < nc \<and> nc < 2 ^ 64" and f = "\<lambda>nc. 2 ^ 64 - nc"])
    (use assms in auto)

lemma grow_bounds:
  assumes "grow want nc = Some r" "nc < 2 ^ 64"
  shows "nc \<le> r" "r < 2 ^ 64" "want \<le> r \<or> 2 ^ 63 \<le> r" "nc < want \<Longrightarrow> r < 2 * want"
proof -
  have "nc \<le> r \<and> r < 2 ^ 64 \<and> (nc < want \<longrightarrow> r < 2 * want)"
    by (rule while_option_rule[OF _ assms(1)[unfolded grow_def],
          where P = "\<lambda>x. nc \<le> x \<and> x < 2 ^ 64 \<and> (nc < want \<longrightarrow> x < 2 * want)"])
      (use assms(2) in auto)
  then show "nc \<le> r" "r < 2 ^ 64" "nc < want \<Longrightarrow> r < 2 * want" by auto
  show "want \<le> r \<or> 2 ^ 63 \<le> r"
    using while_option_stop[OF assms(1)[unfolded grow_def]] by auto
qed

subsection \<open>Invariant\<close>

definition stream_inv :: "stream \<Rightarrow> bool" where
  "stream_inv s \<longleftrightarrow> s_length s \<le> s_capacity s \<and> s_capacity s < 2 ^ 64 \<and>
     (case s_buffer s of
        None \<Rightarrow> s_capacity s = 0 \<and> s_pos s = 0
      | Some b \<Rightarrow> length b = s_capacity s \<and> 0 < s_capacity s)"

text \<open>The bytes of the message in the stream.\<close>

definition stream_contents :: "stream \<Rightarrow> byte list" where
  "stream_contents s = (case s_buffer s of None \<Rightarrow> [] | Some b \<Rightarrow> take (s_length s) b)"

lemma stream_new_inv: "stream_new alloc = Some s \<Longrightarrow> stream_inv s \<and> stream_contents s = []"
  by (auto simp: stream_new_def stream_inv_def stream_contents_def split: option.splits)

theorem ensure_capacity_correct:
  assumes inv: "stream_inv s" and alloc: "alloc_ok alloc" and l: "l + s_pos s < 2 ^ 64"
  shows "\<exists>s' ret. stream_ensure_remaining_capacity alloc l s = Some (s', ret) \<and>
    (ret = 0 \<and> (0 < l \<longrightarrow> s_pos s' + l \<le> s_capacity s') \<and> s_capacity s \<le> s_capacity s' \<or>
     ret = -1 \<and> s' = s) \<and>
    stream_inv s' \<and> s_pos s' = s_pos s \<and> s_length s' = s_length s \<and> stream_contents s' = stream_contents s"
proof (cases "0 < l")
  case False
  with inv show ?thesis by (simp add: stream_ensure_remaining_capacity_def)
next
  case True
  show ?thesis
  proof (cases "s_buffer s")
    case None
    let ?l = "if \<not> 2 ^ 63 \<le> l then 2 ^ (64 - clzl l) else l"
    have "l \<le> ?l" "?l < 2 ^ 64" "0 < ?l"
      using round_up_power[of l] True l by (auto simp: not_le intro: order.strict_trans1)
    with None inv alloc True show ?thesis
      by (cases "alloc ?l")
        (auto simp: stream_ensure_remaining_capacity_def stream_inv_def stream_contents_def alloc_ok_def Let_def)
  next
    case (Some b)
    then have b: "length b = s_capacity s" "0 < s_capacity s" "s_capacity s < 2 ^ 64" "s_length s \<le> length b"
      using inv by (auto simp: stream_inv_def)
    show ?thesis
    proof (cases "s_capacity s < l + s_pos s")
      case False
      with Some True l inv show ?thesis by (auto simp: stream_ensure_remaining_capacity_def)
    next
      case grow: True
      obtain nc where nc: "grow (l + s_pos s) (s_capacity s) = Some nc"
        using grow_terminates[OF b(2,3)] by blast
      note bounds = grow_bounds[OF nc b(3)]
      show ?thesis
        using Some True l grow nc bounds inv b alloc
        by (cases "alloc nc")
          (auto simp: stream_ensure_remaining_capacity_def stream_inv_def stream_contents_def alloc_ok_def Let_def)
    qed
  qed
qed

subsection \<open>Writing\<close>

lemma list_update_splice:
  "p < length b \<Longrightarrow> b[p := d] = take p b @ d # drop (Suc p) b"
  by (simp add: upd_conv_take_nth_drop)

lemma put_bytes_ok:
  assumes "s_buffer s = Some b" "s_pos s + length ds \<le> length b" "length b < 2 ^ 64"
  shows "put_bytes ds s = Inr (s\<lparr>s_buffer := Some (take (s_pos s) b @ ds @ drop (s_pos s + length ds) b),
    s_pos := s_pos s + length ds\<rparr>)"
  using assms
proof (induction ds arbitrary: s b)
  case Nil
  then show ?case by simp
next
  case (Cons d ds)
  let ?s = "s\<lparr>s_buffer := Some (b[s_pos s := d]), s_pos := s_pos s + 1\<rparr>"
  have "put_byte d s = Inr ?s" using Cons.prems by (simp add: put_byte_def)
  with Cons.IH[of ?s "b[s_pos s := d]"] Cons.prems show ?case
    by (simp add: list_update_splice take_Suc_conv_app_nth ac_simps)
qed

text \<open>A stream that is being written at its end: it holds \<open>bs\<close> and has room for \<open>n\<close> more.\<close>

definition writing :: "stream \<Rightarrow> byte list \<Rightarrow> nat \<Rightarrow> bool" where
  "writing s bs n \<longleftrightarrow> stream_inv s \<and> s_pos s = length bs \<and> s_length s = length bs \<and>
     stream_contents s = bs \<and> length bs + n \<le> s_capacity s"

lemma writing_weaken: "writing s bs n \<Longrightarrow> k \<le> n \<Longrightarrow> writing s bs k"
  by (auto simp: writing_def)

lemma write_bytes_ok:
  assumes "writing s bs (length ds + n)"
  shows "\<exists>s'. write_bytes ds s = Inr s' \<and> writing s' (bs @ ds) n \<and> s_capacity s' = s_capacity s"
proof (cases "s_buffer s")
  case None
  with assms have "ds = []" "bs = []" by (auto simp: writing_def stream_inv_def)
  with assms None show ?thesis by (auto simp: write_bytes_def extend_length_def writing_def)
next
  case (Some b)
  with assms have b: "s_pos s + length ds \<le> length b" "length b < 2 ^ 64" "length b = s_capacity s"
    "take (length bs) b = bs" "s_pos s = length bs" "s_length s = length bs" "0 < s_capacity s"
    by (auto simp: writing_def stream_inv_def stream_contents_def)
  from put_bytes_ok[OF Some b(1,2)] b assms show ?thesis
    by (auto simp: write_bytes_def extend_length_def writing_def stream_inv_def stream_contents_def)
qed

lemmas stream_writes =
  stream_write_uint8_t_def stream_write_uint16_t_def stream_write_uint32_t_def stream_write_uint64_t_def

text \<open>On a little-endian host the bytes of an integer appear with the highest first.\<close>

definition big_endian :: "nat \<Rightarrow> 'a::len word \<Rightarrow> byte list" where
  "big_endian n d = rev (low_bytes n d)"

lemma length_big_endian [simp]: "length (big_endian n d) = n"
  by (simp add: big_endian_def)

lemma low_bytes_htobe:
  "n = LENGTH('a) div 8 \<Longrightarrow> low_bytes n (htobe Little_Endian (d :: 'a::len word)) = big_endian n d"
  by (simp add: htobe_def big_endian_def low_bytes_byte_swap)

lemma from_big_endian:
  assumes "n = LENGTH('a) div 8" "8 * n = LENGTH('a)"
  shows "from_bytes (big_endian n (d :: 'a::len word)) = d"
  using from_bytes_rev_low_bytes[OF assms, of d] by (simp add: big_endian_def)

lemma write_uint8_ok:
  "writing s bs (1 + n) \<Longrightarrow> \<exists>s'. stream_write_uint8_t d s = Inr s' \<and> writing s' (bs @ [d]) n"
  using write_bytes_ok[of s bs "[d]" n] by (auto simp: stream_writes)

lemma write_uint16_ok:
  "writing s bs (2 + n) \<Longrightarrow>
   \<exists>s'. stream_write_uint16_t Little_Endian d s = Inr s' \<and> writing s' (bs @ big_endian 2 d) n"
  using write_bytes_ok[of s bs "big_endian 2 d" n] by (auto simp: stream_writes low_bytes_htobe)

lemma write_uint32_ok:
  "writing s bs (4 + n) \<Longrightarrow>
   \<exists>s'. stream_write_uint32_t Little_Endian d s = Inr s' \<and> writing s' (bs @ big_endian 4 d) n"
  using write_bytes_ok[of s bs "big_endian 4 d" n] by (auto simp: stream_writes low_bytes_htobe)

subsection \<open>Reading\<close>

text \<open>A stream that is being read: it holds \<open>bs\<close> and the position is at \<open>p\<close>.\<close>

definition reading :: "stream \<Rightarrow> byte list \<Rightarrow> nat \<Rightarrow> bool" where
  "reading s bs p \<longleftrightarrow> stream_inv s \<and> s_pos s = p \<and> s_length s = length bs \<and> stream_contents s = bs \<and>
     p < 2 ^ 63"

lemma get_bytes_ok:
  assumes "s_buffer s = Some b" "s_pos s + n \<le> length b" "length b < 2 ^ 64"
  shows "get_bytes n s = Inr (take n (drop (s_pos s) b), s\<lparr>s_pos := s_pos s + n\<rparr>)"
  using assms
proof (induction n arbitrary: s)
  case 0
  then show ?case by simp
next
  case (Suc n)
  with Suc.IH[of "s\<lparr>s_pos := s_pos s + 1\<rparr>"] show ?case
    by (simp add: Cons_nth_drop_Suc[symmetric])
qed

lemma read_word_ok:
  assumes "reading s bs p" "0 < n" "n < 2 ^ 63"
  shows "(read_word n h s :: fault + 'a::len word \<times> stream) =
    (if p + n \<le> length bs
     then Inr (letoh h (from_bytes (take n (drop p bs))), s\<lparr>s_pos := p + n\<rparr>) else Inr (0, s))"
proof (cases "p + n \<le> length bs")
  case False
  with assms show ?thesis by (simp add: read_word_def reading_def)
next
  case True
  with assms obtain b where b: "s_buffer s = Some b" "length b = s_capacity s" "s_capacity s < 2 ^ 64"
    "take (length bs) b = bs" "length bs \<le> length b"
    by (cases "s_buffer s") (auto simp: reading_def stream_inv_def stream_contents_def)
  have "take n (drop p b) = take n (drop p bs)"
    using True b(4) by (metis add.commute le_add_diff_inverse2 le_diff_conv2 min.absorb1 take_drop take_take)
  with get_bytes_ok[of s b n] b True assms show ?thesis by (simp add: read_word_def reading_def)
qed

lemma reading_advance:
  "reading s bs p \<Longrightarrow> q < 2 ^ 63 \<Longrightarrow> bs \<noteq> [] \<Longrightarrow> reading (s\<lparr>s_pos := q\<rparr>) bs q"
  by (auto simp: reading_def stream_inv_def stream_contents_def split: option.splits)

lemma read_uint8_ok:
  assumes "reading s bs p"
  shows "stream_read_uint8_t s =
    (if p < length bs then Inr (bs ! p, s\<lparr>s_pos := p + 1\<rparr>) else Inr (0, s))"
proof (cases "p < length bs")
  case False
  with assms show ?thesis by (simp add: stream_read_uint8_t_def reading_def)
next
  case True
  with assms obtain b where b: "s_buffer s = Some b" "length b = s_capacity s" "s_capacity s < 2 ^ 64"
    "take (length bs) b = bs" "length bs \<le> length b"
    by (cases "s_buffer s") (auto simp: reading_def stream_inv_def stream_contents_def)
  have "take (Suc 0) (drop p b) = [bs ! p]"
    using True b(4,5) by (metis One_nat_def hd_drop_conv_nth length_drop less_le_trans nth_take
        take_Suc_Cons take0 Cons_nth_drop_Suc take_Suc zero_less_diff)
  with get_bytes_ok[of s b 1] b True assms show ?thesis
    by (simp add: stream_read_uint8_t_def reading_def)
qed

text \<open>From writing to reading: \<open>stream_seek\<close> back into what was written.\<close>

lemma writing_reading:
  "writing s bs n \<Longrightarrow> bs \<noteq> [] \<Longrightarrow> p < 2 ^ 63 \<Longrightarrow> reading (stream_seek p s) bs p"
  by (auto simp: writing_def reading_def stream_seek_def stream_inv_def stream_contents_def
      split: option.splits)

subsection \<open>Message headers\<close>

lemma stream_new_writing: "stream_new alloc = Some s \<Longrightarrow> writing s [] 0"
  by (auto simp: stream_new_def writing_def stream_inv_def stream_contents_def split: option.splits)

lemma ensure_writing:
  assumes "writing s bs k" "alloc_ok alloc" "length bs + n < 2 ^ 64"
  shows "\<exists>s' ret. stream_ensure_remaining_capacity alloc n s = Some (s', ret) \<and>
    (ret = 0 \<and> writing s' bs (max k n) \<or> ret = -1 \<and> s' = s)"
proof -
  from assms have inv: "stream_inv s" "n + s_pos s < 2 ^ 64" by (auto simp: writing_def)
  from ensure_capacity_correct[OF inv(1) assms(2) inv(2)] assms(1) show ?thesis
    by (cases "n = 0") (auto simp: writing_def max_def stream_inv_def)
qed

definition header :: "byte \<Rightarrow> u32 \<Rightarrow> byte list" where
  "header i n = i # big_endian 4 n"

lemma length_header [simp]: "length (header i n) = 5"
  by (simp add: header_def)

lemma write_message_header_ok:
  assumes "writing s bs k" "alloc_ok alloc" "length bs + 5 < 2 ^ 64"
  shows "\<exists>s' ok. write_message_header alloc Little_Endian i n s = Some (Inr (s', ok)) \<and>
    (if ok then writing s' (bs @ header i n) (k - 5) else s' = s)"
proof -
  obtain s1 ret where e: "stream_ensure_remaining_capacity alloc 5 s = Some (s1, ret)"
    "ret = 0 \<and> writing s1 bs (max k 5) \<or> ret = -1 \<and> s1 = s"
    using ensure_writing[OF assms] by blast
  show ?thesis
  proof (cases "ret = 0")
    case False
    with e show ?thesis by (intro exI[of _ s] exI[of _ False]) (simp add: write_message_header_def)
  next
    case True
    with e have "writing s1 bs (1 + (4 + (k - 5)))" by (auto elim: writing_weaken)
    then obtain s2 where s2: "stream_write_uint8_t i s1 = Inr s2" "writing s2 (bs @ [i]) (4 + (k - 5))"
      using write_uint8_ok by blast
    then obtain s3 where "stream_write_uint32_t Little_Endian n s2 = Inr s3"
      "writing s3 (bs @ header i n) (k - 5)"
      using write_uint32_ok[OF s2(2)] by (auto simp: header_def)
    with e True s2 show ?thesis by (intro exI[of _ s3] exI[of _ True]) (simp add: write_message_header_def)
  qed
qed

text \<open>Filling in the length of a finished message.\<close>

lemma update_message_length_ok:
  assumes "writing s (header i x @ bs) k"
  shows "\<exists>s'. update_message_length Little_Endian n s = Inr s' \<and> stream_inv s' \<and>
    stream_contents s' = header i (n - 5) @ bs \<and> s_length s' = 5 + length bs"
proof -
  obtain b where b: "s_buffer s = Some b" "length b = s_capacity s" "s_capacity s < 2 ^ 64"
    "take (5 + length bs) b = header i x @ bs" "5 + length bs \<le> length b" "s_length s = 5 + length bs"
    "0 < s_capacity s"
    using assms by (cases "s_buffer s") (auto simp: writing_def stream_inv_def stream_contents_def)
  let ?d = "big_endian 4 (n - 5)"
  have "take 1 (take (5 + length bs) b) = take 1 b" by simp
  then have split: "take 1 b = [i]" "drop 5 (take (5 + length bs) b) = bs"
    unfolding b(4) by (simp_all add: header_def)
  from put_bytes_ok[of "stream_seek 1 s" b ?d] b
  have "put_bytes ?d (stream_seek 1 s) =
      Inr (s\<lparr>s_buffer := Some (take 1 b @ ?d @ drop 5 b), s_pos := 5\<rparr>)"
    by (simp add: stream_seek_def)
  moreover have "take (5 + length bs) (take 1 b @ ?d @ drop 5 b) = header i (n - 5) @ bs"
    using split b(5) by (simp add: header_def drop_take numeral_eq_Suc)
  ultimately show ?thesis using b assms
    by (auto simp: update_message_length_def stream_writes low_bytes_htobe write_bytes_def extend_length_def
        stream_inv_def stream_contents_def)
qed

end
