(* ===== verification/Ring_Buffer.thy ===== *)
theory Ring_Buffer
  imports Stream_Correct
begin

text \<open>
  The ring buffer of \<open>src/src/ringbuffer.cpp\<close> that collects received bytes. Its contents
  are the bytes from the read position to the write position, around the end of the block if the
  write position is lower. The locale \<open>byte_fifo\<close> is the contract the connection relies on;
  it is interpreted on the ring buffer.
\<close>

subsection \<open>Blocks of memory\<close>

definition peek_block :: "nat \<Rightarrow> nat \<Rightarrow> byte list \<Rightarrow> fault + byte list" where
  "peek_block off n b = (if off + n \<le> length b then Inr (take n (drop off b)) else Inl Out_Of_Bounds)"

definition poke_block :: "nat \<Rightarrow> byte list \<Rightarrow> byte list \<Rightarrow> fault + byte list" where
  "poke_block off ds b =
     (if off + length ds \<le> length b then Inr (take off b @ ds @ drop (off + length ds) b)
      else Inl Out_Of_Bounds)"

subsection \<open>The ring buffer\<close>

record ringbuffer =
  rb_buffer :: "byte list option"
  rb_capacity :: nat
  readpos :: nat
  writepos :: nat

datatype write_error = malloc_errno | ENOMEM

definition rb_new :: ringbuffer where
  "rb_new = \<lparr>rb_buffer = None, rb_capacity = 0, readpos = 0, writepos = 0\<rparr>"

definition rb_size :: "ringbuffer \<Rightarrow> nat" where
  "rb_size q =
     (if readpos q \<le> writepos q then writepos q - readpos q
      else rb_capacity q - readpos q + writepos q)"

definition get_capacity :: "ringbuffer \<Rightarrow> nat" where
  "get_capacity q = (rb_capacity q + 2 ^ 64 - 1) mod 2 ^ 64"

text \<open>The doubling loops; \<open>used\<close> bytes stay, one byte is kept free.\<close>

definition double_until :: "nat \<Rightarrow> nat \<Rightarrow> nat \<Rightarrow> nat option" where
  "double_until used n c =
     while_option (\<lambda>c. c - 1 - used < n \<and> \<not> 2 ^ 63 \<le> c) (\<lambda>c. c * 2 mod 2 ^ 64) c"

text \<open>The part of \<open>write\<close> that allocates or enlarges the block.\<close>

definition rb_reserve ::
    "alloc \<Rightarrow> nat \<Rightarrow> ringbuffer \<Rightarrow> (fault + ringbuffer \<times> write_error option) option" where
  "rb_reserve alloc n q =
     (let s = rb_size q
      in case rb_buffer q of
           None \<Rightarrow>
             Option.bind (double_until 0 n 1024)
               (\<lambda>bc. Some
                  (case alloc bc of
                     None \<Rightarrow> Inr (q, Some malloc_errno)
                   | Some b \<Rightarrow> Inr (q\<lparr>rb_buffer := Some b, rb_capacity := bc\<rparr>, None)))
         | Some b \<Rightarrow>
             if rb_capacity q - 1 - s < n then
               Option.bind (double_until s n (rb_capacity q))
                 (\<lambda>nc. Some
                    (case alloc nc of
                       None \<Rightarrow> Inr (q, Some malloc_errno)
                     | Some nb \<Rightarrow>
                         if readpos q \<le> writepos q then
                           (case peek_block (readpos q) (writepos q - readpos q) b of
                              Inl e \<Rightarrow> Inl e
                            | Inr ds \<Rightarrow>
                                (case poke_block 0 ds nb of
                                   Inl e \<Rightarrow> Inl e
                                 | Inr nb \<Rightarrow>
                                     Inr (\<lparr>rb_buffer = Some nb, rb_capacity = nc, readpos = 0,
                                           writepos = writepos q - readpos q\<rparr>, None)))
                         else
                           (case peek_block (readpos q) (rb_capacity q - readpos q) b of
                              Inl e \<Rightarrow> Inl e
                            | Inr ds \<Rightarrow>
                                (case peek_block 0 (writepos q) b of
                                   Inl e \<Rightarrow> Inl e
                                 | Inr ds' \<Rightarrow>
                                     (case poke_block 0 ds nb of
                                        Inl e \<Rightarrow> Inl e
                                      | Inr nb \<Rightarrow>
                                          (case poke_block (rb_capacity q - readpos q) ds' nb of
                                             Inl e \<Rightarrow> Inl e
                                           | Inr nb \<Rightarrow>
                                               Inr (\<lparr>rb_buffer = Some nb, rb_capacity = nc,
                                                     readpos = 0, writepos = s\<rparr>, None)))))))
             else Some (Inr (q, None)))"

text \<open>The part of \<open>write\<close> that copies the data.\<close>

definition rb_store :: "byte list \<Rightarrow> ringbuffer \<Rightarrow> fault + ringbuffer" where
  "rb_store data q =
     (case rb_buffer q of
        None \<Rightarrow> Inl Out_Of_Bounds
      | Some b \<Rightarrow>
          let room = rb_capacity q - writepos q
          in if length data \<le> room then
               (case poke_block (writepos q) data b of
                  Inl e \<Rightarrow> Inl e
                | Inr b \<Rightarrow>
                    Inr (q\<lparr>rb_buffer := Some b,
                           writepos := (writepos q + length data) mod rb_capacity q\<rparr>))
             else
               (case poke_block (writepos q) (take room data) b of
                  Inl e \<Rightarrow> Inl e
                | Inr b \<Rightarrow>
                    (case poke_block 0 (drop room data) b of
                       Inl e \<Rightarrow> Inl e
                     | Inr b \<Rightarrow>
                         Inr (q\<lparr>rb_buffer := Some b, writepos := length data - room\<rparr>))))"

definition rb_write ::
    "alloc \<Rightarrow> byte list \<Rightarrow> ringbuffer \<Rightarrow> (fault + ringbuffer \<times> write_error option) option" where
  "rb_write alloc data q =
     (let s = rb_size q
      in Option.bind (rb_reserve alloc (length data) q)
           (\<lambda>res. Some
              (case res of
                 Inl e \<Rightarrow> Inl e
               | Inr (q, Some err) \<Rightarrow> Inr (q, Some err)
               | Inr (q, None) \<Rightarrow>
                   if rb_capacity q - 1 - s < length data then Inr (q, Some ENOMEM)
                   else
                     (case rb_store data q of Inl e \<Rightarrow> Inl e | Inr q \<Rightarrow> Inr (q, None)))))"

text \<open>The bytes that \<open>peek\<close> copies out, at most \<open>n\<close>.\<close>

definition rb_peek :: "nat \<Rightarrow> ringbuffer \<Rightarrow> fault + byte list" where
  "rb_peek n q =
     (if 0 < rb_size q then
        let to_readpos = (if n \<le> rb_size q then n else rb_size q)
        in (case rb_buffer q of
              None \<Rightarrow> Inl Out_Of_Bounds
            | Some b \<Rightarrow>
                if readpos q \<le> writepos q \<or> to_readpos < rb_capacity q - readpos q
                then peek_block (readpos q) to_readpos b
                else
                  (case peek_block (readpos q) (rb_capacity q - readpos q) b of
                     Inl e \<Rightarrow> Inl e
                   | Inr ds \<Rightarrow>
                       (case peek_block 0 (to_readpos - (rb_capacity q - readpos q)) b of
                          Inl e \<Rightarrow> Inl e | Inr ds' \<Rightarrow> Inr (ds @ ds'))))
      else Inr [])"

definition rb_read :: "nat \<Rightarrow> ringbuffer \<Rightarrow> fault + byte list \<times> ringbuffer" where
  "rb_read n q =
     (if 0 < rb_size q then
        let to_readpos = (if n \<le> rb_size q then n else rb_size q)
        in (case rb_buffer q of
              None \<Rightarrow> Inl Out_Of_Bounds
            | Some b \<Rightarrow>
                if readpos q \<le> writepos q \<or> to_readpos < rb_capacity q - readpos q
                then
                  (case peek_block (readpos q) to_readpos b of
                     Inl e \<Rightarrow> Inl e
                   | Inr ds \<Rightarrow> Inr (ds, q\<lparr>readpos := readpos q + to_readpos\<rparr>))
                else
                  (case peek_block (readpos q) (rb_capacity q - readpos q) b of
                     Inl e \<Rightarrow> Inl e
                   | Inr ds \<Rightarrow>
                       (case peek_block 0 (to_readpos - (rb_capacity q - readpos q)) b of
                          Inl e \<Rightarrow> Inl e
                        | Inr ds' \<Rightarrow>
                            Inr (ds @ ds',
                                 q\<lparr>readpos := (readpos q + to_readpos) mod rb_capacity q\<rparr>))))
      else Inr ([], q))"

definition rb_remove :: "nat \<Rightarrow> ringbuffer \<Rightarrow> ringbuffer" where
  "rb_remove n q =
     (if 0 < rb_size q then
        let to_readpos = (if n \<le> rb_size q then n else rb_size q)
        in q\<lparr>readpos := (readpos q + to_readpos) mod rb_capacity q\<rparr>
      else q)"

text \<open>The integer readers: the bytes become a host integer, which \<open>be32toh\<close> converts.\<close>

definition host_word :: "byte_order \<Rightarrow> byte list \<Rightarrow> 'a::len word" where
  "host_word h bs = (case h of Little_Endian \<Rightarrow> from_bytes (rev bs) | Big_Endian \<Rightarrow> from_bytes bs)"

definition read_uint :: "nat \<Rightarrow> byte_order \<Rightarrow> ringbuffer \<Rightarrow> fault + 'a::len word \<times> ringbuffer" where
  "read_uint n h q =
     (if n \<le> rb_size q then
        (case rb_read n q of Inl e \<Rightarrow> Inl e | Inr (ds, q) \<Rightarrow> Inr (htobe h (host_word h ds), q))
      else Inr (0, q))"

definition read_uint32 :: "byte_order \<Rightarrow> ringbuffer \<Rightarrow> fault + u32 \<times> ringbuffer" where
  "read_uint32 h q = read_uint 4 h q"

definition read_uint16 :: "byte_order \<Rightarrow> ringbuffer \<Rightarrow> fault + u16 \<times> ringbuffer" where
  "read_uint16 h q = read_uint 2 h q"

definition read_uint8 :: "ringbuffer \<Rightarrow> fault + byte \<times> ringbuffer" where
  "read_uint8 q =
     (if 1 \<le> rb_size q then
        (case rb_read 1 q of Inl e \<Rightarrow> Inl e | Inr (ds, q) \<Rightarrow> Inr (hd ds, q))
      else Inr (0, q))"

subsection \<open>Invariant and contents\<close>

definition rb_inv :: "ringbuffer \<Rightarrow> bool" where
  "rb_inv q \<longleftrightarrow>
     (case rb_buffer q of
        None \<Rightarrow> rb_capacity q = 0 \<and> readpos q = 0 \<and> writepos q = 0
      | Some b \<Rightarrow> length b = rb_capacity q \<and> rb_capacity q < 2 ^ 64 \<and>
          readpos q < rb_capacity q \<and> writepos q < rb_capacity q)"

definition rb_bytes :: "ringbuffer \<Rightarrow> byte list" where
  "rb_bytes q =
     (case rb_buffer q of
        None \<Rightarrow> []
      | Some b \<Rightarrow>
          if readpos q \<le> writepos q then take (writepos q - readpos q) (drop (readpos q) b)
          else drop (readpos q) b @ take (writepos q) b)"

lemma rb_inv_new [simp]: "rb_inv rb_new" "rb_bytes rb_new = []"
  by (simp_all add: rb_inv_def rb_bytes_def rb_new_def)

lemma rb_size_bytes: "rb_inv q \<Longrightarrow> rb_size q = length (rb_bytes q)"
  by (auto simp: rb_inv_def rb_bytes_def rb_size_def split: option.splits)

lemma rb_size_room: "rb_inv q \<Longrightarrow> rb_buffer q = Some b \<Longrightarrow> rb_size q < rb_capacity q"
  by (auto simp: rb_inv_def rb_size_def)

lemma mod_wrap: "c \<le> n \<Longrightarrow> n < 2 * c \<Longrightarrow> n mod c = n - (c::nat)"
  by (simp add: mod_if)

lemma rb_bytes_Nil: "rb_inv q \<Longrightarrow> \<not> 0 < rb_size q \<Longrightarrow> rb_bytes q = []"
  by (simp add: rb_size_bytes)

theorem rb_peek_correct:
  assumes "rb_inv q"
  shows "rb_peek n q = Inr (take n (rb_bytes q))"
proof (cases "0 < rb_size q")
  case False
  with assms show ?thesis by (simp add: rb_peek_def rb_bytes_Nil)
next
  case True
  with assms obtain b where b: "rb_buffer q = Some b" "length b = rb_capacity q"
    "readpos q < rb_capacity q" "writepos q < rb_capacity q"
    by (cases "rb_buffer q") (auto simp: rb_inv_def rb_size_def)
  have len: "length (rb_bytes q) = rb_size q" using assms by (simp add: rb_size_bytes)
  show ?thesis
  proof (cases "readpos q \<le> writepos q")
    case True
    with b \<open>0 < rb_size q\<close> show ?thesis
      by (auto simp: rb_peek_def rb_bytes_def rb_size_def peek_block_def min_def)
  next
    case False
    with b \<open>0 < rb_size q\<close> show ?thesis
      by (auto simp: rb_peek_def rb_bytes_def rb_size_def peek_block_def Let_def min_def)
  qed
qed

lemma rb_remove_correct:
  assumes "rb_inv q"
  shows "rb_inv (rb_remove n q)" "rb_bytes (rb_remove n q) = drop n (rb_bytes q)"
proof -
  have "rb_inv (rb_remove n q) \<and> rb_bytes (rb_remove n q) = drop n (rb_bytes q)"
  proof (cases "0 < rb_size q")
    case False
    with assms show ?thesis by (simp add: rb_remove_def rb_bytes_Nil)
  next
    case True
    with assms obtain b where b: "rb_buffer q = Some b" "length b = rb_capacity q" "rb_capacity q < 2 ^ 64"
      "readpos q < rb_capacity q" "writepos q < rb_capacity q"
      by (cases "rb_buffer q") (auto simp: rb_inv_def rb_size_def)
    define k where "k = min n (rb_size q)"
    have rem: "rb_remove n q = q\<lparr>readpos := (readpos q + k) mod rb_capacity q\<rparr>"
      using True by (simp add: rb_remove_def k_def min_def)
    have k: "k \<le> rb_size q" "drop n (rb_bytes q) = drop k (rb_bytes q)"
      using rb_size_bytes[OF assms] by (auto simp: k_def min_def)
    show ?thesis
    proof (cases "readpos q \<le> writepos q \<or> readpos q + k < rb_capacity q")
      case True
      with b k(1) show ?thesis unfolding rem k(2)
        by (auto simp: rb_inv_def rb_bytes_def rb_size_def drop_take ac_simps)
    next
      case False
      with b k(1) have "(readpos q + k) mod rb_capacity q = readpos q + k - rb_capacity q"
        by (intro mod_wrap) (auto simp: rb_size_def)
      with False b k(1) show ?thesis unfolding rem k(2)
        by (auto simp: rb_inv_def rb_bytes_def rb_size_def drop_take add.commute)
    qed
  qed
  then show "rb_inv (rb_remove n q)" "rb_bytes (rb_remove n q) = drop n (rb_bytes q)" by auto
qed

text \<open>\<open>read\<close> is \<open>peek\<close> followed by \<open>remove\<close>.\<close>

theorem rb_read_correct:
  assumes "rb_inv q"
  shows "rb_read n q = Inr (take n (rb_bytes q), rb_remove n q)"
proof (cases "0 < rb_size q")
  case False
  with assms show ?thesis by (simp add: rb_read_def rb_remove_def rb_bytes_Nil)
next
  case True
  with assms obtain b where b: "rb_buffer q = Some b" "length b = rb_capacity q"
    "readpos q < rb_capacity q" "writepos q < rb_capacity q"
    by (cases "rb_buffer q") (auto simp: rb_inv_def rb_size_def)
  define k where "k = (if n \<le> rb_size q then n else rb_size q)"
  have peek: "rb_peek n q = Inr (take n (rb_bytes q))" by (rule rb_peek_correct[OF assms])
  have "(readpos q + k) mod rb_capacity q = readpos q + k"
    if "readpos q \<le> writepos q \<or> k < rb_capacity q - readpos q"
    using that b by (auto simp: k_def rb_size_def split: if_splits)
  then show ?thesis using peek True b(1)
    unfolding rb_read_def rb_peek_def rb_remove_def Let_def k_def[symmetric]
    by (auto split: sum.splits if_splits)
qed

subsection \<open>Writing\<close>

lemma double_until_terminates:
  assumes "0 < c" "c < 2 ^ 64"
  shows "\<exists>r. double_until used n c = Some r"
  unfolding double_until_def
  by (rule measure_while_option_Some[where P = "\<lambda>c. 0 < c \<and> c < 2 ^ 64" and f = "\<lambda>c. 2 ^ 64 - c"])
    (use assms in auto)

lemma double_until_bounds:
  assumes "double_until used n c = Some r" "c < 2 ^ 64"
  shows "c \<le> r" "r < 2 ^ 64" "n \<le> r - 1 - used \<or> 2 ^ 63 \<le> r"
proof -
  have "c \<le> r \<and> r < 2 ^ 64"
    by (rule while_option_rule[OF _ assms(1)[unfolded double_until_def], where P = "\<lambda>x. c \<le> x \<and> x < 2 ^ 64"])
      (use assms(2) in auto)
  then show "c \<le> r" "r < 2 ^ 64" by auto
  show "n \<le> r - 1 - used \<or> 2 ^ 63 \<le> r"
    using while_option_stop[OF assms(1)[unfolded double_until_def]] by auto
qed

text \<open>Making room keeps the contents; without an error there is a block.\<close>

lemma rb_reserve_correct:
  assumes inv: "rb_inv q" and alloc: "alloc_ok alloc"
  shows "\<exists>q' e. rb_reserve alloc n q = Some (Inr (q', e)) \<and> rb_inv q' \<and> rb_bytes q' = rb_bytes q \<and>
    e \<noteq> Some ENOMEM \<and> (e = Some malloc_errno \<longrightarrow> (\<exists>n. alloc n = None)) \<and> (e = None \<longrightarrow> rb_buffer q' \<noteq> None \<and>
      (n \<le> rb_capacity q' - 1 - rb_size q \<or> 2 ^ 63 \<le> rb_capacity q'))"
proof (cases "rb_buffer q")
  case None
  obtain bc where bc: "double_until 0 n 1024 = Some bc"
    using double_until_terminates[of 1024] by auto
  note bounds = double_until_bounds[OF bc]
  from None inv bc bounds alloc show ?thesis
    by (cases "alloc bc")
      (auto simp: rb_reserve_def rb_inv_def rb_bytes_def rb_size_def alloc_ok_def)
next
  case (Some b)
  then have b: "length b = rb_capacity q" "rb_capacity q < 2 ^ 64" "readpos q < rb_capacity q"
    "writepos q < rb_capacity q" using inv by (auto simp: rb_inv_def)
  note size = rb_size_room[OF inv Some]
  show ?thesis
  proof (cases "rb_capacity q - 1 - rb_size q < n")
    case False
    with Some inv show ?thesis by (auto simp: rb_reserve_def Let_def)
  next
    case True
    obtain nc where nc: "double_until (rb_size q) n (rb_capacity q) = Some nc"
      using double_until_terminates[of "rb_capacity q"] b by auto
    note bounds = double_until_bounds[OF nc b(2)]
    show ?thesis
    proof (cases "alloc nc")
      case None
      with Some True nc inv show ?thesis by (auto simp: rb_reserve_def Let_def)
    next
      case nb: (Some nb)
      with alloc have nb_len: "length nb = nc" by (simp add: alloc_ok_def)
      show ?thesis
      proof (cases "readpos q \<le> writepos q")
        case le: True
        with Some True nc nb nb_len b bounds size show ?thesis
          by (auto simp: rb_reserve_def Let_def peek_block_def poke_block_def rb_inv_def rb_bytes_def rb_size_def)
      next
        case gt: False
        let ?d = "drop (readpos q) b" and ?t = "take (writepos q) b"
        have "rb_reserve alloc n q = Some (Inr (\<lparr>rb_buffer = Some (?d @ ?t @ drop (rb_size q) nb),
            rb_capacity = nc, readpos = 0, writepos = rb_size q\<rparr>, None))"
          using gt Some True nc nb nb_len b bounds size
          by (auto simp: rb_reserve_def Let_def peek_block_def poke_block_def rb_size_def add.commute)
        moreover have "take (rb_size q) (?d @ ?t @ x) = ?d @ ?t" for x
          using gt b by (simp add: rb_size_def)
        moreover have "length (?d @ ?t @ drop (rb_size q) nb) = nc"
          using gt b bounds nb_len by (simp add: rb_size_def)
        ultimately show ?thesis using gt Some b bounds size
          by (auto simp: rb_inv_def rb_bytes_def simp del: take_append length_append)
      qed
    qed
  qed
qed

lemma rb_store_correct:
  assumes inv: "rb_inv q" "rb_buffer q = Some b" and room: "length data \<le> rb_capacity q - 1 - rb_size q"
  shows "\<exists>q'. rb_store data q = Inr q' \<and> rb_inv q' \<and> rb_bytes q' = rb_bytes q @ data"
proof -
  from inv have b: "length b = rb_capacity q" "rb_capacity q < 2 ^ 64" "readpos q < rb_capacity q"
    "writepos q < rb_capacity q" by (auto simp: rb_inv_def)
  let ?w = "writepos q" and ?r = "readpos q" and ?c = "rb_capacity q" and ?n = "length data"
  consider (fits) "?w + ?n < ?c" "?r \<le> ?w \<or> ?w + ?n < ?r"
    | (ends) "?w + ?n = ?c" "?r \<le> ?w" "0 < ?r"
    | (wraps) "?c < ?w + ?n" "?r \<le> ?w" "?w + ?n - ?c < ?r"
    using room b by (cases "?r \<le> ?w") (auto simp: rb_size_def, linarith+)
  then show ?thesis
  proof cases
    case fits
    with b inv(2) show ?thesis
      by (auto simp: rb_store_def poke_block_def Let_def rb_inv_def rb_bytes_def drop_take)
  next
    case ends
    with b inv(2) show ?thesis
      by (auto simp: rb_store_def poke_block_def Let_def rb_inv_def rb_bytes_def drop_take)
  next
    case wraps
    with b inv(2) show ?thesis
      by (auto simp: rb_store_def poke_block_def Let_def rb_inv_def rb_bytes_def drop_take)
  qed
qed

theorem rb_write_correct:
  assumes "rb_inv q" "alloc_ok alloc"
  shows "\<exists>q' e. rb_write alloc data q = Some (Inr (q', e)) \<and> rb_inv q' \<and>
    rb_bytes q' = rb_bytes q @ (if e = None then data else []) \<and>
    (e = Some ENOMEM \<longrightarrow> 2 ^ 63 \<le> rb_size q + length data + 1) \<and>
    (e = Some malloc_errno \<longrightarrow> (\<exists>n. alloc n = None))"
proof -
  obtain q1 e where r: "rb_reserve alloc (length data) q = Some (Inr (q1, e))" "rb_inv q1"
    "rb_bytes q1 = rb_bytes q" "e = None \<Longrightarrow> rb_buffer q1 \<noteq> None" and e: "e \<noteq> Some ENOMEM" "e = Some malloc_errno \<longrightarrow> (\<exists>n. alloc n = None)" and r':
    "e = None \<Longrightarrow> length data \<le> rb_capacity q1 - 1 - rb_size q \<or> 2 ^ 63 \<le> rb_capacity q1"
    using rb_reserve_correct[OF assms, of "length data"] by blast
  have size: "rb_size q1 = rb_size q" using r(2,3) assms(1) by (simp add: rb_size_bytes)
  show ?thesis
  proof (cases e)
    case (Some err)
    with r e show ?thesis by (auto simp: rb_write_def Let_def)
  next
    case None
    then obtain b where b: "rb_buffer q1 = Some b" using r(4) by auto
    show ?thesis
    proof (cases "rb_capacity q1 - 1 - rb_size q < length data")
      case True
      with None r r' show ?thesis by (auto simp: rb_write_def Let_def)
    next
      case False
      then obtain q2 where "rb_store data q1 = Inr q2" "rb_inv q2" "rb_bytes q2 = rb_bytes q @ data"
        using rb_store_correct[OF r(2) b, of data] size r(3) by auto
      with False None r(1) show ?thesis
        by (intro exI[of _ q2] exI[of _ None]) (simp add: rb_write_def Let_def)
    qed
  qed
qed

subsection \<open>The contract of a byte queue\<close>

locale byte_fifo =
  fixes ok :: "'q \<Rightarrow> bool" and bytes :: "'q \<Rightarrow> byte list" and qsize :: "'q \<Rightarrow> nat"
    and qpeek :: "nat \<Rightarrow> 'q \<Rightarrow> fault + byte list"
    and qread :: "nat \<Rightarrow> 'q \<Rightarrow> fault + byte list \<times> 'q"
    and qremove :: "nat \<Rightarrow> 'q \<Rightarrow> 'q"
  assumes qsize_bytes: "ok q \<Longrightarrow> qsize q = length (bytes q)"
    and qpeek_bytes: "ok q \<Longrightarrow> qpeek n q = Inr (take n (bytes q))"
    and qread_bytes: "ok q \<Longrightarrow> qread n q = Inr (take n (bytes q), qremove n q)"
    and qremove_ok: "ok q \<Longrightarrow> ok (qremove n q)"
    and qremove_bytes: "ok q \<Longrightarrow> bytes (qremove n q) = drop n (bytes q)"
begin

text \<open>Taking the bytes in two steps is the same as taking them at once.\<close>

lemma read_split:
  assumes "ok q"
  shows "\<exists>ds q1. qread n q = Inr (ds, q1) \<and>
    (\<exists>ds' q2. qread k q1 = Inr (ds', q2) \<and> ok q2 \<and> ds @ ds' = take (n + k) (bytes q) \<and>
      bytes q2 = drop (n + k) (bytes q))"
  using assms by (simp add: qread_bytes qremove_ok qremove_bytes take_add add.commute[of k n])

lemma peek_remove:
  assumes "ok q" "n \<le> qsize q"
  shows "\<exists>ds. qpeek n q = Inr ds \<and> length ds = n \<and> bytes q = ds @ bytes (qremove n q)"
  using assms by (simp add: qpeek_bytes qremove_bytes qsize_bytes)

end

interpretation rb: byte_fifo rb_inv rb_bytes rb_size rb_peek rb_read rb_remove
  by unfold_locales (auto simp: rb_size_bytes rb_peek_correct rb_read_correct rb_remove_correct)

text \<open>The integer readers return the big-endian value of the first bytes.\<close>

lemma host_word_betoh:
  assumes "length bs = LENGTH('a) div 8" "8 * length bs = LENGTH('a)"
  shows "htobe h (host_word h bs :: 'a::len word) = from_bytes bs"
  using byte_swap_from_bytes[of "rev bs", where ?'a = 'a] assms
  by (cases h) (simp_all add: htobe_def host_word_def)

lemma read_uint_correct:
  assumes "rb_inv q" "n = LENGTH('a) div 8" "8 * n = LENGTH('a)" "n \<le> length (rb_bytes q)"
  shows "(read_uint n h q :: fault + 'a::len word \<times> ringbuffer) =
    Inr (from_bytes (take n (rb_bytes q)), rb_remove n q)"
  using assms host_word_betoh[of "take n (rb_bytes q)" h, where ?'a = 'a]
  by (simp add: read_uint_def rb.qsize_bytes rb.qread_bytes)

end
