(* ===== verification/Connection.thy ===== *)
theory Connection
  imports Ring_Buffer
begin

text \<open>
  A connection (\<open>src/src/Connection.cpp\<close>): the receive side cuts the incoming byte stream
  into messages and hands each to the callback, the send side is a queue of streams that are
  written out in order. The results of \<open>read(2)\<close> and \<open>write(2)\<close> are arguments; the
  calls of the callback are part of the result. \<open>mem k\<close> is what \<open>malloc\<close> does at its
  \<open>k\<close>-th call.
\<close>

record connection =
  receive_buffer :: ringbuffer
  wanted_ib_size :: u32
  has_receive_callback :: bool
  send_queue :: "stream list"
  out_enabled :: bool

definition connection_new :: connection where
  "connection_new =
     \<lparr>receive_buffer = rb_new, wanted_ib_size = 0, has_receive_callback = False, send_queue = [],
      out_enabled = False\<rparr>"

definition set_receive_callback :: "connection \<Rightarrow> connection" where
  "set_receive_callback c = c\<lparr>has_receive_callback := True\<rparr>"

subsection \<open>Receiving\<close>

type_synonym memory = "nat \<Rightarrow> alloc"

text \<open>\<open>receive_buffer.read(stream_pointer(s), n)\<close>.\<close>

definition read_into :: "nat \<Rightarrow> connection \<Rightarrow> stream \<Rightarrow> fault + connection \<times> stream" where
  "read_into n c s =
     (case rb_read n (receive_buffer c) of
        Inl e \<Rightarrow> Inl e
      | Inr (ds, q) \<Rightarrow>
          (case copy_in ds s of
             Inl e \<Rightarrow> Inl e | Inr s' \<Rightarrow> Inr (c\<lparr>receive_buffer := q\<rparr>, s')))"

text \<open>
  The first branch of the loop in \<open>data_in\<close>, after the header was copied to the stream
  \<open>s\<close>: the whole message is there. The result is the connection, the stream given to the
  callback, if any, and \<open>progress\<close>.
\<close>

definition deliver_rest ::
    "alloc \<Rightarrow> connection \<Rightarrow> stream \<Rightarrow> (fault + connection \<times> stream option \<times> bool) option" where
  "deliver_rest alloc c s =
     (let wanted = wanted_ib_size c
      in if has_receive_callback c then
           Option.bind (stream_ensure_remaining_capacity alloc (unat (wanted - 5)) s)
             (\<lambda>(s, ret). Some
                (if ret = 0 then
                   (case read_into (unat (wanted - 5))
                           (c\<lparr>receive_buffer := rb_remove 5 (receive_buffer c)\<rparr>) s of
                      Inl e \<Rightarrow> Inl e
                    | Inr (c, s) \<Rightarrow>
                        Inr (c\<lparr>wanted_ib_size := 0\<rparr>,
                             Some (stream_set_length (unat wanted) (stream_seek 0 s)), True))
                 else Inr (c\<lparr>wanted_ib_size := 0\<rparr>, None, True)))
         else
           Some (Inr (c\<lparr>receive_buffer := rb_remove (unat wanted) (receive_buffer c),
                       wanted_ib_size := 0\<rparr>, None, True)))"

text \<open>The first branch: extract the header.\<close>

definition receive_header ::
    "byte_order \<Rightarrow> alloc \<Rightarrow> alloc \<Rightarrow> alloc \<Rightarrow> connection \<Rightarrow>
     (fault + connection \<times> stream option \<times> bool) option" where
  "receive_header h a1 a2 a3 c =
     (case stream_new a1 of
        None \<Rightarrow> Some (Inr (c, None, False))
      | Some s \<Rightarrow>
          Option.bind (stream_ensure_remaining_capacity a2 5 s)
            (\<lambda>(s, ret).
               if ret \<noteq> 0 then Some (Inr (c, None, False))
               else
                 (case rb_peek 5 (receive_buffer c) of
                    Inl e \<Rightarrow> Some (Inl e)
                  | Inr ds \<Rightarrow>
                      (case copy_in ds s of
                         Inl e \<Rightarrow> Some (Inl e)
                       | Inr s \<Rightarrow>
                           (case stream_read_uint8_t (stream_set_length 5 s) of
                              Inl e \<Rightarrow> Some (Inl e)
                            | Inr (i, s) \<Rightarrow>
                                (case stream_read_uint32_t h s of
                                   Inl e \<Rightarrow> Some (Inl e)
                                 | Inr (len, s) \<Rightarrow>
                                     let c = c\<lparr>wanted_ib_size := 5 + len\<rparr>
                                     in if unat (wanted_ib_size c) \<le> rb_size (receive_buffer c)
                                        then deliver_rest a3 c s
                                        else Some (Inr (c, None, False))))))))"

text \<open>The second branch: the header was seen before and now the message is complete.\<close>

definition receive_body ::
    "alloc \<Rightarrow> alloc \<Rightarrow> connection \<Rightarrow> (fault + connection \<times> stream option \<times> bool) option" where
  "receive_body a1 a2 c =
     (let wanted = wanted_ib_size c; done = c\<lparr>wanted_ib_size := 0\<rparr>
      in if has_receive_callback c then
           (case stream_new a1 of
              None \<Rightarrow> Some (Inr (done, None, True))
            | Some s \<Rightarrow>
                Option.bind (stream_ensure_remaining_capacity a2 (unat wanted) s)
                  (\<lambda>(s, ret). Some
                     (if ret = 0 then
                        (case read_into (unat wanted) c s of
                           Inl e \<Rightarrow> Inl e
                         | Inr (c, s) \<Rightarrow>
                             Inr (c\<lparr>wanted_ib_size := 0\<rparr>,
                                  Some (stream_set_length (unat wanted) s), True))
                      else Inr (done, None, True))))
         else
           Some (Inr (done\<lparr>receive_buffer := rb_remove (unat wanted) (receive_buffer c)\<rparr>,
                      None, True)))"

definition receive_step ::
    "byte_order \<Rightarrow> memory \<Rightarrow> nat \<Rightarrow> connection \<Rightarrow>
     (fault + connection \<times> stream option \<times> bool) option" where
  "receive_step h mem k c =
     (if wanted_ib_size c = 0 \<and> 5 \<le> rb_size (receive_buffer c)
      then receive_header h (mem k) (mem (k + 1)) (mem (k + 2)) c
      else if 0 < wanted_ib_size c \<and> unat (wanted_ib_size c) \<le> rb_size (receive_buffer c)
      then receive_body (mem k) (mem (k + 1)) c
      else Some (Inr (c, None, False)))"

definition add_message ::
    "stream option \<Rightarrow> fault + connection \<times> stream list \<Rightarrow> (fault + connection \<times> stream list) option" where
  "add_message m res =
     Some (case res of
             Inl e \<Rightarrow> Inl e
           | Inr (c, ms) \<Rightarrow> Inr (c, (case m of None \<Rightarrow> ms | Some s \<Rightarrow> s # ms)))"

text \<open>The loop. It calls the callback once per message, in order.\<close>

partial_function (option) receive_loop ::
    "byte_order \<Rightarrow> memory \<Rightarrow> nat \<Rightarrow> connection \<Rightarrow> (fault + connection \<times> stream list) option" where
  "receive_loop h mem k c =
     Option.bind (receive_step h mem k c)
       (\<lambda>res. case res of
          Inl e \<Rightarrow> Some (Inl e)
        | Inr (c', m, progress) \<Rightarrow>
            if progress then Option.bind (receive_loop h mem (k + 3) c') (add_message m)
            else add_message m (Inr (c', [])))"

declare receive_loop.simps [code]

text \<open>The result of \<open>read(2)\<close> or \<open>write(2)\<close> on the file descriptor.\<close>

datatype read_result = Read_Bytes "byte list" | Read_Eof | Read_Again | Read_Error

text \<open>
  \<open>data_in\<close>: the connection, the messages given to the callback and the return value;
  or the exception that the ring buffer throws.
\<close>

definition data_in ::
    "byte_order \<Rightarrow> memory \<Rightarrow> read_result \<Rightarrow> connection \<Rightarrow>
     (fault + write_error + connection \<times> stream list \<times> bool) option" where
  "data_in h mem r c =
     (case r of
        Read_Bytes bs \<Rightarrow>
          Option.bind (rb_write (mem 0) bs (receive_buffer c))
            (\<lambda>res. case res of
               Inl e \<Rightarrow> Some (Inl e)
             | Inr (q, Some err) \<Rightarrow> Some (Inr (Inl err))
             | Inr (q, None) \<Rightarrow>
                 map_option (\<lambda>res. case res of
                     Inl e \<Rightarrow> Inl e | Inr (c, ms) \<Rightarrow> Inr (Inr (c, ms, True)))
                   (receive_loop h mem 1 (c\<lparr>receive_buffer := q\<rparr>)))
      | Read_Eof \<Rightarrow> Some (Inr (Inr (c, [], False)))
      | Read_Again \<Rightarrow> Some (Inr (Inr (c, [], True)))
      | Read_Error \<Rightarrow> Some (Inr (Inr (c, [], False))))"

subsection \<open>Sending\<close>

datatype write_result = Wrote nat | Write_Again | Write_Error

text \<open>What \<open>write(2)\<close> is given: the rest of the first stream.\<close>

definition send_bytes :: "stream \<Rightarrow> fault + byte list" where
  "send_bytes s =
     (case s_buffer s of
        None \<Rightarrow> if stream_remaining_length s = 0 then Inr [] else Inl Out_Of_Bounds
      | Some b \<Rightarrow> peek_block (s_pos s) (stream_remaining_length s) b)"

text \<open>
  \<open>data_out\<close>, with what \<open>write(2)\<close> returned: the connection, the bytes that were
  written and the return value. \<open>mgr->fd_disable_out\<close> clears \<open>out_enabled\<close>.
\<close>

definition data_out :: "write_result \<Rightarrow> connection \<Rightarrow> fault + connection \<times> byte list \<times> bool" where
  "data_out w c =
     (case send_queue c of
        [] \<Rightarrow> Inr (c\<lparr>out_enabled := False\<rparr>, [], True)
      | s # rest \<Rightarrow>
          (case send_bytes s of
             Inl e \<Rightarrow> Inl e
           | Inr ds \<Rightarrow>
               (case w of
                  Wrote n \<Rightarrow>
                    if 0 < n then
                      let s' = stream_seek (s_pos s + n) s
                      in if stream_remaining_length s' = 0 then
                           Inr (c\<lparr>send_queue := rest,
                                  out_enabled := (if rest = [] then False else out_enabled c)\<rparr>,
                                take n ds, True)
                         else Inr (c\<lparr>send_queue := s' # rest\<rparr>, take n ds, True)
                    else Inr (c, [], False)
                | Write_Again \<Rightarrow> Inr (c, [], True)
                | Write_Error \<Rightarrow> Inr (c, [], False))))"

definition send :: "stream \<Rightarrow> connection \<Rightarrow> connection" where
  "send s c =
     c\<lparr>send_queue := send_queue c @ [stream_seek 0 s], out_enabled := True\<rparr>"

end
