(* ===== verification/Daemon.thy ===== *)
theory Daemon
  imports Backend Path_Names Connection
begin

text \<open>
  The daemon (\<open>src/src/server/daemon.cpp\<close>): it receives a message of a connection, calls the
  backend and queues the answer on the connection, and the notifications about requests that were
  answered on the connections of their requesters.

  A handler ends normally (\<open>Ok\<close>), with undefined behaviour, with an uncaught
  \<open>bad_alloc\<close>, which terminates the server, or it does not return. \<open>mem k\<close> is what
  \<open>malloc\<close> does at the \<open>k\<close>-th request for memory while the message is handled. The
  iteration order of \<open>set<shared_ptr<Lock_Request>>\<close> is the order of addresses; it is the
  parameter \<open>arrange\<close>.
\<close>

subsection \<open>Outcomes\<close>

datatype 'a outcome = Ok 'a | Undefined fault | Terminated | Hangs

fun andthen :: "'a outcome \<Rightarrow> ('a \<Rightarrow> 'b outcome) \<Rightarrow> 'b outcome" where
  "andthen (Ok x) f = f x"
| "andthen (Undefined e) f = Undefined e"
| "andthen Terminated f = Terminated"
| "andthen Hangs f = Hangs"

definition checked :: "fault + 'a \<Rightarrow> 'a outcome" where
  "checked r = (case r of Inl e \<Rightarrow> Undefined e | Inr x \<Rightarrow> Ok x)"

definition ended :: "'a option \<Rightarrow> 'a outcome" where
  "ended r = (case r of None \<Rightarrow> Hangs | Some x \<Rightarrow> Ok x)"

subsection \<open>State\<close>

text \<open>
  A TCP connection with the address of its peer as \<open>accept\<close> stored it, in network byte order.
  The daemon owns the backend and, through the communications manager, the connections; a
  connection that is not in \<open>polled_fds\<close> is destroyed, so a weak pointer to it is expired.
\<close>

record tcp_connection =
  conn_state :: connection
  sin_addr :: u32
  sin_port :: u16

record daemon =
  daemon_backend :: backend
  polled_fds :: "(conn \<times> tcp_connection) list"

definition daemon_new :: daemon where
  "daemon_new = \<lparr>daemon_backend = backend_new, polled_fds = []\<rparr>"

text \<open>\<open>c->send (s)\<close>.\<close>

definition send_on :: "conn \<Rightarrow> stream \<Rightarrow> daemon \<Rightarrow> daemon" where
  "send_on c s d =
     (case map_of (polled_fds d) c of
        None \<Rightarrow> d
      | Some t \<Rightarrow>
          d\<lparr>polled_fds := smap_put c (t\<lparr>conn_state := send s (conn_state t)\<rparr>) (polled_fds d)\<rparr>)"

text \<open>Only TCP connections reach the daemon, so the cast in the C++ method succeeds.\<close>

definition daemon_update_pid_connection :: "proc \<Rightarrow> conn \<Rightarrow> daemon \<Rightarrow> daemon" where
  "daemon_update_pid_connection pid c d =
     d\<lparr>daemon_backend := update_pid_connection (daemon_backend d) pid c\<rparr>"

text \<open>\<open>ntohl\<close> and \<open>ntohs\<close> swap the bytes on a little-endian host, as \<open>htobe\<close> does.\<close>

definition ntoh :: "byte_order \<Rightarrow> 'a::len word \<Rightarrow> 'a word" where
  "ntoh h w = htobe h w"

subsection \<open>Strings in messages\<close>

definition string_of_bytes :: "byte list \<Rightarrow> string" where
  "string_of_bytes bs = map (\<lambda>b. char_of (unat b)) bs"

definition bytes_of_string :: "string \<Rightarrow> byte list" where
  "bytes_of_string s = map of_char s"

text \<open>
  \<open>string path ((char*) stream_pointer (input), path_length)\<close> and the seek behind it. Nothing
  checks that the message has that many bytes left.
\<close>

definition read_path :: "nat \<Rightarrow> stream \<Rightarrow> fault + string \<times> stream" where
  "read_path n s =
     (case s_buffer s of
        None \<Rightarrow> if n = 0 then Inr ([], s) else Inl Out_Of_Bounds
      | Some b \<Rightarrow>
          if s_pos s + n \<le> length b
          then Inr (string_of_bytes (take n (drop (s_pos s) b)), stream_seek (s_pos s + n) s)
          else Inl Out_Of_Bounds)"

text \<open>Copying a string and moving position and length behind it.\<close>

definition put_string :: "string \<Rightarrow> stream \<Rightarrow> fault + stream" where
  "put_string path s =
     (case copy_in (bytes_of_string path) s of
        Inl e \<Rightarrow> Inl e
      | Inr s \<Rightarrow>
          let s = stream_seek (s_pos s + length path) s
          in Inr (stream_set_length (s_pos s) s))"

text \<open>The same in the listings, which add to the length instead.\<close>

definition append_string :: "string \<Rightarrow> stream \<Rightarrow> fault + stream" where
  "append_string path s =
     (case copy_in (bytes_of_string path) s of
        Inl e \<Rightarrow> Inl e
      | Inr s \<Rightarrow>
          let s = stream_set_length (s_length s + length path) s
          in Inr (stream_seek (s_pos s + length path) s))"

subsection \<open>Notifications\<close>

definition update_status :: "lock_request \<Rightarrow> u16" where
  "update_status r =
     (if create_missing r then
        (if lock_created r then RESPONSE_STATUS_SUCCESS else RESPONSE_STATUS_LOCK_EXISTS)
      else
        (if acquire_status r = LOCK_ACQUIRE_ACQUIRED then RESPONSE_STATUS_SUCCESS
         else RESPONSE_STATUS_NO_SUCH_LOCK))"

definition write_update ::
    "byte_order \<Rightarrow> alloc \<Rightarrow> u32 \<Rightarrow> lock_request \<Rightarrow> process \<Rightarrow> string \<Rightarrow> stream \<Rightarrow> stream outcome" where
  "write_update h alloc plength r p path update =
     andthen (andthen (ended (write_message_header alloc h
         (if create_missing r then MSG_ID_CREATE_LOCK_UPDATE else MSG_ID_ACQUIRE_LOCK_UPDATE)
         plength update)) checked) (\<lambda>(update, ok).
     andthen (checked (stream_write_uint32_t h (get_id p) update)) (\<lambda>update.
     andthen (checked (stream_write_uint16_t h (of_nat (length path)) update)) (\<lambda>update.
     andthen (checked (put_string path update)) (\<lambda>update.
     andthen (if create_missing r then Ok update
              else checked (stream_write_uint8_t (req_mode r) update)) (\<lambda>update.
     checked (stream_write_uint16_t h (update_status r) update))))))"

definition notify_request ::
    "byte_order \<Rightarrow> memory \<Rightarrow> lock_request \<Rightarrow> daemon \<Rightarrow> daemon outcome" where
  "notify_request h mem r d =
     (if \<not> requester_exists r then Ok d
      else
        (case find_process (Process_table (daemon_backend d)) (requester r) of
           None \<Rightarrow> Undefined Dangling
         | Some p \<Rightarrow>
             (case get_tcp_conn p of
                None \<Rightarrow> Ok d
              | Some uc \<Rightarrow>
                  if map_of (polled_fds d) uc = None then Ok d
                  else
                    let path = join_path (req_path r);
                        plength = of_nat (4 + 2 + length path + (if create_missing r then 0 else 1) + 2)
                    in (case stream_new (mem 0) of
                          None \<Rightarrow> Ok d
                        | Some update \<Rightarrow>
                            andthen (ended (stream_ensure_remaining_capacity (mem 1)
                                (unat (plength + 5)) update)) (\<lambda>(update, ret).
                            if ret \<noteq> 0 then Ok d
                            else
                              andthen (write_update h (mem 2) plength r p path update)
                                (\<lambda>update. Ok (send_on uc update d)))))))"

fun notify_answered_requests ::
    "byte_order \<Rightarrow> memory \<Rightarrow> lock_request list \<Rightarrow> daemon \<Rightarrow> daemon outcome" where
  "notify_answered_requests h mem [] d = Ok d"
| "notify_answered_requests h mem (r # requests) d =
     andthen (notify_request h mem r d)
       (notify_answered_requests h (\<lambda>k. mem (k + 3)) requests)"

subsection \<open>Listings\<close>

text \<open>A \<open>for_each\<close> method that calls a lambda, which asks for memory once.\<close>

fun write_each ::
    "('a \<Rightarrow> alloc \<Rightarrow> stream \<Rightarrow> stream outcome) \<Rightarrow> memory \<Rightarrow> 'a list \<Rightarrow> stream \<Rightarrow> stream outcome" where
  "write_each f mem [] s = Ok s"
| "write_each f mem (x # xs) s = andthen (f x (mem 0) s) (write_each f (\<lambda>k. mem (k + 1)) xs)"

text \<open>Asking for room; a refusal (the return value is 0 or -1) is thrown as \<open>bad_alloc\<close>.\<close>

definition with_capacity ::
    "nat \<Rightarrow> alloc \<Rightarrow> stream \<Rightarrow> (stream \<Rightarrow> stream outcome) \<Rightarrow> stream outcome" where
  "with_capacity n alloc s f =
     andthen (ended (stream_ensure_remaining_capacity alloc n s)) (\<lambda>(s, ret).
       if ret \<noteq> 0 then Terminated else f s)"

definition write_connection ::
    "byte_order \<Rightarrow> tcp_connection \<Rightarrow> alloc \<Rightarrow> stream \<Rightarrow> stream outcome" where
  "write_connection h t alloc s =
     with_capacity 7 alloc s (\<lambda>s.
       andthen (checked (stream_write_uint8_t 0 s)) (\<lambda>s.
       andthen (checked (stream_write_uint32_t h (ntoh h (sin_addr t)) s)) (\<lambda>s.
       checked (stream_write_uint16_t h (ntoh h (sin_port t)) s))))"

definition write_process :: "byte_order \<Rightarrow> process \<Rightarrow> alloc \<Rightarrow> stream \<Rightarrow> stream outcome" where
  "write_process h p alloc s =
     with_capacity 8 alloc s (\<lambda>s.
       andthen (checked (stream_write_uint32_t h (get_id p) s)) (\<lambda>s.
       checked (stream_write_uint32_t h (get_lock_count p) s)))"

definition lock_status :: "lock \<Rightarrow> byte" where
  "lock_status l =
     (let status = 0;
          status = (if is_IS_locked l then or status 0x40 else status);
          status = (if is_ISplus_locked l then or status 0x20 else status);
          status = (if is_IX_locked l then or status 0x10 else status);
          status = (if is_S_locked l then or status 0x4 else status);
          status = (if is_Splus_locked l then or status 0x2 else status);
          status = (if is_X_locked l then or status 0x1 else status)
      in status)"

definition write_lock :: "byte_order \<Rightarrow> lock \<times> nat \<Rightarrow> alloc \<Rightarrow> stream \<Rightarrow> stream outcome" where
  "write_lock h ll alloc s =
     (case ll of (l, level) \<Rightarrow>
        with_capacity (length (name_of l) + 4 + 2 + 1) alloc s (\<lambda>s.
          andthen (checked (stream_write_uint32_t h (of_nat level) s)) (\<lambda>s.
          andthen (checked (stream_write_uint16_t h (of_nat (length (name_of l))) s)) (\<lambda>s.
          andthen (checked (append_string (name_of l) s)) (\<lambda>s.
          checked (stream_write_uint8_t (lock_status l) s))))))"

definition write_held_lock ::
    "byte_order \<Rightarrow> string \<times> lock_mode \<Rightarrow> alloc \<Rightarrow> stream \<Rightarrow> stream outcome" where
  "write_held_lock h pm alloc s =
     (case pm of (path, m) \<Rightarrow>
        with_capacity (length path + 1 + 2) alloc s (\<lambda>s.
          andthen (checked (stream_write_uint16_t h (of_nat (length path)) s)) (\<lambda>s.
          andthen (checked (append_string path s)) (\<lambda>s.
          checked (stream_write_uint8_t m s)))))"

text \<open>
  The frame the listing handlers share: a new stream with a header, the entries, the length of
  the finished message, the answer.
\<close>

definition listing ::
    "byte_order \<Rightarrow> memory \<Rightarrow> conn \<Rightarrow> byte \<Rightarrow> (memory \<Rightarrow> stream \<Rightarrow> stream outcome) \<Rightarrow>
     daemon \<Rightarrow> daemon outcome" where
  "listing h mem c i entries d =
     (case stream_new (mem 0) of
        None \<Rightarrow> Terminated
      | Some s \<Rightarrow>
          andthen (andthen (ended (write_message_header (mem 1) h i 0 s)) checked) (\<lambda>(s, ok).
          if \<not> ok then Terminated
          else
            andthen (entries (\<lambda>k. mem (k + 2)) s) (\<lambda>s.
            andthen (checked (update_message_length h (of_nat (s_pos s)) s)) (\<lambda>s.
            Ok (send_on c s d)))))"

definition receive_message_list_connections ::
    "byte_order \<Rightarrow> memory \<Rightarrow> conn \<Rightarrow> daemon \<Rightarrow> daemon outcome" where
  "receive_message_list_connections h mem c d =
     listing h mem c MSG_ID_LIST_CONNS_RESPONSE
       (\<lambda>mem. write_each (write_connection h) mem (map snd (polled_fds d))) d"

definition receive_message_list_processes ::
    "byte_order \<Rightarrow> memory \<Rightarrow> conn \<Rightarrow> daemon \<Rightarrow> daemon outcome" where
  "receive_message_list_processes h mem c d =
     listing h mem c MSG_ID_LIST_PROCS_RESPONSE
       (\<lambda>mem. write_each (write_process h) mem
          (for_each_process (Process_table (daemon_backend d)))) d"

definition receive_message_list_locks ::
    "byte_order \<Rightarrow> memory \<Rightarrow> conn \<Rightarrow> daemon \<Rightarrow> daemon outcome" where
  "receive_message_list_locks h mem c d =
     listing h mem c MSG_ID_LIST_LOCKS_RESPONSE
       (\<lambda>mem. write_each (write_lock h) mem (for_each_lock (Forest (daemon_backend d)))) d"

definition write_pid_status :: "byte_order \<Rightarrow> proc \<Rightarrow> u16 \<Rightarrow> alloc \<Rightarrow> stream \<Rightarrow> stream outcome" where
  "write_pid_status h pid status alloc s =
     with_capacity 6 alloc s (\<lambda>s.
       andthen (checked (stream_write_uint32_t h pid s)) (\<lambda>s.
       checked (stream_write_uint16_t h status s)))"

definition receive_message_list_locks_of_process ::
    "byte_order \<Rightarrow> memory \<Rightarrow> conn \<Rightarrow> stream \<Rightarrow> u32 \<Rightarrow> daemon \<Rightarrow> daemon outcome" where
  "receive_message_list_locks_of_process h mem c input len d =
     (if len \<noteq> 4 then Ok d
      else
        andthen (checked (stream_read_uint32_t h input)) (\<lambda>(pid, input).
        listing h mem c MSG_ID_LIST_LOCKS_PROCESS_RESPONSE
          (\<lambda>mem s.
             (case find_process (Process_table (daemon_backend d)) pid of
                None \<Rightarrow> write_pid_status h pid RESPONSE_STATUS_NO_SUCH_PROCESS (mem 0) s
              | Some p \<Rightarrow>
                  andthen (write_pid_status h pid RESPONSE_STATUS_SUCCESS (mem 0) s)
                    (write_each (write_held_lock h) (\<lambda>k. mem (k + 1)) (get_held_locks p)))) d))"

subsection \<open>Processes\<close>

definition reply_stream :: "memory \<Rightarrow> nat \<Rightarrow> (stream \<Rightarrow> 'a outcome) \<Rightarrow> 'a outcome \<Rightarrow> 'a outcome" where
  "reply_stream mem n f failed =
     (case stream_new (mem 0) of
        None \<Rightarrow> failed
      | Some s \<Rightarrow>
          andthen (ended (stream_ensure_remaining_capacity (mem 1) n s)) (\<lambda>(s, ret).
            if ret \<noteq> 0 then failed else f s))"

definition receive_message_register_process ::
    "byte_order \<Rightarrow> memory \<Rightarrow> conn \<Rightarrow> stream \<Rightarrow> daemon \<Rightarrow> daemon outcome" where
  "receive_message_register_process h mem c input d =
     andthen (checked (stream_read_uint32_t h input)) (\<lambda>(nonce, input).
     reply_stream mem 15 (\<lambda>s.
       andthen (andthen (ended (write_message_header (mem 2) h MSG_ID_REG_PROC_RESPONSE 10 s)) checked) (\<lambda>(s, ok).
       andthen (checked (stream_write_uint32_t h nonce s)) (\<lambda>s.
       (case register_process (daemon_backend d) of
          Inr (b, i) \<Rightarrow>
            let d = daemon_update_pid_connection i c (d\<lparr>daemon_backend := b\<rparr>)
            in andthen (checked (stream_write_uint16_t h RESPONSE_STATUS_SUCCESS s)) (\<lambda>s.
               andthen (checked (stream_write_uint32_t h i s)) (\<lambda>s.
               Ok (send_on c s d)))
        | Inl too_many_processes_exception \<Rightarrow>
            andthen (checked (stream_write_uint16_t h RESPONSE_STATUS_TOO_MANY_PROCESSES s)) (\<lambda>s.
            andthen (checked (update_message_length h 11 s)) (\<lambda>s.
            Ok (send_on c s d))))))) Terminated)"

definition unregister_status :: "unregister_code \<Rightarrow> u16" where
  "unregister_status code =
     (case code of
        PROCESS_UNREGISTER_RESULT_SUCCESS \<Rightarrow> RESPONSE_STATUS_SUCCESS
      | PROCESS_UNREGISTER_RESULT_NON_EXISTENT \<Rightarrow> RESPONSE_STATUS_NO_SUCH_PROCESS
      | PROCESS_UNREGISTER_RESULT_HOLDS_LOCKS \<Rightarrow> RESPONSE_STATUS_PROCESS_HOLDS_LOCKS)"

definition receive_message_unregister_process ::
    "byte_order \<Rightarrow> memory \<Rightarrow> (lock_request list \<Rightarrow> lock_request list) \<Rightarrow> conn \<Rightarrow> stream \<Rightarrow>
     daemon \<Rightarrow> daemon outcome" where
  "receive_message_unregister_process h mem arrange c input d =
     andthen (checked (stream_read_uint32_t h input)) (\<lambda>(i, input).
     let d = daemon_update_pid_connection i c d
     in reply_stream mem 11 (\<lambda>s.
       andthen (andthen (ended (write_message_header (mem 2) h MSG_ID_UNREG_PROC_RESPONSE 6 s)) checked) (\<lambda>(s, ok).
       andthen (checked (stream_write_uint32_t h i s)) (\<lambda>s.
       andthen (andthen (ended (unregister_process (daemon_backend d) i)) checked) (\<lambda>(b, code, answered).
       andthen (checked (stream_write_uint16_t h (unregister_status code) s)) (\<lambda>s.
       notify_answered_requests h (\<lambda>k. mem (k + 3)) (arrange answered)
         (send_on c s (d\<lparr>daemon_backend := b\<rparr>))))))) Terminated)"

subsection \<open>Locks\<close>

definition create_status :: "create_lock_result \<Rightarrow> u16" where
  "create_status ret =
     (case ret of
        CREATE_LOCK_RESULT_CREATED \<Rightarrow> RESPONSE_STATUS_SUCCESS
      | CREATE_LOCK_RESULT_QUEUED \<Rightarrow> RESPONSE_STATUS_QUEUED
      | CREATE_LOCK_RESULT_EXISTS \<Rightarrow> RESPONSE_STATUS_LOCK_EXISTS
      | CREATE_LOCK_RESULT_PARENT_NOT_HELD \<Rightarrow> RESPONSE_STATUS_PARENT_NOT_HELD
      | CREATE_LOCK_RESULT_NO_SUCH_PROCESS \<Rightarrow> RESPONSE_STATUS_NO_SUCH_PROCESS)"

text \<open>The three lock messages start alike: process id, path with its length, one byte.\<close>

definition read_lock_message ::
    "byte_order \<Rightarrow> stream \<Rightarrow> (proc \<times> u16 \<times> string \<times> byte \<times> stream) outcome" where
  "read_lock_message h input =
     andthen (checked (stream_read_uint32_t h input)) (\<lambda>(pid, input).
     andthen (checked (stream_read_uint16_t h input)) (\<lambda>(path_length, input).
     andthen (checked (read_path (unat path_length) input)) (\<lambda>(path, input).
     andthen (checked (stream_read_uint8_t input)) (\<lambda>(x, input).
     Ok (pid, path_length, path, x, input)))))"

definition receive_message_create_lock ::
    "byte_order \<Rightarrow> memory \<Rightarrow> conn \<Rightarrow> stream \<Rightarrow> daemon \<Rightarrow> daemon outcome" where
  "receive_message_create_lock h mem c input d =
     andthen (read_lock_message h input) (\<lambda>(pid, path_length, path, x, input).
     let acquire_X = 0 < x;
         d = daemon_update_pid_connection pid c d
     in reply_stream mem (5 + 4 + 2 + unat path_length + 2) (\<lambda>s.
       andthen (andthen (ended (write_message_header (mem 2) h MSG_ID_CREATE_LOCK_UPDATE
           (4 + 2 + ucast path_length + 2) s)) checked) (\<lambda>(s, ok).
       andthen (checked (create_lock (daemon_backend d) pid path acquire_X)) (\<lambda>(b, ret).
       andthen (checked (stream_write_uint32_t h pid s)) (\<lambda>s.
       andthen (checked (stream_write_uint16_t h path_length s)) (\<lambda>s.
       andthen (checked (put_string path s)) (\<lambda>s.
       andthen (checked (stream_write_uint16_t h (create_status ret) s)) (\<lambda>s.
       Ok (send_on c s (d\<lparr>daemon_backend := b\<rparr>))))))))) (Ok d))"

text \<open>
  The answers to release and acquire messages repeat the message and add a status: room for the
  capacity of the input, a header, and everything behind the header of the input.
\<close>

definition remaining_bytes :: "stream \<Rightarrow> fault + byte list" where
  "remaining_bytes s =
     (case s_buffer s of
        None \<Rightarrow> if stream_remaining_length s = 0 then Inr [] else Inl Out_Of_Bounds
      | Some b \<Rightarrow>
          if s_pos s + stream_remaining_length s \<le> length b
          then Inr (take (stream_remaining_length s) (drop (s_pos s) b)) else Inl Out_Of_Bounds)"

definition write_echo :: "byte_order \<Rightarrow> alloc \<Rightarrow> byte \<Rightarrow> stream \<Rightarrow> stream \<Rightarrow> stream outcome" where
  "write_echo h alloc i input s =
     andthen (andthen (ended (write_message_header alloc h i
         (of_nat (s_length input) + 2 - 5) s)) checked) (\<lambda>(s, ok).
     let input = stream_seek 5 input
     in andthen (checked (remaining_bytes input)) (\<lambda>ds.
        andthen (checked (copy_in ds s)) (\<lambda>s.
        Ok (stream_seek (s_length input) (stream_set_length (s_length input) s)))))"

definition receive_message_release_lock ::
    "byte_order \<Rightarrow> memory \<Rightarrow> (lock_request list \<Rightarrow> lock_request list) \<Rightarrow> conn \<Rightarrow> stream \<Rightarrow>
     daemon \<Rightarrow> daemon outcome" where
  "receive_message_release_lock h mem arrange c input d =
     andthen (read_lock_message h input) (\<lambda>(pid, path_length, path, m, input).
     let d = daemon_update_pid_connection pid c d
     in reply_stream mem ((s_capacity input + 2) mod 2 ^ 64) (\<lambda>s.
       andthen (write_echo h (mem 2) MSG_ID_RELEASE_LOCK_RESPONSE input s) (\<lambda>s.
       andthen (checked (release_lock (daemon_backend d) pid path m)) (\<lambda>(b, status, answered).
       andthen (checked (stream_write_uint16_t h status s)) (\<lambda>s.
       notify_answered_requests h (\<lambda>k. mem (k + 3)) (arrange answered)
         (send_on c s (d\<lparr>daemon_backend := b\<rparr>)))))) (Ok d))"

definition receive_message_acquire_lock ::
    "byte_order \<Rightarrow> memory \<Rightarrow> conn \<Rightarrow> stream \<Rightarrow> daemon \<Rightarrow> daemon outcome" where
  "receive_message_acquire_lock h mem c input d =
     andthen (read_lock_message h input) (\<lambda>(pid, path_length, path, m, input).
     let d = daemon_update_pid_connection pid c d
     in reply_stream mem ((s_capacity input + 2) mod 2 ^ 64) (\<lambda>s.
       andthen (write_echo h (mem 2) MSG_ID_ACQUIRE_LOCK_UPDATE input s) (\<lambda>s.
       andthen (checked (acquire_lock (daemon_backend d) pid path m)) (\<lambda>(b, status).
       andthen (checked (stream_write_uint16_t h status s)) (\<lambda>s.
       Ok (send_on c s (d\<lparr>daemon_backend := b\<rparr>)))))) (Ok d))"

subsection \<open>Dispatch\<close>

definition receive_message ::
    "byte_order \<Rightarrow> memory \<Rightarrow> (lock_request list \<Rightarrow> lock_request list) \<Rightarrow> conn \<Rightarrow> stream \<Rightarrow>
     daemon \<Rightarrow> daemon outcome" where
  "receive_message h mem arrange c s d =
     andthen (checked (stream_read_uint8_t s)) (\<lambda>(i, s).
     andthen (checked (stream_read_uint32_t h s)) (\<lambda>(len, s).
     if i = MSG_ID_LIST_CONNS then receive_message_list_connections h mem c d
     else if i = MSG_ID_LIST_PROCS then receive_message_list_processes h mem c d
     else if i = MSG_ID_LIST_LOCKS then receive_message_list_locks h mem c d
     else if i = MSG_ID_LIST_LOCKS_PROCESS then
       receive_message_list_locks_of_process h mem c s len d
     else if i = MSG_ID_REG_PROC then receive_message_register_process h mem c s d
     else if i = MSG_ID_UNREG_PROC then receive_message_unregister_process h mem arrange c s d
     else if i = MSG_ID_CREATE_LOCK then receive_message_create_lock h mem c s d
     else if i = MSG_ID_RELEASE_LOCK then receive_message_release_lock h mem arrange c s d
     else if i = MSG_ID_ACQUIRE_LOCK then receive_message_acquire_lock h mem c s d
     else Ok d))"

end
