(* ===== verification/Client.thy ===== *)
theory Client
  imports Daemon
begin

text \<open>
  The access concentrator of the client library (\<open>src/src/client/Access_Concentrator.cpp\<close>) and
  the request objects it serves (\<open>src/src/client/request.cpp\<close> and the five classes derived from
  it).

  Request objects are shared between the thread that issued them and the thread of the
  communications manager; they are kept in a store, and a pointer to one is a \<open>rid\<close>. The thread
  that waits for the answer owns its request and destroys it when it has the answer, so an access
  through a pointer that is not in the store is \<open>Dangling\<close>. The tables hold pointers, as in the
  code. \<open>std::map::insert\<close> keeps an existing entry.
\<close>

subsection \<open>Requests\<close>

type_synonym rid = nat

datatype request_data =
  register_process_request u32 u32
| unregister_process_request u32
| create_lock_request u32 string bool
| acquire_lock_request u32 string byte
| release_lock_request u32 string byte

record request =
  request_data :: request_data
  answered :: bool
  status_code :: u16

text \<open>The accessors of the classes.\<close>

fun get_nonce :: "request_data \<Rightarrow> u32 option" where
  "get_nonce (register_process_request nonce i) = Some nonce"
| "get_nonce _ = None"

fun get_unregister_id :: "request_data \<Rightarrow> u32 option" where
  "get_unregister_id (unregister_process_request i) = Some i"
| "get_unregister_id _ = None"

fun get_create :: "request_data \<Rightarrow> (u32 \<times> string \<times> bool) option" where
  "get_create (create_lock_request pid path acquire_X) = Some (pid, path, acquire_X)"
| "get_create _ = None"

fun get_acquire :: "request_data \<Rightarrow> (u32 \<times> string \<times> byte) option" where
  "get_acquire (acquire_lock_request pid path m) = Some (pid, path, m)"
| "get_acquire _ = None"

fun get_release :: "request_data \<Rightarrow> (u32 \<times> string \<times> byte) option" where
  "get_release (release_lock_request pid path m) = Some (pid, path, m)"
| "get_release _ = None"

fun set_nonce :: "u32 \<Rightarrow> request_data \<Rightarrow> request_data" where
  "set_nonce nonce (register_process_request n i) = register_process_request nonce i"
| "set_nonce nonce d = d"

fun set_id :: "u32 \<Rightarrow> request_data \<Rightarrow> request_data" where
  "set_id i (register_process_request n j) = register_process_request n i"
| "set_id i d = d"

definition answer :: "u16 \<Rightarrow> request \<Rightarrow> request" where
  "answer code q = q\<lparr>answered := True, status_code := code\<rparr>"

subsection \<open>State\<close>

record access_concentrator =
  ac_connection :: "connection option"
  register_process_next_nonce :: u32
  register_process_requests :: "rid list"
  unregister_process_requests :: "rid list"
  create_lock_requests :: "u32 \<times> string \<Rightarrow> rid option"
  acquire_lock_requests :: "u32 \<times> string \<times> byte \<Rightarrow> rid option"
  release_lock_requests :: "u32 \<times> string \<times> byte \<Rightarrow> rid option"
  request_objects :: "rid \<Rightarrow> request option"

text \<open>An access to a field of the request a pointer leads to.\<close>

definition with_request ::
    "(request_data \<Rightarrow> 'a option) \<Rightarrow> rid \<Rightarrow> access_concentrator \<Rightarrow> ('a \<Rightarrow> 'b outcome) \<Rightarrow> 'b outcome" where
  "with_request get r ac f =
     (case Option.bind (request_objects ac r) (\<lambda>q. get (request_data q)) of
        None \<Rightarrow> Undefined Dangling | Some x \<Rightarrow> f x)"

definition modify_request :: "rid \<Rightarrow> (request \<Rightarrow> request) \<Rightarrow> access_concentrator \<Rightarrow> access_concentrator outcome" where
  "modify_request r f ac =
     (case request_objects ac r of
        None \<Rightarrow> Undefined Dangling
      | Some q \<Rightarrow> Ok (ac\<lparr>request_objects := (request_objects ac)(r \<mapsto> f q)\<rparr>))"

definition answer_request :: "rid \<Rightarrow> u16 \<Rightarrow> access_concentrator \<Rightarrow> access_concentrator outcome" where
  "answer_request r code ac = modify_request r (answer code) ac"

text \<open>\<open>std::map::insert\<close>.\<close>

definition map_insert :: "'k \<Rightarrow> 'v \<Rightarrow> ('k \<Rightarrow> 'v option) \<Rightarrow> 'k \<Rightarrow> 'v option" where
  "map_insert k v m = (case m k of None \<Rightarrow> m(k \<mapsto> v) | Some _ \<Rightarrow> m)"

subsection \<open>Sending messages\<close>

text \<open>
  The result tells if the stream was taken. That \<open>send\<close> has no memory for its queue is not
  distinguished from having none for the message before: the message is dropped either way.
\<close>

definition send_message_tcp :: "stream \<Rightarrow> access_concentrator \<Rightarrow> access_concentrator \<times> bool" where
  "send_message_tcp s ac =
     (case ac_connection ac of
        None \<Rightarrow> (ac, False)
      | Some c \<Rightarrow> (ac\<lparr>ac_connection := Some (send s c)\<rparr>, True))"

definition send_message_auto :: "stream \<Rightarrow> access_concentrator \<Rightarrow> access_concentrator \<times> bool" where
  "send_message_auto s ac = send_message_tcp s ac"

text \<open>Copying the path as two of the senders do it: first the length, then the position.\<close>

definition place_string :: "string \<Rightarrow> stream \<Rightarrow> fault + stream" where
  "place_string path s =
     (case copy_in (bytes_of_string path) s of
        Inl e \<Rightarrow> Inl e
      | Inr s \<Rightarrow>
          let s = stream_set_length (s_pos s + length path) s
          in Inr (stream_seek (s_pos s + length path) s))"

definition send_register_process_request ::
    "byte_order \<Rightarrow> memory \<Rightarrow> rid \<Rightarrow> access_concentrator \<Rightarrow> access_concentrator outcome" where
  "send_register_process_request h mem r ac =
     reply_stream mem 9 (\<lambda>s.
       andthen (andthen (ended (write_message_header (mem 2) h MSG_ID_REG_PROC 4 s)) checked) (\<lambda>(s, ok).
       with_request get_nonce r ac (\<lambda>nonce.
       andthen (checked (stream_write_uint32_t h nonce s)) (\<lambda>s.
       Ok (fst (send_message_auto s ac)))))) (Ok ac)"

definition send_unregister_process_request ::
    "byte_order \<Rightarrow> memory \<Rightarrow> rid \<Rightarrow> access_concentrator \<Rightarrow> access_concentrator outcome" where
  "send_unregister_process_request h mem r ac =
     reply_stream mem 9 (\<lambda>s.
       andthen (andthen (ended (write_message_header (mem 2) h MSG_ID_UNREG_PROC 4 s)) checked) (\<lambda>(s, ok).
       with_request get_unregister_id r ac (\<lambda>i.
       andthen (checked (stream_write_uint32_t h i s)) (\<lambda>s.
       Ok (fst (send_message_auto s ac)))))) (Ok ac)"

definition send_create_lock_request ::
    "byte_order \<Rightarrow> memory \<Rightarrow> rid \<Rightarrow> access_concentrator \<Rightarrow> access_concentrator outcome" where
  "send_create_lock_request h mem r ac =
     with_request get_create r ac (\<lambda>(pid, path, acquire_X).
     reply_stream mem (5 + 4 + 2 + length path + 1) (\<lambda>s.
       andthen (andthen (ended (write_message_header (mem 2) h MSG_ID_CREATE_LOCK
           (of_nat (4 + 2 + length path + 1)) s)) checked) (\<lambda>(s, ok).
       andthen (checked (stream_write_uint32_t h pid s)) (\<lambda>s.
       andthen (checked (stream_write_uint16_t h (of_nat (length path)) s)) (\<lambda>s.
       andthen (checked (put_string path s)) (\<lambda>s.
       andthen (checked (stream_write_uint8_t (if acquire_X then 1 else 0) s)) (\<lambda>s.
       Ok (fst (send_message_auto s ac)))))))) (Ok ac))"

definition send_acquire_lock_request ::
    "byte_order \<Rightarrow> memory \<Rightarrow> rid \<Rightarrow> access_concentrator \<Rightarrow> access_concentrator outcome" where
  "send_acquire_lock_request h mem r ac =
     with_request get_acquire r ac (\<lambda>(pid, path, m).
     reply_stream mem (5 + 4 + 2 + length path + 1) (\<lambda>s.
       andthen (andthen (ended (write_message_header (mem 2) h MSG_ID_ACQUIRE_LOCK
           (of_nat (4 + 2 + length path + 1)) s)) checked) (\<lambda>(s, ok).
       andthen (checked (stream_write_uint32_t h pid s)) (\<lambda>s.
       andthen (checked (stream_write_uint16_t h (of_nat (length path)) s)) (\<lambda>s.
       andthen (checked (place_string path s)) (\<lambda>s.
       andthen (checked (stream_write_uint8_t m s)) (\<lambda>s.
       Ok (fst (send_message_auto s ac)))))))) (Ok ac))"

definition send_release_lock_request ::
    "byte_order \<Rightarrow> memory \<Rightarrow> rid \<Rightarrow> access_concentrator \<Rightarrow> access_concentrator outcome" where
  "send_release_lock_request h mem r ac =
     with_request get_release r ac (\<lambda>(pid, path, m).
     reply_stream mem (5 + 4 + 2 + length path + 1) (\<lambda>s.
       andthen (andthen (ended (write_message_header (mem 2) h MSG_ID_RELEASE_LOCK
           (of_nat (4 + 2 + length path + 1)) s)) checked) (\<lambda>(s, ok).
       andthen (checked (stream_write_uint32_t h pid s)) (\<lambda>s.
       andthen (checked (stream_write_uint16_t h (of_nat (length path)) s)) (\<lambda>s.
       andthen (checked (place_string path s)) (\<lambda>s.
       andthen (checked (stream_write_uint8_t m s)) (\<lambda>s.
       Ok (fst (send_message_auto s ac)))))))) (Ok ac))"

subsection \<open>Issuing requests\<close>

text \<open>
  Every \<open>issue\<close> method first enters the request in its table, under the mutex of the table, and
  then sends it; a registration takes its nonce before. Between these parts other threads may run.
\<close>

definition take_nonce :: "rid \<Rightarrow> access_concentrator \<Rightarrow> access_concentrator outcome" where
  "take_nonce r ac =
     andthen (modify_request r (request_data_update (set_nonce (register_process_next_nonce ac))) ac) (\<lambda>ac.
     Ok (ac\<lparr>register_process_next_nonce :=
           (if register_process_next_nonce ac = 0xFFFFFFFF then 0
            else register_process_next_nonce ac + 1)\<rparr>))"

definition enter_register_process_request :: "rid \<Rightarrow> access_concentrator \<Rightarrow> access_concentrator" where
  "enter_register_process_request r ac =
     ac\<lparr>register_process_requests := register_process_requests ac @ [r]\<rparr>"

definition enter_unregister_process_request :: "rid \<Rightarrow> access_concentrator \<Rightarrow> access_concentrator" where
  "enter_unregister_process_request r ac =
     ac\<lparr>unregister_process_requests := unregister_process_requests ac @ [r]\<rparr>"

definition enter_create_lock_request :: "rid \<Rightarrow> access_concentrator \<Rightarrow> access_concentrator outcome" where
  "enter_create_lock_request r ac =
     with_request get_create r ac (\<lambda>(pid, path, acquire_X).
       Ok (ac\<lparr>create_lock_requests := map_insert (pid, path) r (create_lock_requests ac)\<rparr>))"

definition enter_acquire_lock_request :: "rid \<Rightarrow> access_concentrator \<Rightarrow> access_concentrator outcome" where
  "enter_acquire_lock_request r ac =
     with_request get_acquire r ac (\<lambda>key.
       Ok (ac\<lparr>acquire_lock_requests := map_insert key r (acquire_lock_requests ac)\<rparr>))"

definition enter_release_lock_request :: "rid \<Rightarrow> access_concentrator \<Rightarrow> access_concentrator outcome" where
  "enter_release_lock_request r ac =
     with_request get_release r ac (\<lambda>key.
       Ok (ac\<lparr>release_lock_requests := map_insert key r (release_lock_requests ac)\<rparr>))"

definition issue_register_process_request ::
    "byte_order \<Rightarrow> memory \<Rightarrow> rid \<Rightarrow> access_concentrator \<Rightarrow> access_concentrator outcome" where
  "issue_register_process_request h mem r ac =
     andthen (take_nonce r ac) (\<lambda>ac.
     send_register_process_request h mem r (enter_register_process_request r ac))"

definition issue_unregister_process_request ::
    "byte_order \<Rightarrow> memory \<Rightarrow> rid \<Rightarrow> access_concentrator \<Rightarrow> access_concentrator outcome" where
  "issue_unregister_process_request h mem r ac =
     send_unregister_process_request h mem r (enter_unregister_process_request r ac)"

definition issue_create_lock_request ::
    "byte_order \<Rightarrow> memory \<Rightarrow> rid \<Rightarrow> access_concentrator \<Rightarrow> access_concentrator outcome" where
  "issue_create_lock_request h mem r ac =
     andthen (enter_create_lock_request r ac) (send_create_lock_request h mem r)"

definition issue_acquire_lock_request ::
    "byte_order \<Rightarrow> memory \<Rightarrow> rid \<Rightarrow> access_concentrator \<Rightarrow> access_concentrator outcome" where
  "issue_acquire_lock_request h mem r ac =
     andthen (enter_acquire_lock_request r ac) (send_acquire_lock_request h mem r)"

definition issue_release_lock_request ::
    "byte_order \<Rightarrow> memory \<Rightarrow> rid \<Rightarrow> access_concentrator \<Rightarrow> access_concentrator outcome" where
  "issue_release_lock_request h mem r ac =
     andthen (enter_release_lock_request r ac) (send_release_lock_request h mem r)"

text \<open>The virtual method \<open>issue\<close> up to the point where it waits for the answer.\<close>

definition issue ::
    "byte_order \<Rightarrow> memory \<Rightarrow> rid \<Rightarrow> access_concentrator \<Rightarrow> access_concentrator outcome" where
  "issue h mem r ac =
     with_request Some r ac (\<lambda>d.
       (case d of
          register_process_request _ _ \<Rightarrow> issue_register_process_request h mem r ac
        | unregister_process_request _ \<Rightarrow> issue_unregister_process_request h mem r ac
        | create_lock_request _ _ _ \<Rightarrow> issue_create_lock_request h mem r ac
        | acquire_lock_request _ _ _ \<Rightarrow> issue_acquire_lock_request h mem r ac
        | release_lock_request _ _ _ \<Rightarrow> issue_release_lock_request h mem r ac))"

subsection \<open>Receiving messages\<close>

text \<open>The search loop: the first pointer whose request matches.\<close>

fun find_request :: "(request_data \<Rightarrow> bool) \<Rightarrow> access_concentrator \<Rightarrow> rid list \<Rightarrow> rid option outcome" where
  "find_request P ac [] = Ok None"
| "find_request P ac (r # rs) =
     (case request_objects ac r of
        None \<Rightarrow> Undefined Dangling
      | Some q \<Rightarrow> if P (request_data q) then Ok (Some r) else find_request P ac rs)"

definition receive_register_process_response ::
    "byte_order \<Rightarrow> stream \<Rightarrow> access_concentrator \<Rightarrow> access_concentrator outcome" where
  "receive_register_process_response h s ac =
     andthen (checked (stream_read_uint32_t h s)) (\<lambda>(nonce, s).
     andthen (checked (stream_read_uint16_t h s)) (\<lambda>(code, s).
     andthen (find_request (\<lambda>d. get_nonce d = Some nonce) ac (register_process_requests ac)) (\<lambda>found.
     (case found of
        None \<Rightarrow> Ok ac
      | Some r \<Rightarrow>
          let ac = ac\<lparr>register_process_requests := remove1 r (register_process_requests ac)\<rparr>
          in andthen
               (if code = RESPONSE_STATUS_SUCCESS \<and> 4 \<le> stream_remaining_length s
                then andthen (checked (stream_read_uint32_t h s)) (\<lambda>(i, s).
                     modify_request r (request_data_update (set_id i)) ac)
                else Ok ac)
               (answer_request r code)))))"

definition receive_unregister_process_response ::
    "byte_order \<Rightarrow> stream \<Rightarrow> access_concentrator \<Rightarrow> access_concentrator outcome" where
  "receive_unregister_process_response h s ac =
     andthen (checked (stream_read_uint32_t h s)) (\<lambda>(i, s).
     andthen (checked (stream_read_uint16_t h s)) (\<lambda>(code, s).
     andthen (find_request (\<lambda>d. get_unregister_id d = Some i) ac (unregister_process_requests ac)) (\<lambda>found.
     (case found of
        None \<Rightarrow> Ok ac
      | Some r \<Rightarrow>
          answer_request r code
            (ac\<lparr>unregister_process_requests := remove1 r (unregister_process_requests ac)\<rparr>)))))"

definition receive_create_lock_update ::
    "byte_order \<Rightarrow> stream \<Rightarrow> access_concentrator \<Rightarrow> access_concentrator outcome" where
  "receive_create_lock_update h s ac =
     andthen (checked (stream_read_uint32_t h s)) (\<lambda>(pid, s).
     andthen (checked (stream_read_uint16_t h s)) (\<lambda>(path_length, s).
     andthen (checked (read_path (unat path_length) s)) (\<lambda>(path, s).
     andthen (checked (stream_read_uint16_t h s)) (\<lambda>(code, s).
     (case create_lock_requests ac (pid, path) of
        None \<Rightarrow> Ok ac
      | Some r \<Rightarrow>
          if code \<noteq> RESPONSE_STATUS_QUEUED
          then answer_request r code
                 (ac\<lparr>create_lock_requests := (create_lock_requests ac)((pid, path) := None)\<rparr>)
          else Ok ac)))))"

definition receive_acquire_lock_update ::
    "byte_order \<Rightarrow> stream \<Rightarrow> access_concentrator \<Rightarrow> access_concentrator outcome" where
  "receive_acquire_lock_update h s ac =
     andthen (checked (stream_read_uint32_t h s)) (\<lambda>(pid, s).
     andthen (checked (stream_read_uint16_t h s)) (\<lambda>(path_length, s).
     andthen (checked (read_path (unat path_length) s)) (\<lambda>(path, s).
     andthen (checked (stream_read_uint8_t s)) (\<lambda>(m, s).
     andthen (checked (stream_read_uint16_t h s)) (\<lambda>(code, s).
     (case acquire_lock_requests ac (pid, path, m) of
        None \<Rightarrow> Ok ac
      | Some r \<Rightarrow>
          if code \<noteq> RESPONSE_STATUS_QUEUED
          then answer_request r code
                 (ac\<lparr>acquire_lock_requests := (acquire_lock_requests ac)((pid, path, m) := None)\<rparr>)
          else Ok ac))))))"

definition receive_release_lock_response ::
    "byte_order \<Rightarrow> stream \<Rightarrow> access_concentrator \<Rightarrow> access_concentrator outcome" where
  "receive_release_lock_response h s ac =
     andthen (checked (stream_read_uint32_t h s)) (\<lambda>(pid, s).
     andthen (checked (stream_read_uint16_t h s)) (\<lambda>(path_length, s).
     andthen (checked (read_path (unat path_length) s)) (\<lambda>(path, s).
     andthen (checked (stream_read_uint8_t s)) (\<lambda>(m, s).
     andthen (checked (stream_read_uint16_t h s)) (\<lambda>(code, s).
     (case release_lock_requests ac (pid, path, m) of
        None \<Rightarrow> Ok ac
      | Some r \<Rightarrow>
          answer_request r code
            (ac\<lparr>release_lock_requests := (release_lock_requests ac)((pid, path, m) := None)\<rparr>)))))))"

definition receive_message_tcp ::
    "byte_order \<Rightarrow> stream \<Rightarrow> access_concentrator \<Rightarrow> access_concentrator outcome" where
  "receive_message_tcp h s ac =
     andthen (checked (stream_read_uint8_t s)) (\<lambda>(i, s).
     andthen (checked (stream_read_uint32_t h s)) (\<lambda>(len, s).
     if i = MSG_ID_REG_PROC_RESPONSE then receive_register_process_response h s ac
     else if i = MSG_ID_UNREG_PROC_RESPONSE then receive_unregister_process_response h s ac
     else if i = MSG_ID_CREATE_LOCK_UPDATE then receive_create_lock_update h s ac
     else if i = MSG_ID_ACQUIRE_LOCK_UPDATE then receive_acquire_lock_update h s ac
     else if i = MSG_ID_RELEASE_LOCK_RESPONSE then receive_release_lock_response h s ac
     else Ok ac))"

text \<open>
  The loop at the end of every \<open>issue\<close>: the thread waits until the request is answered, then
  it has the status code, and the request is destroyed.
\<close>

definition await_answer :: "rid \<Rightarrow> access_concentrator \<Rightarrow> (access_concentrator \<times> request) option outcome" where
  "await_answer r ac =
     (case request_objects ac r of
        None \<Rightarrow> Undefined Dangling
      | Some q \<Rightarrow>
          Ok (if answered q then Some (ac\<lparr>request_objects := (request_objects ac)(r := None)\<rparr>, q)
              else None))"

subsection \<open>Connecting\<close>

datatype address_family = AF_INET | AF_INET6 | AF_Other

text \<open>
  An address that \<open>getaddrinfo\<close> returned, with what the system calls answer when it is tried:
  the file descriptor of \<open>socket\<close>, whether \<open>connect\<close> succeeds and whether there is memory
  for the connection object.
\<close>

record address =
  ai_family :: address_family
  socket_fd :: int
  connects :: bool
  connection_made :: bool

text \<open>The loop of \<open>create_tcp_connection\<close>: the descriptor of the connection and those closed.\<close>

fun try_addresses :: "address list \<Rightarrow> int option \<times> int list" where
  "try_addresses [] = (None, [])"
| "try_addresses (ai # ais) =
     (if ai_family ai = AF_INET \<or> ai_family ai = AF_INET6 then
        (if socket_fd ai \<noteq> 0 then
           (if connects ai then
              (if ai_family ai = AF_INET then
                 (if connection_made ai then (Some (socket_fd ai), []) else (None, [socket_fd ai]))
               else (None, [socket_fd ai]))
            else let (c, closed) = try_addresses ais in (c, socket_fd ai # closed))
         else try_addresses ais)
      else try_addresses ais)"

text \<open>
  \<open>lookup\<close> is the answer of \<open>getaddrinfo\<close>, \<open>added\<close> that of \<open>add_polled_fd\<close>. A
  connection that was not added is destroyed, which closes its descriptor. The result is the
  concentrator, the return value, the descriptor in use and the descriptors closed.
\<close>

definition create_tcp_connection ::
    "address list option \<Rightarrow> bool \<Rightarrow> access_concentrator \<Rightarrow>
     access_concentrator \<times> bool \<times> int option \<times> int list" where
  "create_tcp_connection lookup added ac =
     (if ac_connection ac \<noteq> None then (ac, True, None, [])
      else
        (let (c, closed) = (case lookup of None \<Rightarrow> (None, []) | Some ais \<Rightarrow> try_addresses ais)
         in (case c of
               None \<Rightarrow> (ac, False, None, closed)
             | Some fd \<Rightarrow>
                 if added
                 then (ac\<lparr>ac_connection := Some (set_receive_callback connection_new)\<rparr>, True, Some fd, closed)
                 else (ac, False, None, closed @ [fd]))))"

end
