(* ===== verification/Client_Api.thy ===== *)
theory Client_Api
  imports Client
begin

text \<open>
  The classes an application uses: \<open>tclmc\<close>, \<open>Process\<close> and \<open>Lock\<close>
  (\<open>src/src/client/tclmc_impl.cpp\<close>, \<open>Process_impl.cpp\<close>, \<open>Lock_impl.cpp\<close>,
  \<open>tclm_client.cpp\<close>). Every operation constructs a request, issues it, waits for the status
  code and returns or throws accordingly. The model has the two ends of a call: the part up to the
  wait, and what the call does with the status code.
\<close>

datatype client_exception =
  cannot_connect_exception string u16 string
| too_many_processes
| process_holds_locks_exception
| no_such_process_exception
| lock_not_held_exception
| no_such_lock_exception
| parent_not_held_exception
| unknown_status

text \<open>The texts of the exceptions; \<open>show\<close> is \<open>to_string\<close>.\<close>

fun exception_what :: "(u16 \<Rightarrow> string) \<Rightarrow> client_exception \<Rightarrow> string option" where
  "exception_what show (cannot_connect_exception servername port protocol) =
     Some (''Cannot `connect' to server '' @ [CHR 0x22] @ servername @ '':'' @ show port @ [CHR 0x22] @
       '' using protocol '' @ protocol @ ''.'')"
| "exception_what show too_many_processes = Some ''Too many processes.''"
| "exception_what show process_holds_locks_exception = Some ''Process holds locks.''"
| "exception_what show no_such_process_exception = Some ''No such process.''"
| "exception_what show lock_not_held_exception = Some ''Lock not held in this mode.''"
| "exception_what show no_such_lock_exception = Some ''No such lock.''"
| "exception_what show parent_not_held_exception = Some ''None of the parent locks are held.''"
| "exception_what show unknown_status = None"

record lock_impl =
  lock_path :: string

record process_impl =
  process_id :: u32

subsection \<open>Status codes\<close>

definition create_returns :: "u16 \<Rightarrow> client_exception + bool" where
  "create_returns code =
     (if code = RESPONSE_STATUS_SUCCESS then Inr True
      else if code = RESPONSE_STATUS_LOCK_EXISTS then Inr False
      else if code = RESPONSE_STATUS_PARENT_NOT_HELD then Inl parent_not_held_exception
      else Inl no_such_process_exception)"

definition acquire_returns :: "u16 \<Rightarrow> client_exception + unit" where
  "acquire_returns code =
     (if code = RESPONSE_STATUS_SUCCESS then Inr ()
      else if code = RESPONSE_STATUS_NO_SUCH_PROCESS then Inl no_such_process_exception
      else Inl no_such_lock_exception)"

definition release_returns :: "u16 \<Rightarrow> client_exception + unit" where
  "release_returns code =
     (if code = RESPONSE_STATUS_SUCCESS then Inr ()
      else if code = RESPONSE_STATUS_NO_SUCH_PROCESS then Inl no_such_process_exception
      else Inl lock_not_held_exception)"

definition register_process_returns :: "request \<Rightarrow> client_exception + process_impl" where
  "register_process_returns q =
     (if status_code q = RESPONSE_STATUS_SUCCESS then
        (case request_data q of
           register_process_request nonce i \<Rightarrow> Inr \<lparr>process_id = i\<rparr>
         | _ \<Rightarrow> Inl unknown_status)
      else if status_code q = RESPONSE_STATUS_TOO_MANY_PROCESSES then Inl too_many_processes
      else Inl unknown_status)"

subsection \<open>Calls\<close>

text \<open>
  \<open>make_unique<..._request> (...)\<close> at the address \<open>r\<close>; the status code, the nonce and the
  id of a registration are not initialised, so they are arguments.
\<close>

definition construct_request :: "rid \<Rightarrow> request_data \<Rightarrow> u16 \<Rightarrow> access_concentrator \<Rightarrow> access_concentrator" where
  "construct_request r d code ac =
     ac\<lparr>request_objects := (request_objects ac)(r \<mapsto>
        \<lparr>request_data = d, answered = False, status_code = code\<rparr>)\<rparr>"

definition call ::
    "byte_order \<Rightarrow> memory \<Rightarrow> rid \<Rightarrow> request_data \<Rightarrow> u16 \<Rightarrow> access_concentrator \<Rightarrow> access_concentrator outcome" where
  "call h mem r d code ac = issue h mem r (construct_request r d code ac)"

definition Lock_impl_create ::
    "byte_order \<Rightarrow> memory \<Rightarrow> rid \<Rightarrow> u16 \<Rightarrow> lock_impl \<Rightarrow> process_impl \<Rightarrow> bool \<Rightarrow> access_concentrator \<Rightarrow>
     access_concentrator outcome" where
  "Lock_impl_create h mem r code l p acquire_X ac =
     call h mem r (create_lock_request (process_id p) (lock_path l) acquire_X) code ac"

definition Lock_impl_acquire ::
    "byte_order \<Rightarrow> memory \<Rightarrow> rid \<Rightarrow> u16 \<Rightarrow> lock_impl \<Rightarrow> process_impl \<Rightarrow> byte \<Rightarrow> access_concentrator \<Rightarrow>
     access_concentrator outcome" where
  "Lock_impl_acquire h mem r code l p m ac =
     call h mem r (acquire_lock_request (process_id p) (lock_path l) m) code ac"

definition Lock_impl_acquire_S ::
    "byte_order \<Rightarrow> memory \<Rightarrow> rid \<Rightarrow> u16 \<Rightarrow> lock_impl \<Rightarrow> process_impl \<Rightarrow> access_concentrator \<Rightarrow>
     access_concentrator outcome" where
  "Lock_impl_acquire_S h mem r code l p ac = Lock_impl_acquire h mem r code l p MSG_LOCK_MODE_S ac"

definition Lock_impl_acquire_Splus ::
    "byte_order \<Rightarrow> memory \<Rightarrow> rid \<Rightarrow> u16 \<Rightarrow> lock_impl \<Rightarrow> process_impl \<Rightarrow> access_concentrator \<Rightarrow>
     access_concentrator outcome" where
  "Lock_impl_acquire_Splus h mem r code l p ac = Lock_impl_acquire h mem r code l p MSG_LOCK_MODE_Splus ac"

definition Lock_impl_acquire_X ::
    "byte_order \<Rightarrow> memory \<Rightarrow> rid \<Rightarrow> u16 \<Rightarrow> lock_impl \<Rightarrow> process_impl \<Rightarrow> access_concentrator \<Rightarrow>
     access_concentrator outcome" where
  "Lock_impl_acquire_X h mem r code l p ac = Lock_impl_acquire h mem r code l p MSG_LOCK_MODE_X ac"

definition Lock_impl_release ::
    "byte_order \<Rightarrow> memory \<Rightarrow> rid \<Rightarrow> u16 \<Rightarrow> lock_impl \<Rightarrow> process_impl \<Rightarrow> byte \<Rightarrow> access_concentrator \<Rightarrow>
     access_concentrator outcome" where
  "Lock_impl_release h mem r code l p m ac =
     call h mem r (release_lock_request (process_id p) (lock_path l) m) code ac"

definition Lock_impl_release_S ::
    "byte_order \<Rightarrow> memory \<Rightarrow> rid \<Rightarrow> u16 \<Rightarrow> lock_impl \<Rightarrow> process_impl \<Rightarrow> access_concentrator \<Rightarrow>
     access_concentrator outcome" where
  "Lock_impl_release_S h mem r code l p ac = Lock_impl_release h mem r code l p MSG_LOCK_MODE_S ac"

definition Lock_impl_release_Splus ::
    "byte_order \<Rightarrow> memory \<Rightarrow> rid \<Rightarrow> u16 \<Rightarrow> lock_impl \<Rightarrow> process_impl \<Rightarrow> access_concentrator \<Rightarrow>
     access_concentrator outcome" where
  "Lock_impl_release_Splus h mem r code l p ac = Lock_impl_release h mem r code l p MSG_LOCK_MODE_Splus ac"

definition Lock_impl_release_X ::
    "byte_order \<Rightarrow> memory \<Rightarrow> rid \<Rightarrow> u16 \<Rightarrow> lock_impl \<Rightarrow> process_impl \<Rightarrow> access_concentrator \<Rightarrow>
     access_concentrator outcome" where
  "Lock_impl_release_X h mem r code l p ac = Lock_impl_release h mem r code l p MSG_LOCK_MODE_X ac"

definition Lock_impl_destroy :: "lock_impl \<Rightarrow> process_impl \<Rightarrow> access_concentrator \<Rightarrow> access_concentrator" where
  "Lock_impl_destroy l p ac = ac"

text \<open>The destructor unregisters the process and ignores the status code.\<close>

definition Process_impl_destroy ::
    "byte_order \<Rightarrow> memory \<Rightarrow> rid \<Rightarrow> u16 \<Rightarrow> process_impl \<Rightarrow> access_concentrator \<Rightarrow>
     access_concentrator outcome" where
  "Process_impl_destroy h mem r code p ac = call h mem r (unregister_process_request (process_id p)) code ac"

definition tclmc_register_process ::
    "byte_order \<Rightarrow> memory \<Rightarrow> rid \<Rightarrow> u16 \<Rightarrow> u32 \<Rightarrow> u32 \<Rightarrow> access_concentrator \<Rightarrow>
     access_concentrator outcome" where
  "tclmc_register_process h mem r code nonce i ac = call h mem r (register_process_request nonce i) code ac"

definition tclmc_define_lock :: "string \<Rightarrow> lock_impl" where
  "tclmc_define_lock path = \<lparr>lock_path = path\<rparr>"

subsection \<open>Connecting\<close>

definition access_concentrator_new :: access_concentrator where
  "access_concentrator_new =
     \<lparr>ac_connection = None, register_process_next_nonce = 0, register_process_requests = [],
      unregister_process_requests = [], create_lock_requests = (\<lambda>_. None),
      acquire_lock_requests = (\<lambda>_. None), release_lock_requests = (\<lambda>_. None),
      request_objects = (\<lambda>_. None)\<rparr>"

text \<open>The constructor of the access concentrator.\<close>

definition Access_Concentrator_create ::
    "address list option \<Rightarrow> bool \<Rightarrow> string \<Rightarrow> u16 \<Rightarrow> client_exception + access_concentrator" where
  "Access_Concentrator_create lookup added servername tcp_port =
     (case create_tcp_connection lookup added access_concentrator_new of
        (ac, ok, _) \<Rightarrow>
          if ok then Inr ac else Inl (cannot_connect_exception servername tcp_port ''tcp''))"

definition SERVER_TCP_PORT :: u16 where
  "SERVER_TCP_PORT = 30001"

text \<open>\<open>tclmc::create\<close>: the ports that the concentrator is constructed with.\<close>

definition tclmc_create ::
    "address list option \<Rightarrow> bool \<Rightarrow> string \<Rightarrow> u16 \<Rightarrow> u16 \<Rightarrow>
     client_exception + access_concentrator \<times> u16 \<times> u16" where
  "tclmc_create lookup added servername tcp_port udp_port =
     (let (tcp, udp) =
        (if tcp_port \<noteq> 0 then (if udp_port \<noteq> 0 then (tcp_port, udp_port) else (tcp_port, 0))
         else (SERVER_TCP_PORT, 0))
      in (case Access_Concentrator_create lookup added servername tcp of
            Inl e \<Rightarrow> Inl e | Inr ac \<Rightarrow> Inr (ac, tcp, udp)))"

end
