(* ===== verification/Framing.thy ===== *)
theory Framing
  imports Connection
begin

text \<open>
  The receive side of a connection against a reference definition of the framing: a message is a
  five-byte header (identifier and big-endian length of the rest) followed by that many bytes.
  When memory is available and no declared length overflows \<open>uint32_t\<close>, the loop ends, hands
  exactly the complete messages to the callback, in order, and keeps the incomplete rest; so how
  the bytes were split into \<open>read\<close> calls does not matter.
\<close>

subsection \<open>Reference framing\<close>

definition message_length :: "byte list \<Rightarrow> nat" where
  "message_length bs = 5 + unat (from_bytes (take 4 (drop 1 bs)) :: u32)"

definition complete :: "byte list \<Rightarrow> bool" where
  "complete bs \<longleftrightarrow> 5 \<le> length bs \<and> message_length bs \<le> length bs"

function frames :: "byte list \<Rightarrow> byte list list \<times> byte list" where
  "frames bs =
     (if complete bs then
        (case frames (drop (message_length bs) bs) of
           (ms, rest) \<Rightarrow> (take (message_length bs) bs # ms, rest))
      else ([], bs))"
  by pat_completeness auto
termination
  by (relation "measure length") (auto simp: complete_def message_length_def)

declare frames.simps [simp del]

text \<open>No header declares a message of $2^{32}$ bytes or more.\<close>

function sane :: "byte list \<Rightarrow> bool" where
  "sane bs \<longleftrightarrow> length bs < 5 \<or>
     message_length bs < 2 ^ 32 \<and> (complete bs \<longrightarrow> sane (drop (message_length bs) bs))"
  by pat_completeness auto
termination
  by (relation "measure length") (auto simp: complete_def message_length_def)

declare sane.simps [simp del]

lemma sane_Nil [simp]: "sane []"
  by (subst sane.simps) simp

lemma message_length_append: "5 \<le> length bs \<Longrightarrow> message_length (bs @ cs) = message_length bs"
  by (simp add: message_length_def)

lemma complete_append: "complete bs \<Longrightarrow> complete (bs @ cs)"
  by (simp add: complete_def message_length_append)

text \<open>Framing what came first and then the rest with what came later.\<close>

lemma frames_append:
  "frames (bs @ cs) =
     (case frames bs of (ms, rest) \<Rightarrow>
        (case frames (rest @ cs) of (ms', rest') \<Rightarrow> (ms @ ms', rest')))"
proof (induction bs rule: frames.induct)
  case (1 bs)
  show ?case
  proof (cases "complete bs")
    case False
    then show ?thesis by (simp add: frames.simps[of bs] split: prod.split)
  next
    case True
    then have len: "5 \<le> length bs" "message_length bs \<le> length bs" by (auto simp: complete_def)
    from 1[OF True] True complete_append[OF True, of cs] len show ?thesis
      by (simp add: frames.simps[of "bs @ cs"] frames.simps[of bs] message_length_append split: prod.splits)
  qed
qed

lemma frames_rest_length: "length (snd (frames bs)) \<le> length bs"
  by (induction bs rule: frames.induct) (subst frames.simps, auto split: prod.splits)

lemma sane_append: "sane (bs @ cs) \<Longrightarrow> sane bs \<and> sane (snd (frames bs) @ cs)"
proof (induction bs rule: frames.induct)
  case (1 bs)
  show ?case
  proof (cases "complete bs")
    case False
    with 1(2) message_length_append[of bs cs] show ?thesis
      by (cases "length bs < 5") (auto simp: frames.simps[of bs] sane.simps[of bs] sane.simps[of "bs @ cs"])
  next
    case True
    then have len: "5 \<le> length bs" "message_length bs \<le> length bs" by (auto simp: complete_def)
    from 1(2) True complete_append[OF True, of cs] len
    have "sane (drop (message_length bs) bs @ cs)" "message_length bs < 2 ^ 32"
      by (auto simp: sane.simps[of "bs @ cs"] message_length_append)
    with 1(1)[OF True] True show ?thesis
      by (auto simp: frames.simps[of bs] sane.simps[of bs] split: prod.splits)
  qed
qed

subsection \<open>Copying received bytes to a stream\<close>

lemma copy_in_ok:
  assumes "stream_inv s" "s_buffer s = Some b" "s_pos s + length ds \<le> s_capacity s"
  shows "copy_in ds s = Inr (s\<lparr>s_buffer := Some (take (s_pos s) b @ ds @ drop (s_pos s + length ds) b)\<rparr>)"
  using assms by (simp add: copy_in_def stream_inv_def)

lemma filled_reading:
  assumes "stream_inv s" "s_buffer s = Some b" "s_pos s + length ds \<le> s_capacity s"
    and "n = s_pos s + length ds" "n < 2 ^ 63"
  shows "reading (stream_set_length n (stream_seek 0
      (s\<lparr>s_buffer := Some (take (s_pos s) b @ ds @ drop (s_pos s + length ds) b)\<rparr>)))
    (take (s_pos s) b @ ds) 0"
  using assms by (auto simp: reading_def stream_inv_def stream_contents_def stream_set_length_def stream_seek_def)

definition mem_ok :: "memory \<Rightarrow> bool" where
  "mem_ok mem \<longleftrightarrow> (\<forall>k n. \<exists>b. mem k n = Some b \<and> length b = n)"

lemma mem_ok_alloc: "mem_ok mem \<Longrightarrow> alloc_ok (mem k)"
  unfolding mem_ok_def alloc_ok_def by (metis option.inject)

lemma mem_ok_new: "mem_ok mem \<Longrightarrow>
  stream_new (mem k) = Some \<lparr>s_buffer = None, s_pos = 0, s_length = 0, s_capacity = 0\<rparr>"
  by (auto simp: mem_ok_def stream_new_def split: option.splits)

text \<open>With memory available, a capacity request below $2^{63}$ succeeds.\<close>

lemma mem_ok_ensure:
  assumes "mem_ok mem" "stream_inv s" "l + s_pos s < 2 ^ 63"
  shows "\<exists>s'. stream_ensure_remaining_capacity (mem k) l s = Some (s', 0) \<and> stream_inv s' \<and>
    (0 < l \<longrightarrow> s_pos s + l \<le> s_capacity s') \<and> s_capacity s \<le> s_capacity s' \<and> s_pos s' = s_pos s \<and>
    s_length s' = s_length s \<and> stream_contents s' = stream_contents s \<and> (0 < l \<longrightarrow> s_buffer s' \<noteq> None)"
proof -
  have l: "l + s_pos s < 2 ^ 64" using assms(3) by simp
  obtain s' ret where e: "stream_ensure_remaining_capacity (mem k) l s = Some (s', ret)"
    "ret = 0 \<and> (0 < l \<longrightarrow> s_pos s' + l \<le> s_capacity s') \<and> s_capacity s \<le> s_capacity s' \<or> ret = -1 \<and> s' = s"
    "stream_inv s'" "s_pos s' = s_pos s" "s_length s' = s_length s" "stream_contents s' = stream_contents s"
    using ensure_capacity_correct[OF assms(2) mem_ok_alloc[OF assms(1)] l] by blast
  have ne: "mem k n = Some (the (mem k n))" for n using assms(1) by (simp add: mem_ok_def) (metis option.sel)
  have "ret \<noteq> -1"
  proof (cases "s_buffer s")
    case None
    show ?thesis
      using e(1) None ne[of l] ne[of "2 ^ (64 - clzl l)"]
      by (auto simp: stream_ensure_remaining_capacity_def Let_def split: if_splits option.splits)
  next
    case (Some b)
    then have "s_capacity s < 2 ^ 64" using assms(2) by (simp add: stream_inv_def)
    note g = grow_bounds(3)[OF _ this, of "l + s_pos s"]
    show ?thesis
    proof
      assume "ret = -1"
      with e(1) Some l obtain nc where nc: "grow (l + s_pos s) (s_capacity s) = Some nc"
        "nc < l + s_pos s \<or> mem k nc = None"
        by (auto simp: stream_ensure_remaining_capacity_def Let_def bind_eq_Some_conv
            split: if_splits option.splits)
      with g[OF nc(1)] ne[of nc] assms(3) show False by auto
    qed
  qed
  moreover have "0 < l \<longrightarrow> s_buffer s' \<noteq> None" if "0 < l \<longrightarrow> s_pos s' + l \<le> s_capacity s'"
    using that e(3) by (auto simp: stream_inv_def split: option.splits)
  ultimately show ?thesis using e by auto
qed

subsection \<open>One pass of the loop\<close>

definition conn_inv :: "connection \<Rightarrow> bool" where
  "conn_inv c \<longleftrightarrow> rb_inv (receive_buffer c) \<and>
     (wanted_ib_size c \<noteq> 0 \<longrightarrow> 5 \<le> length (rb_bytes (receive_buffer c)) \<and>
        unat (wanted_ib_size c) = message_length (rb_bytes (receive_buffer c)))"

abbreviation received :: "connection \<Rightarrow> byte list" where
  "received c \<equiv> rb_bytes (receive_buffer c)"

lemma conn_inv_remove:
  "rb_inv (receive_buffer c) \<Longrightarrow> conn_inv (c\<lparr>receive_buffer := rb_remove n (receive_buffer c), wanted_ib_size := 0\<rparr>)"
  by (simp add: conn_inv_def rb.qremove_ok)

lemma unat_wanted:
  "message_length bs < 2 ^ 32 \<Longrightarrow> unat (5 + (from_bytes (take 4 (drop 1 bs)) :: u32)) = message_length bs"
  by (simp add: message_length_def unat_word_ariths)

text \<open>Reading the rest of the message behind a part that is in the stream already.\<close>

lemma read_into_ok:
  assumes "rb_inv (receive_buffer c)" "stream_inv s" "s_buffer s = Some b"
    and "n \<le> length (received c)" "s_pos s + n \<le> s_capacity s" "s_pos s + n < 2 ^ 63"
  shows "\<exists>s'. read_into n c s = Inr (c\<lparr>receive_buffer := rb_remove n (receive_buffer c)\<rparr>, s') \<and>
    reading (stream_set_length (s_pos s + n) (stream_seek 0 s')) (take (s_pos s) b @ take n (received c)) 0 \<and>
    s_pos s' = s_pos s"
proof -
  let ?ds = "take n (received c)"
  let ?s = "s\<lparr>s_buffer := Some (take (s_pos s) b @ ?ds @ drop (s_pos s + n) b)\<rparr>"
  have len: "length ?ds = n" using assms(4) by simp
  have "read_into n c s = Inr (c\<lparr>receive_buffer := rb_remove n (receive_buffer c)\<rparr>, ?s)"
    using copy_in_ok[OF assms(2,3), of ?ds] assms(1,5) len by (simp add: read_into_def rb.qread_bytes)
  moreover have "reading (stream_set_length (s_pos s + n) (stream_seek 0 ?s)) (take (s_pos s) b @ ?ds) 0"
    using filled_reading[OF assms(2,3), of ?ds "s_pos s + n", unfolded len] assms(5,6) by blast
  ultimately show ?thesis by (intro exI[of _ ?s]) simp
qed

lemma receive_body_ok:
  assumes "conn_inv c" "wanted_ib_size c \<noteq> 0" "has_receive_callback c" "mem_ok mem"
    and "complete (received c)"
  shows "\<exists>s. receive_body (mem k) (mem k') c =
      Some (Inr (c\<lparr>receive_buffer := rb_remove (message_length (received c)) (receive_buffer c),
        wanted_ib_size := 0\<rparr>, Some s, True)) \<and>
    reading s (take (message_length (received c)) (received c)) 0"
proof -
  let ?n = "message_length (received c)"
  have n: "unat (wanted_ib_size c) = ?n" "?n \<le> length (received c)" "rb_inv (receive_buffer c)" "0 < ?n"
    using assms by (auto simp: conn_inv_def complete_def message_length_def)
  have lt: "?n < 2 ^ 63" unfolding n(1)[symmetric] using unsigned_less[of "wanted_ib_size c", where ?'a = nat] by simp
  let ?s0 = "\<lparr>s_buffer = None, s_pos = 0, s_length = 0, s_capacity = 0\<rparr>"
  have inv0: "stream_inv ?s0" by (simp add: stream_inv_def)
  obtain s where s: "stream_ensure_remaining_capacity (mem k') ?n ?s0 = Some (s, 0)" "stream_inv s"
    "?n \<le> s_capacity s" "s_pos s = 0" "s_buffer s \<noteq> None"
    using mem_ok_ensure[OF assms(4) inv0, of ?n k'] lt n(4) by auto
  then obtain b where b: "s_buffer s = Some b" by auto
  obtain s' where "read_into ?n c s = Inr (c\<lparr>receive_buffer := rb_remove ?n (receive_buffer c)\<rparr>, s')"
    "reading (stream_set_length ?n (stream_seek 0 s')) (take ?n (received c)) 0" "s_pos s' = 0"
    using read_into_ok[OF n(3) s(2) b n(2)] s(3,4) lt by auto
  moreover from this have "stream_seek 0 s' = s'" by (simp add: stream_seek_def)
  ultimately show ?thesis
    using assms(3) s(1) by (auto simp: receive_body_def Let_def mem_ok_new[OF assms(4)] n(1))
qed

lemma header_bytes:
  "5 \<le> length bs \<Longrightarrow> reading s (take 5 bs) 0 \<Longrightarrow>
   stream_read_uint8_t s = Inr (bs ! 0, s\<lparr>s_pos := 1\<rparr>) \<and>
   stream_read_uint32_t Little_Endian (s\<lparr>s_pos := 1\<rparr>) =
     Inr (from_bytes (take 4 (drop 1 bs)), s\<lparr>s_pos := 5\<rparr>)"
  using read_uint8_ok[of s "take 5 bs" 0] reading_advance[of s "take 5 bs" 0 1]
    read_word_ok[of "s\<lparr>s_pos := 1\<rparr>" "take 5 bs" 1 4 Little_Endian, where ?'a = 32]
  by (cases bs) (auto simp: stream_read_uint32_t_def letoh_def drop_take)

lemma deliver_rest_ok:
  assumes "rb_inv (receive_buffer c)" "has_receive_callback c" "mem_ok mem"
    and "unat (wanted_ib_size c) = n" "5 \<le> n" "n \<le> length (received c)"
    and "stream_inv s" "s_pos s = 5" "stream_contents s = take 5 (received c)" "s_length s = 5"
  shows "\<exists>q s'. deliver_rest (mem k) c s =
      Some (Inr (c\<lparr>receive_buffer := q, wanted_ib_size := 0\<rparr>, Some s', True)) \<and>
    rb_inv q \<and> rb_bytes q = drop n (received c) \<and> reading s' (take n (received c)) 0"
proof -
  let ?c = "c\<lparr>receive_buffer := rb_remove 5 (receive_buffer c)\<rparr>"
  have w: "unat (wanted_ib_size c - 5) = n - 5"
    using assms(4,5) by (simp add: unat_sub word_le_nat_alt)
  have lt: "n < 2 ^ 63" using unsigned_less[of "wanted_ib_size c", where ?'a = nat] assms(4) by simp
  have "n - 5 + s_pos s < 2 ^ 63" using lt assms(5,8) by simp
  from mem_ok_ensure[OF assms(3,7) this, of k] assms(8-10)
  obtain s1 where s1: "stream_ensure_remaining_capacity (mem k) (n - 5) s = Some (s1, 0)" "stream_inv s1"
    "0 < n - 5 \<longrightarrow> 5 + (n - 5) \<le> s_capacity s1" "s_capacity s \<le> s_capacity s1" "s_pos s1 = 5"
    "stream_contents s1 = take 5 (received c)" "s_length s1 = 5"
    by auto
  have five: "take 5 (received c) \<noteq> []" using assms(5,6) by (cases "received c") auto
  obtain b where b: "s_buffer s1 = Some b" "take 5 b = take 5 (received c)"
    using s1(6,7) five by (cases "s_buffer s1") (auto simp: stream_contents_def)
  have cap: "s_pos s1 + (n - 5) \<le> s_capacity s1"
    using s1(2,3,5,7) assms(5) by (cases "n = 5") (auto simp: stream_inv_def)
  have inv: "rb_inv (receive_buffer ?c)" "received ?c = drop 5 (received c)"
    using assms(1) by (simp_all add: rb.qremove_ok rb.qremove_bytes)
  have len: "n - 5 \<le> length (received ?c)" using inv(2) assms(6) by simp
  obtain s2 where s2: "read_into (n - 5) ?c s1 =
      Inr (?c\<lparr>receive_buffer := rb_remove (n - 5) (receive_buffer ?c)\<rparr>, s2)"
    "reading (stream_set_length n (stream_seek 0 s2)) (take 5 (received c) @ take (n - 5) (drop 5 (received c))) 0"
    using read_into_ok[OF inv(1) s1(2) b(1) len cap] inv(2) s1(5) b(2) assms(5,6) lt by auto
  have "take 5 (received c) @ take (n - 5) (drop 5 (received c)) = take n (received c)"
    using assms(5) take_add[of 5 "n - 5" "received c"] by simp
  with s2 s1(1) assms(1,2,4,5) w inv show ?thesis
    by (intro exI[of _ "rb_remove (n - 5) (receive_buffer ?c)"]
        exI[of _ "stream_set_length n (stream_seek 0 s2)"])
      (simp add: deliver_rest_def Let_def rb.qremove_ok rb.qremove_bytes)
qed

lemma receive_header_ok:
  assumes "rb_inv (receive_buffer c)" "has_receive_callback c" "mem_ok mem"
    and "5 \<le> length (received c)" "message_length (received c) < 2 ^ 32"
  shows "if complete (received c) then
      \<exists>q s. receive_header Little_Endian (mem k) (mem k') (mem k'') c =
          Some (Inr (c\<lparr>receive_buffer := q, wanted_ib_size := 0\<rparr>, Some s, True)) \<and>
        rb_inv q \<and> rb_bytes q = drop (message_length (received c)) (received c) \<and>
        reading s (take (message_length (received c)) (received c)) 0
    else receive_header Little_Endian (mem k) (mem k') (mem k'') c =
      Some (Inr (c\<lparr>wanted_ib_size := 5 + from_bytes (take 4 (drop 1 (received c)))\<rparr>, None, False))"
proof -
  let ?bs = "received c" and ?n = "message_length (received c)"
  let ?s0 = "\<lparr>s_buffer = None, s_pos = 0, s_length = 0, s_capacity = 0\<rparr>"
  have inv0: "stream_inv ?s0" by (simp add: stream_inv_def)
  obtain s1 where s1: "stream_ensure_remaining_capacity (mem k') 5 ?s0 = Some (s1, 0)" "stream_inv s1"
    "5 \<le> s_capacity s1" "s_pos s1 = 0" "s_buffer s1 \<noteq> None"
    using mem_ok_ensure[OF assms(3) inv0, of 5 k'] by auto
  then obtain b where b: "s_buffer s1 = Some b" by auto
  let ?s2 = "s1\<lparr>s_buffer := Some (take 5 ?bs @ drop 5 b)\<rparr>"
  have copy: "copy_in (take 5 ?bs) s1 = Inr ?s2"
    using copy_in_ok[OF s1(2) b, of "take 5 ?bs"] s1(3,4) assms(4) by simp
  let ?s3 = "stream_set_length 5 ?s2"
  have rd: "reading ?s3 (take 5 ?bs) 0"
  proof -
    have "stream_seek 0 ?s2 = ?s2" using s1(4) by (cases s1) (simp add: stream_seek_def)
    with filled_reading[OF s1(2) b, of "take 5 ?bs" 5] s1(3,4) assms(4) show ?thesis by simp
  qed
  note hd = header_bytes[OF assms(4) rd]
  have w: "unat (5 + (from_bytes (take 4 (drop 1 ?bs)) :: u32)) = ?n"
    by (rule unat_wanted[OF assms(5)])
  let ?s4 = "?s3\<lparr>s_pos := 5\<rparr>" and ?c = "c\<lparr>wanted_ib_size := 5 + from_bytes (take 4 (drop 1 ?bs))\<rparr>"
  have eq: "receive_header Little_Endian (mem k) (mem k') (mem k'') c =
      (if ?n \<le> length ?bs then deliver_rest (mem k'') ?c ?s4 else Some (Inr (?c, None, False)))"
    using hd copy s1(1) assms(1) w
    by (simp add: receive_header_def Let_def mem_ok_new[OF assms(3)] rb.qpeek_bytes rb.qsize_bytes)
  have s4: "stream_inv ?s4" "s_pos ?s4 = 5" "stream_contents ?s4 = take 5 ?bs" "s_length ?s4 = 5"
    using rd assms(4) by (auto simp: reading_def stream_inv_def stream_contents_def split: option.splits)
  show ?thesis
  proof (cases "complete ?bs")
    case True
    then have n: "?n \<le> length ?bs" "5 \<le> ?n" by (auto simp: complete_def message_length_def)
    from deliver_rest_ok[of ?c mem ?n ?s4 k''] assms(1-3) w n s4 True eq show ?thesis by auto
  next
    case False
    with eq assms(4) show ?thesis by (simp add: complete_def)
  qed
qed

subsection \<open>The loop\<close>

lemma receive_step_ok:
  assumes "conn_inv c" "has_receive_callback c" "mem_ok mem" "sane (received c)"
  shows "if complete (received c) then
      \<exists>q s. receive_step Little_Endian mem k c =
          Some (Inr (c\<lparr>receive_buffer := q, wanted_ib_size := 0\<rparr>, Some s, True)) \<and>
        rb_inv q \<and> rb_bytes q = drop (message_length (received c)) (received c) \<and>
        reading s (take (message_length (received c)) (received c)) 0
    else \<exists>w. receive_step Little_Endian mem k c = Some (Inr (c\<lparr>wanted_ib_size := w\<rparr>, None, False)) \<and>
      conn_inv (c\<lparr>wanted_ib_size := w\<rparr>)"
proof -
  have inv: "rb_inv (receive_buffer c)" using assms(1) by (simp add: conn_inv_def)
  show ?thesis
  proof (cases "wanted_ib_size c = 0")
    case w: True
    show ?thesis
    proof (cases "5 \<le> length (received c)")
      case True
      with assms(4) have lt: "message_length (received c) < 2 ^ 32" by (simp add: sane.simps[of "received c"])
      from receive_header_ok[OF inv assms(2,3) True lt, of k "k + 1" "k + 2"] unat_wanted[OF lt] True inv w
      show ?thesis by (auto simp: receive_step_def rb.qsize_bytes conn_inv_def)
    next
      case False
      then have "receive_step Little_Endian mem k c = Some (Inr (c\<lparr>wanted_ib_size := wanted_ib_size c\<rparr>, None, False))"
        "\<not> complete (received c)" using w inv by (simp_all add: receive_step_def rb.qsize_bytes complete_def)
      with assms(1) show ?thesis by (simp, intro exI[of _ "wanted_ib_size c"], simp)
    qed
  next
    case False
    with assms(1) have w: "0 < wanted_ib_size c" "unat (wanted_ib_size c) = message_length (received c)"
      "5 \<le> length (received c)" by (auto simp: conn_inv_def word_gt_0)
    show ?thesis
    proof (cases "complete (received c)")
      case True
      let ?q = "rb_remove (message_length (received c)) (receive_buffer c)"
      obtain s where "receive_body (mem k) (mem (k + 1)) c =
          Some (Inr (c\<lparr>receive_buffer := ?q, wanted_ib_size := 0\<rparr>, Some s, True))"
        "reading s (take (message_length (received c)) (received c)) 0"
        using receive_body_ok[OF assms(1) False assms(2,3) True] by blast
      moreover from this have "receive_step Little_Endian mem k c =
          Some (Inr (c\<lparr>receive_buffer := ?q, wanted_ib_size := 0\<rparr>, Some s, True))"
        using True False w inv by (simp add: receive_step_def rb.qsize_bytes complete_def)
      ultimately have "\<exists>q s. receive_step Little_Endian mem k c =
            Some (Inr (c\<lparr>receive_buffer := q, wanted_ib_size := 0\<rparr>, Some s, True)) \<and>
          rb_inv q \<and> rb_bytes q = drop (message_length (received c)) (received c) \<and>
          reading s (take (message_length (received c)) (received c)) 0"
        using rb.qremove_ok[OF inv] rb.qremove_bytes[OF inv] by blast
      with True show ?thesis by simp
    next
      case nc: False
      then have "receive_step Little_Endian mem k c = Some (Inr (c\<lparr>wanted_ib_size := wanted_ib_size c\<rparr>, None, False))"
        using w False inv by (simp add: receive_step_def rb.qsize_bytes complete_def)
      with nc assms(1) show ?thesis by (simp, intro exI[of _ "wanted_ib_size c"], simp)
    qed
  qed
qed

theorem receive_loop_correct:
  assumes "conn_inv c" "has_receive_callback c" "mem_ok mem" "sane (received c)"
  shows "\<exists>c' ms. receive_loop Little_Endian mem k c = Some (Inr (c', ms)) \<and> conn_inv c' \<and>
    has_receive_callback c' \<and> received c' = snd (frames (received c)) \<and> send_queue c' = send_queue c \<and>
    list_all2 (\<lambda>s m. reading s m 0) ms (fst (frames (received c)))"
  using assms
proof (induction "received c" arbitrary: c k rule: frames.induct)
  case 1
  note step = receive_step_ok[OF 1(2-5), of k]
  show ?case
  proof (cases "complete (received c)")
    case False
    with step obtain w where "receive_step Little_Endian mem k c = Some (Inr (c\<lparr>wanted_ib_size := w\<rparr>, None, False))"
      "conn_inv (c\<lparr>wanted_ib_size := w\<rparr>)" by auto
    with False 1(3) show ?thesis
      by (subst receive_loop.simps) (simp add: add_message_def frames.simps[of "received c"])
  next
    case True
    with step obtain q s where
      q: "receive_step Little_Endian mem k c = Some (Inr (c\<lparr>receive_buffer := q, wanted_ib_size := 0\<rparr>, Some s, True))"
      "rb_inv q" "rb_bytes q = drop (message_length (received c)) (received c)"
      "reading s (take (message_length (received c)) (received c)) 0" by auto
    let ?c = "c\<lparr>receive_buffer := q, wanted_ib_size := 0\<rparr>"
    have "sane (received ?c)" using 1(5) True q(3) by (simp add: sane.simps[of "received c"] complete_def)
    moreover have "conn_inv ?c" "has_receive_callback ?c" using q(2) 1(3) by (simp_all add: conn_inv_def)
    ultimately obtain c' ms where "receive_loop Little_Endian mem (k + 3) ?c = Some (Inr (c', ms))" "conn_inv c'"
      "has_receive_callback c'" "received c' = snd (frames (rb_bytes q))" "send_queue c' = send_queue c"
      "list_all2 (\<lambda>s m. reading s m 0) ms (fst (frames (rb_bytes q)))"
      using 1(1)[OF True, of ?c "k + 3"] q(3) 1(4) by auto
    with q True show ?thesis
      by (subst receive_loop.simps, cases "frames (rb_bytes q)")
        (simp add: add_message_def frames.simps[of "received c"])
  qed
qed

subsection \<open>Data that arrives in pieces\<close>

lemma conn_inv_more:
  assumes "conn_inv c" "rb_inv q" "rb_bytes q = received c @ bs"
  shows "conn_inv (c\<lparr>receive_buffer := q\<rparr>)"
  using assms by (auto simp: conn_inv_def message_length_append)

theorem data_in_correct:
  assumes "conn_inv c" "has_receive_callback c" "mem_ok mem" "sane (received c @ bs)"
    and "length (received c @ bs) + 1 < 2 ^ 63"
  shows "\<exists>c' ms. data_in Little_Endian mem (Read_Bytes bs) c = Some (Inr (Inr (c', ms, True))) \<and>
    conn_inv c' \<and> has_receive_callback c' \<and> received c' = snd (frames (received c @ bs)) \<and>
    send_queue c' = send_queue c \<and>
    list_all2 (\<lambda>s m. reading s m 0) ms (fst (frames (received c @ bs)))"
proof -
  have inv: "rb_inv (receive_buffer c)" using assms(1) by (simp add: conn_inv_def)
  obtain q e where w: "rb_write (mem 0) bs (receive_buffer c) = Some (Inr (q, e))" "rb_inv q"
    "rb_bytes q = received c @ (if e = None then bs else [])"
    "e = Some ENOMEM \<longrightarrow> 2 ^ 63 \<le> rb_size (receive_buffer c) + length bs + 1"
    "e = Some malloc_errno \<longrightarrow> (\<exists>n. mem 0 n = None)"
    using rb_write_correct[OF inv mem_ok_alloc[OF assms(3)], of 0 bs] by blast
  have "mem 0 n \<noteq> None" for n using assms(3) unfolding mem_ok_def by (metis option.distinct(1))
  then have "e \<noteq> Some malloc_errno" using w(5) by blast
  moreover have "e \<noteq> Some ENOMEM" using w(4) assms(5) inv by (auto simp: rb.qsize_bytes)
  ultimately have e: "e = None" by (metis option.exhaust write_error.exhaust)
  have "conn_inv (c\<lparr>receive_buffer := q\<rparr>)" using conn_inv_more[OF assms(1) w(2)] w(3) e by simp
  from receive_loop_correct[OF this _ assms(3), of 1] w(1,3) e assms(2,4) show ?thesis
    by (auto simp: data_in_def)
qed

end
