(* ===== verification/Sending.thy ===== *)
theory Sending
  imports Connection
begin

text \<open>
  The send side of a connection: whatever sizes \<open>write(2)\<close> accepts, the bytes that leave the
  connection are the messages in the order they were queued, each byte once.
\<close>

definition sendable :: "stream \<Rightarrow> bool" where
  "sendable s \<longleftrightarrow> stream_inv s \<and> s_pos s \<le> s_length s"

definition unsent :: "stream \<Rightarrow> byte list" where
  "unsent s = drop (s_pos s) (stream_contents s)"

definition to_send :: "connection \<Rightarrow> byte list" where
  "to_send c = concat (map unsent (send_queue c))"

lemma remaining_unsent:
  assumes "sendable s"
  shows "stream_remaining_length s = length (unsent s)"
proof -
  have "s_length s < 2 ^ 64" using assms by (auto simp: sendable_def stream_inv_def)
  then have lt: "s_length s - s_pos s < 2 ^ 64" by (rule le_less_trans[OF diff_le_self])
  have "s_length s + 2 ^ 64 - s_pos s = s_length s - s_pos s + 2 ^ 64"
    using assms by (simp add: sendable_def)
  then have "stream_remaining_length s = (s_length s - s_pos s + 2 ^ 64) mod 2 ^ 64"
    by (simp only: stream_remaining_length_def)
  also have "\<dots> = s_length s - s_pos s"
    by (simp only: mod_add_self2 mod_less[OF lt])
  finally have "stream_remaining_length s = s_length s - s_pos s" .
  then show ?thesis using assms
    by (auto simp: unsent_def stream_contents_def sendable_def stream_inv_def split: option.splits)
qed

lemma send_bytes_unsent: "sendable s \<Longrightarrow> send_bytes s = Inr (unsent s)"
  using remaining_unsent[of s]
  by (auto simp: send_bytes_def unsent_def stream_contents_def sendable_def stream_inv_def peek_block_def
      drop_take split: option.splits)

lemma sendable_seek:
  assumes "sendable s" "n \<le> length (unsent s)"
  shows "sendable (stream_seek (s_pos s + n) s)" "unsent (stream_seek (s_pos s + n) s) = drop n (unsent s)"
proof -
  have "s_length s < 2 ^ 64" using assms(1) by (auto simp: sendable_def stream_inv_def)
  moreover have "s_pos s + n \<le> s_length s"
    using assms remaining_unsent[OF assms(1)]
    by (auto simp: unsent_def stream_contents_def sendable_def stream_inv_def split: option.splits)
  ultimately show "sendable (stream_seek (s_pos s + n) s)"
    "unsent (stream_seek (s_pos s + n) s) = drop n (unsent s)"
    using assms(1)
    by (auto simp: sendable_def stream_seek_def stream_inv_def unsent_def stream_contents_def add.commute
        split: option.splits)
qed

text \<open>What the operating system may answer: it takes at most what it was given.\<close>

definition write_result_ok :: "write_result \<Rightarrow> connection \<Rightarrow> bool" where
  "write_result_ok w c \<longleftrightarrow>
     (case (w, send_queue c) of (Wrote n, s # rest) \<Rightarrow> n \<le> length (unsent s) | _ \<Rightarrow> True)"

theorem data_out_correct:
  assumes "\<forall>s \<in> set (send_queue c). sendable s" "write_result_ok w c"
  shows "\<exists>c' out ok. data_out w c = Inr (c', out, ok) \<and> out @ to_send c' = to_send c \<and>
    (\<forall>s \<in> set (send_queue c'). sendable s)"
proof (cases "send_queue c")
  case Nil
  then show ?thesis by (auto simp: data_out_def to_send_def)
next
  case (Cons s rest)
  with assms have s: "sendable s" "\<forall>t \<in> set rest. sendable t" by auto
  show ?thesis
  proof (cases w)
    case (Wrote n)
    with assms(2) Cons have n: "n \<le> length (unsent s)" by (simp add: write_result_ok_def)
    note seek = sendable_seek[OF s(1) n] and rem = remaining_unsent[OF sendable_seek(1)[OF s(1) n]]
    show ?thesis using Cons Wrote s seek rem n
      by (auto simp: data_out_def send_bytes_unsent to_send_def Let_def)
  qed (use Cons s in \<open>auto simp: data_out_def send_bytes_unsent to_send_def\<close>)
qed

text \<open>A series of writes: the concatenation of the outputs and what is left is what was queued.\<close>

fun write_out :: "write_result list \<Rightarrow> connection \<Rightarrow> fault + connection \<times> byte list" where
  "write_out [] c = Inr (c, [])"
| "write_out (w # ws) c =
     (case data_out w c of
        Inl e \<Rightarrow> Inl e
      | Inr (c', out, ok) \<Rightarrow>
          if ok then (case write_out ws c' of Inl e \<Rightarrow> Inl e | Inr (c'', out') \<Rightarrow> Inr (c'', out @ out'))
          else Inr (c', out))"

fun write_results_ok :: "write_result list \<Rightarrow> connection \<Rightarrow> bool" where
  "write_results_ok [] c \<longleftrightarrow> True"
| "write_results_ok (w # ws) c \<longleftrightarrow> write_result_ok w c \<and>
     (case data_out w c of Inl e \<Rightarrow> True | Inr (c', out, ok) \<Rightarrow> write_results_ok ws c')"

lemma write_out_correct:
  "\<forall>s \<in> set (send_queue c). sendable s \<Longrightarrow> write_results_ok ws c \<Longrightarrow>
   \<exists>c' out. write_out ws c = Inr (c', out) \<and> out @ to_send c' = to_send c"
proof (induction ws arbitrary: c)
  case Nil
  then show ?case by simp
next
  case (Cons w ws)
  obtain c1 out ok where c1: "data_out w c = Inr (c1, out, ok)" "out @ to_send c1 = to_send c"
    "\<forall>s \<in> set (send_queue c1). sendable s"
    using data_out_correct[OF Cons.prems(1), of w] Cons.prems(2) by auto
  with Cons.IH[OF c1(3)] Cons.prems(2) show ?case by (cases ok) auto
qed

lemma send_appends:
  assumes "stream_inv s"
  shows "to_send (send s c) = to_send c @ stream_contents s" "sendable (stream_seek 0 s)"
  using assms
  by (auto simp: send_def to_send_def unsent_def stream_seek_def sendable_def stream_contents_def stream_inv_def
      split: option.splits)

end
