(* ===== verification/Daemon_Rules.thy ===== *)
theory Daemon_Rules
  imports Daemon Framing Sending
begin

text \<open>
  Proof rules for message handlers. \<open>ensures oom hang Q\<close> says that an outcome is never
  undefined behaviour, that the server terminates for lack of memory only if \<open>oom\<close> and does
  not return only if \<open>hang\<close>, and that a normal result satisfies \<open>Q\<close>. There is one rule
  per stream operation of a handler: it consumes room and appends bytes.
\<close>

subsection \<open>Outcomes\<close>

definition ensures :: "bool \<Rightarrow> bool \<Rightarrow> ('a \<Rightarrow> bool) \<Rightarrow> 'a outcome \<Rightarrow> bool" where
  "ensures oom hang Q m \<longleftrightarrow>
     (case m of Ok x \<Rightarrow> Q x | Undefined e \<Rightarrow> False | Terminated \<Rightarrow> oom | Hangs \<Rightarrow> hang)"

lemma ensures_simps [simp]:
  "ensures oom hang Q (Ok x) = Q x" "\<not> ensures oom hang Q (Undefined e)"
  "ensures oom hang Q Terminated = oom" "ensures oom hang Q Hangs = hang"
  by (simp_all add: ensures_def)

lemma ensures_mono: "ensures oom hang P m \<Longrightarrow> (\<And>x. P x \<Longrightarrow> Q x) \<Longrightarrow> ensures oom hang Q m"
  by (cases m) auto

lemma ensures_hang: "ensures oom False Q m \<Longrightarrow> ensures oom hang Q m"
  by (cases m) auto

lemma ensures_andthen:
  "ensures oom hang P m \<Longrightarrow> (\<And>x. P x \<Longrightarrow> ensures oom hang Q (f x)) \<Longrightarrow> ensures oom hang Q (andthen m f)"
  by (cases m) auto

lemma andthen_assoc: "andthen (andthen m f) g = andthen m (\<lambda>x. andthen (f x) g)"
  by (cases m) auto

lemma andthen_Ok [simp]: "andthen m Ok = m"
  by (cases m) auto

lemma checked_simps [simp]: "checked (Inr x) = Ok x" "checked (Inl e) = Undefined e"
  by (simp_all add: checked_def)

lemma ended_simps [simp]: "ended (Some x) = Ok x" "ended None = Hangs"
  by (simp_all add: ended_def)

subsection \<open>Memory\<close>

text \<open>Blocks have the size that was asked for; without \<open>oom\<close> there always is one.\<close>

definition alloc_good :: "bool \<Rightarrow> alloc \<Rightarrow> bool" where
  "alloc_good oom alloc \<longleftrightarrow> alloc_ok alloc \<and> (oom \<or> (\<forall>n. alloc n \<noteq> None))"

definition mem_good :: "bool \<Rightarrow> memory \<Rightarrow> bool" where
  "mem_good oom mem \<longleftrightarrow> (\<forall>k. alloc_good oom (mem k))"

lemma mem_good_nth [simp]: "mem_good oom mem \<Longrightarrow> alloc_good oom (mem k)"
  by (simp add: mem_good_def)

lemma mem_good_shift [simp]: "mem_good oom mem \<Longrightarrow> mem_good oom (\<lambda>k. mem (k + n))"
  by (simp add: mem_good_def)

lemma alloc_good_mem_ok: "alloc_good False alloc \<Longrightarrow> mem_ok (\<lambda>k. alloc)"
  unfolding alloc_good_def mem_ok_def alloc_ok_def by (metis not_Some_eq)

lemma capacity_rule:
  assumes "writing s bs k" "alloc_good oom alloc" "length bs + n < 2 ^ 63"
  shows "\<exists>s' ret. stream_ensure_remaining_capacity alloc n s = Some (s', ret) \<and>
    (ret = 0 \<and> writing s' bs (max k n) \<or> ret = -1 \<and> s' = s \<and> oom)"
proof -
  have "\<exists>s' ret. stream_ensure_remaining_capacity alloc n s = Some (s', ret) \<and>
    (ret = 0 \<and> writing s' bs (max k n) \<or> ret = -1 \<and> s' = s)"
    using assms by (intro ensure_writing) (auto simp: alloc_good_def)
  moreover have "\<exists>s'. stream_ensure_remaining_capacity alloc n s = Some (s', 0)" if "\<not> oom"
    using mem_ok_ensure[of "\<lambda>k. alloc" s n undefined] alloc_good_mem_ok assms that
    by (auto simp: writing_def add.commute)
  ultimately show ?thesis by fastforce
qed

text \<open>Room that is there already is not asked for.\<close>

lemma capacity_there:
  assumes "writing s bs k" "n \<le> k"
  shows "stream_ensure_remaining_capacity alloc n s = Some (s, 0)"
proof (cases "n = 0")
  case False
  with assms obtain b where "s_buffer s = Some b" "n + s_pos s \<le> s_capacity s" "s_capacity s < 2 ^ 64"
    by (cases "s_buffer s") (auto simp: writing_def stream_inv_def)
  with False show ?thesis by (simp add: stream_ensure_remaining_capacity_def)
qed (simp add: stream_ensure_remaining_capacity_def)

subsection \<open>Writing\<close>

lemma write8_rule:
  assumes "writing s bs k" "1 \<le> k" "\<And>s'. writing s' (bs @ [x]) (k - 1) \<Longrightarrow> ensures oom hang Q (f s')"
  shows "ensures oom hang Q (andthen (checked (stream_write_uint8_t x s)) f)"
  using write_uint8_ok[of s bs "k - 1" x] assms by auto

lemma write16_rule:
  assumes "writing s bs k" "2 \<le> k" "\<And>s'. writing s' (bs @ big_endian 2 x) (k - 2) \<Longrightarrow> ensures oom hang Q (f s')"
  shows "ensures oom hang Q (andthen (checked (stream_write_uint16_t Little_Endian x s)) f)"
proof -
  have "writing s bs (2 + (k - 2))" using assms(1,2) by (metis le_add_diff_inverse)
  from write_uint16_ok[OF this, of x] assms(3) show ?thesis by auto
qed

lemma write32_rule:
  assumes "writing s bs k" "4 \<le> k" "\<And>s'. writing s' (bs @ big_endian 4 x) (k - 4) \<Longrightarrow> ensures oom hang Q (f s')"
  shows "ensures oom hang Q (andthen (checked (stream_write_uint32_t Little_Endian x s)) f)"
  using write_uint32_ok[of s bs "k - 4" x] assms by auto

lemmas write_last_rules =
  write8_rule[where f = Ok, simplified] write16_rule[where f = Ok, simplified] write32_rule[where f = Ok, simplified]

lemma header_rule:
  assumes "writing s [] k" "5 \<le> k" "\<And>s'. writing s' (header i n) (k - 5) \<Longrightarrow> ensures oom hang Q (f (s', True))"
  shows "ensures oom hang Q
    (andthen (andthen (ended (write_message_header alloc Little_Endian i n s)) checked) f)"
proof -
  obtain s1 where s1: "stream_write_uint8_t i s = Inr s1" "writing s1 [i] (k - 1)"
    using write_uint8_ok[of s "[]" "k - 1" i] assms(1,2) by auto
  obtain s2 where "stream_write_uint32_t Little_Endian n s1 = Inr s2" "writing s2 (header i n) (k - 5)"
    using write_uint32_ok[of s1 "[i]" "k - 5" n] s1(2) assms(2) by (auto simp: header_def)
  with s1 assms show ?thesis by (simp add: write_message_header_def capacity_there[of s "[]" k 5])
qed

lemma copy_in_writing:
  assumes "writing s bs k" "length ds \<le> k"
  shows "\<exists>s'. copy_in ds s = Inr s' \<and> s_pos s' = length bs \<and> s_length s' = length bs \<and>
    writing (s'\<lparr>s_pos := length bs + length ds, s_length := length bs + length ds\<rparr>) (bs @ ds) (k - length ds)"
proof (cases "s_buffer s")
  case None
  with assms have "ds = []" "bs = []" by (auto simp: writing_def stream_inv_def)
  with assms None show ?thesis by (auto simp: copy_in_def writing_def stream_inv_def stream_contents_def)
next
  case (Some b)
  with assms have b: "length bs + length ds \<le> length b" "length b < 2 ^ 64" "length b = s_capacity s"
    "take (length bs) b = bs" "s_pos s = length bs" "s_length s = length bs" "0 < s_capacity s"
    by (auto simp: writing_def stream_inv_def stream_contents_def)
  with assms Some show ?thesis
    by (auto simp: copy_in_def writing_def stream_inv_def stream_contents_def)
qed

lemma length_bytes_of_string [simp]: "length (bytes_of_string s) = length s"
  by (simp add: bytes_of_string_def)

lemma writing_room: "writing s bs k \<Longrightarrow> length bs + k < 2 ^ 64"
  by (auto simp: writing_def stream_inv_def)

lemma put_string_rule:
  assumes "writing s bs k" "length path \<le> k"
    and "\<And>s'. writing s' (bs @ bytes_of_string path) (k - length path) \<Longrightarrow> ensures oom hang Q (f s')"
  shows "ensures oom hang Q (andthen (checked (put_string path s)) f)"
proof -
  have lt: "length bs + length path < 2 ^ 64" using writing_room[OF assms(1)] assms(2) by simp
  obtain s' where s': "copy_in (bytes_of_string path) s = Inr s'" "s_pos s' = length bs"
    "writing (s'\<lparr>s_pos := length bs + length path, s_length := length bs + length path\<rparr>)
       (bs @ bytes_of_string path) (k - length path)"
    using copy_in_writing[OF assms(1), of "bytes_of_string path"] assms(2) by auto
  from s'(1,2) lt assms(3)[OF s'(3)] show ?thesis
    by (simp add: put_string_def stream_seek_def stream_set_length_def)
qed

lemma append_string_rule:
  assumes "writing s bs k" "length path \<le> k"
    and "\<And>s'. writing s' (bs @ bytes_of_string path) (k - length path) \<Longrightarrow> ensures oom hang Q (f s')"
  shows "ensures oom hang Q (andthen (checked (append_string path s)) f)"
proof -
  have lt: "length bs + length path < 2 ^ 64" using writing_room[OF assms(1)] assms(2) by simp
  obtain s' where s': "copy_in (bytes_of_string path) s = Inr s'" "s_pos s' = length bs" "s_length s' = length bs"
    "writing (s'\<lparr>s_pos := length bs + length path, s_length := length bs + length path\<rparr>)
       (bs @ bytes_of_string path) (k - length path)"
    using copy_in_writing[OF assms(1), of "bytes_of_string path"] assms(2) by auto
  have "stream_seek (length bs + length path) (stream_set_length (length bs + length path) s') =
      s'\<lparr>s_pos := length bs + length path, s_length := length bs + length path\<rparr>"
    using lt by (cases s') (simp add: stream_seek_def stream_set_length_def)
  with s'(1,2,3) assms(3)[OF s'(4)] show ?thesis
    by (simp add: append_string_def) (simp add: stream_set_length_def)
qed

subsection \<open>Streams for answers\<close>

lemma stream_new_good:
  assumes "alloc_good oom alloc"
  obtains (none) "stream_new alloc = None" oom | (some) s where "stream_new alloc = Some s" "writing s [] 0"
proof (cases "stream_new alloc")
  case None
  then have "alloc sizeof_stream = None" by (simp add: stream_new_def split: option.splits)
  with assms have oom by (metis alloc_good_def)
  with None none show ?thesis by simp
next
  case (Some s)
  with some stream_new_writing show ?thesis by blast
qed

lemma reply_stream_rule:
  assumes "mem_good oom mem" "n < 2 ^ 63" "\<And>s. writing s [] n \<Longrightarrow> ensures oom hang Q (f s)"
    and "oom \<Longrightarrow> ensures oom hang Q failed"
  shows "ensures oom hang Q (reply_stream mem n f failed)"
  using mem_good_nth[OF assms(1), of 0]
proof (cases rule: stream_new_good)
  case none
  with assms(4) show ?thesis by (simp add: reply_stream_def)
next
  case (some s)
  with capacity_rule[OF some(2) mem_good_nth[OF assms(1), of 1], of n] assms(2-4) show ?thesis
    by (auto simp: reply_stream_def)
qed

lemma with_capacity_rule:
  assumes "writing s bs 0" "alloc_good oom alloc" "length bs + n < 2 ^ 63"
    and "\<And>s. writing s bs n \<Longrightarrow> ensures oom hang Q (f s)"
  shows "ensures oom hang Q (with_capacity n alloc s f)"
  using capacity_rule[OF assms(1-3)] assms(4) by (auto simp: with_capacity_def)

lemma write_each_rule:
  assumes "mem_good oom mem" "writing s bs 0" "length (bs @ concat (map enc xs)) < 2 ^ 63"
    and "\<And>x alloc s bs. x \<in> set xs \<Longrightarrow> alloc_good oom alloc \<Longrightarrow> writing s bs 0 \<Longrightarrow>
      length (bs @ enc x) < 2 ^ 63 \<Longrightarrow> ensures oom hang (\<lambda>s'. writing s' (bs @ enc x) 0) (f x alloc s)"
  shows "ensures oom hang (\<lambda>s'. writing s' (bs @ concat (map enc xs)) 0) (write_each f mem xs s)"
  using assms
proof (induction xs arbitrary: mem s bs)
  case Nil
  then show ?case by simp
next
  case (Cons x xs)
  have "ensures oom hang (\<lambda>s'. writing s' (bs @ enc x) 0) (f x (mem 0) s)"
    using Cons.prems by (intro Cons.prems(4)) auto
  moreover have "ensures oom hang (\<lambda>s'. writing s' ((bs @ enc x) @ concat (map enc xs)) 0)
      (write_each f (\<lambda>k. mem (k + 1)) xs s')" if "writing s' (bs @ enc x) 0" for s'
    by (rule Cons.IH[OF mem_good_shift[OF Cons.prems(1)] that]) (use Cons.prems(3,4) in auto)
  ultimately show ?case by (simp add: ensures_andthen)
qed

end
