(* ===== verification/Backend_Correct.thy ===== *)
theory Backend_Correct
  imports Backend
begin

text \<open>
  The invariant of the backend, its preservation by every operation, and what follows for every
  reachable state.
\<close>

subsection \<open>Marking the requests of a destroyed process\<close>

lemma mark_request_sel [simp]:
  "req_mode (mark_request p r) = req_mode r" "requester (mark_request p r) = requester r"
  "req_path (mark_request p r) = req_path r" "current_level (mark_request p r) = current_level r"
  "req_level (mark_request p r) = req_level r" "acquire_status (mark_request p r) = acquire_status r"
  "request_grant (mark_request p r) = request_grant r"
  by (simp_all add: mark_request_def set_requester_destroyed_def request_grant_def)

lemma mark_lock_name [simp]: "name_of (mark_lock p l) = name_of l"
  by (cases l) simp

lemma waiting_mark [simp]: "waiting m (map (mark_request p) rs) = waiting m rs"
  by (induction rs) auto

lemma claims_mark [simp]: "claims m (node (mark_lock p l)) = claims m (node l)"
  by (cases l) (simp add: claims_def)

lemma queue_ok_mark [simp]: "queue_ok \<pi> (mark_request p r) = queue_ok \<pi> r"
  by (simp add: queue_ok_def)

lemma lock_inv_mark: "lock_inv \<pi> l \<Longrightarrow> lock_inv \<pi> (mark_lock p l)"
  by (induction l arbitrary: \<pi>) (auto simp: lock_inv.simps comp_def)

lemma granted_mark: "granted \<pi> (mark_lock p l) = granted \<pi> l"
proof (induction l arbitrary: \<pi>)
  case (Lock n cs)
  have "node_grants \<pi> (n\<lparr>lock_requests := rs\<rparr>) = node_grants \<pi> n" for rs
    by (rule node_grants_cong) simp
  moreover have "(\<Sum>c\<leftarrow>cs. granted (\<pi> @ [name_of c]) (mark_lock p c)) = (\<Sum>c\<leftarrow>cs. granted (\<pi> @ [name_of c]) c)"
    using Lock by (intro arg_cong[where f = sum_list] map_cong) auto
  ultimately show ?case by (simp add: granted.simps comp_def)
qed

lemma map_of_mark: "map_of (map (\<lambda>(k, l). (k, mark_lock p l)) rs) k = map_option (mark_lock p) (map_of rs k)"
  by (induction rs) auto

lemma forest_inv_mark: "forest_inv f \<Longrightarrow> forest_inv (mark_destroyed p f)"
  by (auto simp: forest_inv_def mark_destroyed_def map_of_mark smap_ordered_def lock_inv_mark
      comp_def case_prod_beta)

lemma forest_granted_mark: "forest_granted (mark_destroyed p f) = forest_granted f"
  by (simp add: forest_granted_def mark_destroyed_def comp_def case_prod_unfold granted_mark)

lemma answered_grants_mark: "answered_grants (map (mark_request p) ans) = answered_grants ans"
  by (induction ans) auto

subsection \<open>The operations of the forest keep the process objects in order\<close>

lemma forest_process_inv:
  assumes "process_inv p"
  shows "forest_acquire f p s m = Inr (f', p', ret) \<Longrightarrow> process_inv p'"
    and "forest_release f p s m = Inr (f', p', code, ans) \<Longrightarrow> process_inv p'"
    and "forest_create f p s x = Inr (f', p', res) \<Longrightarrow> process_inv p'"
  using assms
  by (auto simp: forest_acquire_def forest_release_def forest_create_def Let_def
      split: if_splits option.splits sum.splits acquire_code.splits)

lemma release_all_correct:
  assumes "forest_inv f" "process_inv p"
  shows "\<exists>f' p' ans. release_all f p ls = Inr (f', p', ans) \<and> forest_inv f' \<and> process_inv p' \<and>
    proc_id p' = proc_id p"
  using assms
proof (induction ls arbitrary: f p)
  case Nil
  then show ?case by simp
next
  case (Cons sm ls)
  obtain s m where sm: "sm = (s, m)" by fastforce
  obtain f1 p1 code ans where rel: "forest_release f p s m = Inr (f1, p1, code, ans)" "forest_inv f1"
    "proc_id p1 = proc_id p"
    using forest_release_correct[OF Cons.prems(1), of p s m] by blast
  from Cons.IH[OF rel(2) forest_process_inv(2)[OF Cons.prems(2) rel(1)]] rel(1,3) show ?case
    by (auto simp: sm)
qed

lemma release_loop_correct:
  assumes "release_loop f p = Some res" "forest_inv f" "process_inv p"
  shows "\<exists>f' p' ans. res = Inr (f', p', ans) \<and> forest_inv f' \<and> process_inv p' \<and> proc_id p' = proc_id p \<and>
    get_lock_count p' = 0"
proof -
  have "forest_inv f \<longrightarrow> process_inv p \<longrightarrow>
    (\<exists>f' p' ans. res = Inr (f', p', ans) \<and> forest_inv f' \<and> process_inv p' \<and> proc_id p' = proc_id p \<and>
      get_lock_count p' = 0)"
  proof (rule release_loop.raw_induct[OF _ assms(1)], intro impI)
    fix rl :: "lock_forest \<Rightarrow> process \<Rightarrow> (fault + lock_forest \<times> process \<times> lock_request list) option"
      and f p res
    assume IH: "\<And>f p res. rl f p = Some res \<Longrightarrow> forest_inv f \<longrightarrow> process_inv p \<longrightarrow>
        (\<exists>f' p' ans. res = Inr (f', p', ans) \<and> forest_inv f' \<and> process_inv p' \<and> proc_id p' = proc_id p \<and>
          get_lock_count p' = 0)"
      and body: "(if 0 < get_lock_count p then
          (case release_all f p (get_held_locks p) of
             Inl e \<Rightarrow> Some (Inl e)
           | Inr (f', p', ans) \<Rightarrow> Option.bind (rl f' p') (add_answered ans))
        else Some (Inr (f, p, []))) = Some res"
      and inv: "forest_inv f" "process_inv p"
    from release_all_correct[OF inv, of "get_held_locks p"] obtain f1 p1 ans where
      ra: "release_all f p (get_held_locks p) = Inr (f1, p1, ans)" "forest_inv f1" "process_inv p1"
        "proc_id p1 = proc_id p" by blast
    show "\<exists>f' p' ans. res = Inr (f', p', ans) \<and> forest_inv f' \<and> process_inv p' \<and> proc_id p' = proc_id p \<and>
      get_lock_count p' = 0"
    proof (cases "0 < get_lock_count p")
      case True
      with body ra obtain res1 where "rl f1 p1 = Some res1" "add_answered ans res1 = Some res"
        by (auto simp: bind_eq_Some_conv)
      with IH[of f1 p1 res1] ra show ?thesis by (auto simp: add_answered_def)
    next
      case False
      with body inv show ?thesis by (auto simp: word_gt_0)
    qed
  qed
  with assms(2,3) show ?thesis by blast
qed

subsection \<open>Every operation keeps the invariant\<close>

lemma backend_inv_process:
  "backend_inv b \<Longrightarrow> find_process (Process_table b) i = Some p \<Longrightarrow> process_inv p \<and> proc_id p = i"
  by (auto simp: backend_inv_def find_process_def process_map_inv_def)

lemma backend_inv_store:
  "backend_inv b \<Longrightarrow> forest_inv f \<Longrightarrow> process_inv p \<Longrightarrow>
   backend_inv \<lparr>Forest = f, Process_table = store_process p (Process_table b)\<rparr>"
  by (simp add: backend_inv_def process_map_inv_store)

lemma register_inv: "backend_inv b \<Longrightarrow> register_process b = Inr (b', i) \<Longrightarrow> backend_inv b'"
  by (auto simp: backend_inv_def register_process_def process_map_inv_create split: sum.splits)

lemma acquire_lock_correct:
  assumes "backend_inv b"
  shows "\<exists>b' status. acquire_lock b i s m = Inr (b', status) \<and> backend_inv b' \<and>
    (status = ACQUIRE_LOCK_RESULT_NO_SUCH_PROCESS \<longleftrightarrow> find_process (Process_table b) i = None) \<and>
    forest_granted (Forest b') = forest_granted (Forest b) +
      (if status = ACQUIRE_LOCK_RESULT_ACQUIRED then {#(split_path s, m, i)#} else {#})"
proof (cases "find_process (Process_table b) i")
  case None
  with assms show ?thesis by (simp add: acquire_lock_def)
next
  case (Some p)
  note p = backend_inv_process[OF assms Some]
  obtain f' p' ret where f: "forest_acquire (Forest b) p s m = Inr (f', p', ret)" "forest_inv f'"
    "forest_granted f' = forest_granted (Forest b) +
      (if ret = LOCK_ACQUIRE_ACQUIRED then {#(split_path s, m, proc_id p)#} else {#})"
    using forest_acquire_correct[of "Forest b" p s m] assms by (auto simp: backend_inv_def)
  from backend_inv_store[OF assms f(2) forest_process_inv(1)[OF conjunct1[OF p] f(1)]] f Some p
  show ?thesis by (cases ret) (simp_all add: acquire_lock_def)
qed

lemma release_lock_correct:
  assumes "backend_inv b"
  shows "\<exists>b' status ans. release_lock b i s m = Inr (b', status, ans) \<and> backend_inv b' \<and>
    (status = RELEASE_LOCK_RESULT_NO_SUCH_PROCESS \<longleftrightarrow> find_process (Process_table b) i = None) \<and>
    (find_process (Process_table b) i \<noteq> None \<longrightarrow>
      forest_granted (Forest b') = forest_granted (Forest b) - {#(split_path s, m, i)#} + answered_grants ans) \<and>
    (status = RELEASE_LOCK_RESULT_NO_SUCH_PROCESS \<longrightarrow> b' = b \<and> ans = []) \<and>
    (status = RELEASE_LOCK_RESULT_NOT_HELD \<longrightarrow> (split_path s, m, i) \<notin># forest_granted (Forest b))"
proof (cases "find_process (Process_table b) i")
  case None
  with assms show ?thesis by (simp add: release_lock_def)
next
  case (Some p)
  note p = backend_inv_process[OF assms Some]
  obtain f' p' code ans where f: "forest_release (Forest b) p s m = Inr (f', p', code, ans)" "forest_inv f'"
    "forest_granted f' = forest_granted (Forest b) - {#(split_path s, m, proc_id p)#} + answered_grants ans"
    "code = LOCK_RELEASE_NOT_HELD \<longrightarrow> (split_path s, m, proc_id p) \<notin># forest_granted (Forest b)"
    using forest_release_correct[of "Forest b" p s m] assms by (auto simp: backend_inv_def)
  from backend_inv_store[OF assms f(2) forest_process_inv(2)[OF conjunct1[OF p] f(1)]] f Some p
  show ?thesis by (cases code) (simp_all add: release_lock_def)
qed

lemma create_lock_correct:
  assumes "backend_inv b"
  shows "\<exists>b' res. create_lock b i s x = Inr (b', res) \<and> backend_inv b' \<and>
    (res = CREATE_LOCK_RESULT_NO_SUCH_PROCESS \<longleftrightarrow> find_process (Process_table b) i = None) \<and>
    forest_granted (Forest b') = forest_granted (Forest b) +
      (if x \<and> (res = CREATE_LOCK_RESULT_CREATED \<or> res = CREATE_LOCK_RESULT_EXISTS)
       then {#(split_path s, LOCK_REQUEST_MODE_X, i)#} else {#})"
proof (cases "find_process (Process_table b) i")
  case None
  with assms show ?thesis by (simp add: create_lock_def)
next
  case (Some p)
  note p = backend_inv_process[OF assms Some]
  obtain f' p' res where f: "forest_create (Forest b) p s x = Inr (f', p', res)" "forest_inv f'"
    "forest_granted f' = forest_granted (Forest b) +
      (if x \<and> res \<noteq> LOCK_CREATE_QUEUED then {#(split_path s, LOCK_REQUEST_MODE_X, proc_id p)#} else {#})"
    "x \<longrightarrow> res \<noteq> LOCK_CREATE_PARENT_NOT_HELD"
    using forest_create_correct[of "Forest b" p s x] assms by (auto simp: backend_inv_def)
  from backend_inv_store[OF assms f(2) forest_process_inv(3)[OF conjunct1[OF p] f(1)]] f Some p
  show ?thesis by (cases res) (simp_all add: create_lock_def)
qed

lemma unregister_inv:
  assumes "backend_inv b" "unregister_process b i = Some res"
  shows "\<exists>b' code ans. res = Inr (b', code, ans) \<and> backend_inv b' \<and>
    (code = PROCESS_UNREGISTER_RESULT_NON_EXISTENT \<longleftrightarrow> find_process (Process_table b) i = None) \<and>
    code \<noteq> PROCESS_UNREGISTER_RESULT_HOLDS_LOCKS \<and> find_process (Process_table b') i = None"
proof (cases "find_process (Process_table b) i")
  case None
  with assms show ?thesis
    by (auto simp: unregister_process_def try_destroy_def find_process_def backend_inv_def)
next
  case (Some p)
  note p = backend_inv_process[OF assms(1) Some]
  from assms(2) Some obtain r where r: "release_loop (Forest b) p = Some r"
    by (auto simp: unregister_process_def try_destroy_def find_process_def bind_eq_Some_conv)
  from release_loop_correct[OF r] p assms(1) obtain f' p' ans where
    f: "r = Inr (f', p', ans)" "forest_inv f'" "proc_id p' = i" by (auto simp: backend_inv_def)
  have "backend_inv \<lparr>Forest = mark_destroyed i f',
      Process_table = (Process_table b)\<lparr>Processes := smap_del i (Processes (Process_table b))\<rparr>\<rparr>"
    using f(2) assms(1) by (simp add: backend_inv_def forest_inv_mark process_map_inv_erase)
  with assms(2) Some r f show ?thesis
    by (auto simp: unregister_process_def try_destroy_def find_process_def erase_process_def get_id_def
        smap.get_del)
qed

lemma update_pid_connection_inv: "backend_inv b \<Longrightarrow> backend_inv (update_pid_connection b i c)"
  using backend_inv_store[of b "Forest b"] backend_inv_process[of b i]
  by (auto simp: update_pid_connection_def backend_inv_def process_map_inv_store split: option.split)

lemma backend_step_inv:
  assumes "backend_inv b" "backend_step b b'"
  shows "backend_inv b'"
  using assms(2)
proof (cases rule: backend_step.cases)
  case (step_register i)
  then show ?thesis using register_inv assms(1) by blast
next
  case (step_unregister i code ans)
  then show ?thesis using unregister_inv[OF assms(1)] by fastforce
next
  case (step_create i path x res)
  then show ?thesis using create_lock_correct[OF assms(1), of i path x] by auto
next
  case (step_acquire i path m status)
  then show ?thesis using acquire_lock_correct[OF assms(1), of i path m] by auto
next
  case (step_release i path m status ans)
  then show ?thesis using release_lock_correct[OF assms(1), of i path m] by auto
next
  case (step_connection i c)
  then show ?thesis using update_pid_connection_inv[OF assms(1)] by simp
qed

interpretation backend_sys: inductive_invariant "\<lambda>b. b = backend_new" backend_step backend_inv
  by unfold_locales (simp, rule backend_step_inv)

end
