(* ===== verification/Requesters.thy ===== *)
theory Requesters
  imports Backend_Correct Path_Names
begin

text \<open>
  Which requests the lock forest refers to. A request points to the process that made it; the
  pointer is used when the request is answered, so a request whose flag
  \<open>requester_exists\<close> is set must belong to a process of the table. The operations of the
  tree neither invent requests nor change what identifies them, and destroying a process clears
  the flag of its requests.
\<close>

subsection \<open>The requests of a tree\<close>

type_synonym request_key = "proc \<times> bool \<times> string list"

definition request_key :: "lock_request \<Rightarrow> request_key" where
  "request_key r = (requester r, requester_exists r, req_path r)"

fun tree_requests :: "lock \<Rightarrow> request_key set" where
  "tree_requests (Lock n cs) = request_key ` set (lock_requests n) \<union> (\<Union>c \<in> set cs. tree_requests c)"

declare tree_requests.simps [simp del]

lemma tree_requests_iff:
  "tree_requests l = request_key ` set (lock_requests (node l)) \<union> (\<Union>c \<in> set (children l). tree_requests c)"
  by (cases l) (simp add: tree_requests.simps)

lemma tree_requests_new [simp]: "tree_requests (new_Lock nm) = {}"
  by (simp add: tree_requests.simps new_Lock_def new_node_def)

lemma request_key_updates [simp]:
  "request_key (r\<lparr>acquire_status := s\<rparr>) = request_key r"
  "request_key (r\<lparr>lock_created := b\<rparr>) = request_key r"
  "request_key (r\<lparr>current_level := k\<rparr>) = request_key r"
  by (simp_all add: request_key_def)

lemma tree_requests_child: "i < length (children l) \<Longrightarrow> tree_requests (children l ! i) \<subseteq> tree_requests l"
  by (subst tree_requests_iff[of l]) (auto dest: nth_mem)

lemma tree_requests_add [simp]:
  "lock_requests n = lock_requests (node l) \<Longrightarrow>
   tree_requests (Lock n (children l @ [c])) = tree_requests l \<union> tree_requests c"
  by (auto simp: tree_requests.simps tree_requests_iff[of l])

text \<open>A tree whose queue is the old one and in which one child changed.\<close>

lemma tree_requests_update:
  assumes "lock_requests n = lock_requests (node l)"
  shows "tree_requests (Lock n ((children l)[i := c])) \<subseteq> tree_requests l \<union> tree_requests c"
  using assms
  by (auto simp: tree_requests.simps tree_requests_iff[of l] dest!: in_set_list_update)

lemma tree_requests_queue:
  "set (map request_key rs) \<subseteq> K \<Longrightarrow> tree_requests l \<subseteq> K \<Longrightarrow> tree_requests (set_queue l rs) \<subseteq> K"
  by (auto simp: tree_requests.simps set_queue_def tree_requests_iff[of l])

subsection \<open>Acquiring and releasing\<close>

lemma acquire_request_key: "acquire l r ins = Inr (l', r', ret) \<Longrightarrow> request_key r' = request_key r"
  using acquire_request[of l r ins l' r' ret] by (simp add: same_request_def request_key_def)

lemma acquire_tree_requests:
  "acquire l r ins = Inr (l', r', ret) \<Longrightarrow> tree_requests l' \<subseteq> insert (request_key r) (tree_requests l)"
proof (induction rule: acquire_induct)
  case (granted l r ins n)
  then show ?case by (auto simp: tree_requests.simps tree_requests_iff[of l] dest!: grant_target_queue)
next
  case (queued l r ins)
  then show ?case by (auto simp: tree_requests.simps tree_requests_iff[of l] enqueue_def)
next
  case (child l r ins n i c r' ret)
  with tree_requests_update[of n l i c] tree_requests_child[OF find_child_length[OF child(4)]]
  show ?case by (auto dest!: grant_intent_queue subsetD)
next
  case (absent l r ins n i c r' n')
  have "lock_requests n' = lock_requests (node l)"
    using grant_intent_queue[OF absent(3)] drop_intent_queue[OF absent(6)] by simp
  from tree_requests_update[OF this, of i c] tree_requests_child[OF find_child_length[OF absent(4)]] absent(7)
  show ?case by (simp, blast)
next
  case (created l r ins n c r' ret)
  then show ?case by (auto simp: tree_requests.simps tree_requests_iff[of l] dest!: grant_intent_queue)
next
  case (missing l r ins n n')
  then show ?case
    by (auto simp: tree_requests.simps tree_requests_iff[of l] dest!: grant_intent_queue drop_intent_queue)
qed

lemma queue_in_tree: "lock_requests (node l) = r # rs \<Longrightarrow> insert (request_key r) (request_key ` set rs) \<subseteq> tree_requests l"
  by (auto simp: tree_requests_iff[of l])

lemma regrant_tree_requests:
  "regrant l = Inr (l', ans) \<Longrightarrow> tree_requests l' \<union> request_key ` set ans \<subseteq> tree_requests l"
proof (induction rule: regrant_induct)
  case (answered l r rs l1 r' ret l2 ans)
  have "tree_requests (set_queue l1 rs) \<subseteq> tree_requests l"
    using acquire_tree_requests[OF answered(2)] queue_in_tree[OF answered(1)]
    by (intro tree_requests_queue) auto
  with answered(5) acquire_request_key[OF answered(2)] queue_in_tree[OF answered(1)] show ?case by auto
next
  case (advanced l r rs l1 r' l2 ans)
  have "tree_requests (set_queue l1 rs) \<subseteq> tree_requests l"
    using acquire_tree_requests[OF advanced(2)] queue_in_tree[OF advanced(1)]
    by (intro tree_requests_queue) auto
  with advanced(5) show ?case by auto
next
  case (stuck l r rs)
  from queue_in_tree[OF stuck(1)] have "tree_requests (set_queue l (r\<lparr>acquire_status := LOCK_ACQUIRE_QUEUED\<rparr> # rs)) \<subseteq> tree_requests l"
    by (intro tree_requests_queue) auto
  then show ?case by simp
qed simp

lemma remove_request_set: "remove_request m p rs = Some rs' \<Longrightarrow> set rs' \<subseteq> set rs"
  by (induction rs arbitrary: rs') (auto split: if_splits)

lemma release_tree_requests:
  "release l p m pth cur lv = Inr (l', code, ans) \<Longrightarrow> tree_requests l' \<union> request_key ` set ans \<subseteq> tree_requests l"
proof (induction rule: release_induct)
  case (released l cur l' n ans)
  have "tree_requests (Lock n (children l)) = tree_requests l"
    using released(2)
    by (auto simp: tree_requests.simps tree_requests_iff[of l] release_target_def split: if_splits)
  with regrant_tree_requests[OF released(3)] show ?case by simp
next
  case (child l cur i c ans1 n l' ans2)
  have "tree_requests (Lock n ((children l)[i := c])) \<subseteq> tree_requests l \<union> tree_requests c"
    using drop_intent_queue[OF child(5)] by (intro tree_requests_update) simp
  with child(7) tree_requests_child[OF find_child_length[OF child(3)]]
  have "tree_requests (Lock n ((children l)[i := c])) \<union> request_key ` set ans1 \<subseteq> tree_requests l" by blast
  with regrant_tree_requests[OF child(6)] show ?case by (auto simp: image_Un)
next
  case (cancelled l cur rs)
  then have "tree_requests (set_queue l rs) \<subseteq> tree_requests l"
    by (intro tree_requests_queue) (auto simp: tree_requests_iff[of l] dest: remove_request_set)
  then show ?case by simp
qed simp

lemma create_not_held_at_tree_requests:
  "lv < length pth \<Longrightarrow> cur \<le> lv \<Longrightarrow> create_not_held_at l p pth cur lv e = Inr (l', code) \<Longrightarrow>
   tree_requests l' \<subseteq> tree_requests l"
proof (induction "lv - cur" arbitrary: l cur e l' code)
  case 0
  then show ?case
    by (cases "find_child (pth ! cur) (children l)")
      (auto simp: create_found create_absent Let_def split: if_splits)
next
  case (Suc k)
  then have lt: "cur < lv" "cur < length pth" and k: "k = lv - (cur + 1)" by auto
  note IH = Suc.hyps(1)[OF k _ _]
  show ?case
  proof (cases "find_child (pth ! cur) (children l)")
    case None
    with Suc.prems lt show ?thesis
      by (auto simp: create_absent Let_def split: if_splits sum.splits dest!: IH)
  next
    case (Some i)
    from Suc.prems(3) Some lt obtain c where
      c: "create_not_held_at (children l ! i) p pth (cur + 1) lv (e \<or> locker_X (node l) = Some p) = Inr (c, code)"
      and l': "l' = Lock (node l) ((children l)[i := c])"
      by (auto simp: create_found Let_def split: sum.splits)
    from IH[OF _ _ c] Suc.prems(1) lt tree_requests_update[of "node l" l i c]
      tree_requests_child[OF find_child_length[OF Some]]
    show ?thesis unfolding l' by auto
  qed
qed

lemma create_not_held_tree_requests:
  "create_not_held l po pth = Inr (l', code) \<Longrightarrow> tree_requests l' \<subseteq> tree_requests l"
  using create_not_held_at_tree_requests[of "length pth - 1" pth 1 l]
  by (auto simp: create_not_held_def Let_def split: if_splits option.splits)

lemma mark_lock_requests:
  "tree_requests (mark_lock p l) = (\<lambda>(q, e, \<pi>). (q, e \<and> q \<noteq> p, \<pi>)) ` tree_requests l"
proof (induction l)
  case (Lock n cs)
  have "request_key (mark_request p r) = (\<lambda>(q, e, \<pi>). (q, e \<and> q \<noteq> p, \<pi>)) (request_key r)" for r
    by (simp add: request_key_def mark_request_def set_requester_destroyed_def)
  with Lock show ?case by (simp add: tree_requests.simps image_Un image_UN image_comp comp_def)
qed

subsection \<open>The requests of a forest\<close>

definition forest_requests :: "lock_forest \<Rightarrow> request_key set" where
  "forest_requests f = (\<Union>(k, l) \<in> set (roots f). tree_requests l)"

lemma set_smap_put: "set (smap_put k v m) \<subseteq> insert (k, v) (set m)"
  by (induction k v m rule: smap_put.induct) auto

lemma forest_requests_root: "map_of (roots f) k = Some l \<Longrightarrow> tree_requests l \<subseteq> forest_requests f"
  by (auto simp: forest_requests_def dest: map_of_SomeD)

lemma forest_requests_set_root:
  "tree_requests l \<subseteq> K \<Longrightarrow> forest_requests f \<subseteq> K \<Longrightarrow> forest_requests (set_root k l f) \<subseteq> K"
proof -
  assume K: "tree_requests l \<subseteq> K" "forest_requests f \<subseteq> K"
  have "tree_requests l' \<subseteq> K" if "(k', l') \<in> set (smap_put k l (roots f))" for k' l'
    using set_smap_put[of k l "roots f"] that K by (auto simp: forest_requests_def)
  then show ?thesis by (force simp: forest_requests_def set_root_def)
qed

lemma forest_acquire_requests:
  assumes "forest_acquire f p s m = Inr (f', p', ret)"
  shows "forest_requests f' \<subseteq> insert (proc_id p, True, split_path s) (forest_requests f)"
proof (cases "map_of (roots f) (split_path s ! 0)")
  case None
  with assms show ?thesis by (auto simp: forest_acquire_def)
next
  case (Some root)
  with assms obtain root' req' where
    a: "acquire root (Lock_Request_create m (proc_id p) (split_path s) False) True = Inr (root', req', ret)"
    and f': "f' = set_root (split_path s ! 0) root' f"
    by (auto simp: forest_acquire_def Let_def split: sum.splits)
  have "request_key (Lock_Request_create m (proc_id p) (split_path s) False) = (proc_id p, True, split_path s)"
    by (simp add: request_key_def Lock_Request_create_def)
  with acquire_tree_requests[OF a] forest_requests_root[OF Some] show ?thesis
    unfolding f' by (intro forest_requests_set_root) auto
qed

lemma forest_release_requests:
  assumes "forest_release f p s m = Inr (f', p', code, ans)"
  shows "forest_requests f' \<union> request_key ` set ans \<subseteq> forest_requests f"
proof (cases "map_of (roots f) (split_path s ! 0)")
  case None
  with assms show ?thesis by (auto simp: forest_release_def)
next
  case (Some root)
  with assms obtain root' where
    a: "release root (proc_id p) m (split_path s) 0 (length (split_path s) - 1) = Inr (root', code, ans)"
    and f': "f' = set_root (split_path s ! 0) root' f"
    by (auto simp: forest_release_def release_path_def Let_def split: sum.splits)
  from release_tree_requests[OF a] forest_requests_root[OF Some]
    forest_requests_set_root[of root' "forest_requests f" f "split_path s ! 0"]
  show ?thesis unfolding f' by auto
qed

lemma forest_create_requests:
  assumes "forest_create f p s x = Inr (f', p', res)"
  shows "forest_requests f' \<subseteq> insert (proc_id p, True, split_path s) (forest_requests f)" (is "_ \<subseteq> ?K")
proof -
  let ?k = "split_path s ! 0"
  let ?root = "case map_of (roots f) ?k of Some l \<Rightarrow> l | None \<Rightarrow> new_Lock ?k"
  have root: "tree_requests ?root \<subseteq> ?K"
    using forest_requests_root[of f ?k] by (auto split: option.splits)
  have key: "request_key (Lock_Request_create m (proc_id p) (split_path s) c) = (proc_id p, True, split_path s)" for m c
    by (simp add: request_key_def Lock_Request_create_def)
  show ?thesis
  proof (cases "map_of (roots f) ?k = None \<and> \<not> x")
    case True
    with assms show ?thesis by (auto simp: forest_create_def Let_def)
  next
    case create: False
    show ?thesis
    proof (cases x)
      case True
      define req where "req = (case map_of (roots f) ?k of
          Some l \<Rightarrow> Lock_Request_create LOCK_REQUEST_MODE_X (proc_id p) (split_path s) True
        | None \<Rightarrow> (Lock_Request_create LOCK_REQUEST_MODE_X (proc_id p) (split_path s) True)\<lparr>lock_created := True\<rparr>)"
      from assms True obtain root' req' ret where a: "acquire ?root req True = Inr (root', req', ret)"
        and f': "f' = set_root ?k root' f"
        by (auto simp: forest_create_def Let_def req_def split: sum.splits acquire_code.splits)
      have "request_key req = (proc_id p, True, split_path s)"
        by (simp add: req_def key split: option.splits)
      with acquire_tree_requests[OF a] root show ?thesis
        unfolding f' by (intro forest_requests_set_root) auto
    next
      case False
      with assms create obtain root' where
        c: "create_not_held ?root (Some (proc_id p)) (split_path s) = Inr (root', res)"
        and f': "f' = set_root ?k root' f"
        by (auto simp: forest_create_def Let_def split: sum.splits)
      from create_not_held_tree_requests[OF c] root show ?thesis
        unfolding f' by (intro forest_requests_set_root) auto
    qed
  qed
qed

lemma release_all_requests:
  "release_all f p ls = Inr (f', p', ans) \<Longrightarrow> forest_requests f' \<union> request_key ` set ans \<subseteq> forest_requests f"
proof (induction f p ls arbitrary: f' p' ans rule: release_all.induct)
  case (2 f p path m locks)
  from "2.prems" obtain f1 p1 code ans1 ans2 where
    r: "forest_release f p path m = Inr (f1, p1, code, ans1)"
      "release_all f1 p1 locks = Inr (f', p', ans2)" "ans = ans1 @ ans2"
    by (auto split: sum.splits)
  have "forest_requests f' \<union> request_key ` set ans2 \<subseteq> forest_requests f1"
    using "2.IH"[OF r(1) refl refl refl r(2)] .
  with forest_release_requests[OF r(1)] r(3) show ?case by auto
qed simp

lemma release_loop_requests:
  assumes "release_loop f p = Some (Inr (f', p', ans))"
  shows "forest_requests f' \<union> request_key ` set ans \<subseteq> forest_requests f"
proof -
  have "\<forall>f' p' ans. res = Inr (f', p', ans) \<longrightarrow> forest_requests f' \<union> request_key ` set ans \<subseteq> forest_requests f"
    if "release_loop f p = Some res" for res
    using that
  proof (rule release_loop.raw_induct[rotated])
    fix rl :: "lock_forest \<Rightarrow> process \<Rightarrow> (fault + lock_forest \<times> process \<times> lock_request list) option"
      and f p res
    assume IH: "\<And>f p res. rl f p = Some res \<Longrightarrow>
        \<forall>f' p' ans. res = Inr (f', p', ans) \<longrightarrow> forest_requests f' \<union> request_key ` set ans \<subseteq> forest_requests f"
      and body: "(if 0 < get_lock_count p then
          (case release_all f p (get_held_locks p) of
             Inl e \<Rightarrow> Some (Inl e)
           | Inr (f', p', ans) \<Rightarrow> Option.bind (rl f' p') (add_answered ans))
        else Some (Inr (f, p, []))) = Some res"
    show "\<forall>f' p' ans. res = Inr (f', p', ans) \<longrightarrow> forest_requests f' \<union> request_key ` set ans \<subseteq> forest_requests f"
    proof (intro allI impI)
      fix f' p' ans
      assume res: "res = Inr (f', p', ans)"
      show "forest_requests f' \<union> request_key ` set ans \<subseteq> forest_requests f"
      proof (cases "0 < get_lock_count p")
        case True
        with body res obtain f1 p1 ans1 res1 where r0: "release_all f p (get_held_locks p) = Inr (f1, p1, ans1)"
          "rl f1 p1 = Some res1" "add_answered ans1 res1 = Some (Inr (f', p', ans))"
          by (auto simp: bind_eq_Some_conv split: sum.splits)
        then obtain ans2 where r: "release_all f p (get_held_locks p) = Inr (f1, p1, ans1)"
          "rl f1 p1 = Some (Inr (f', p', ans2))" "ans = ans1 @ ans2"
          by (cases res1) (auto simp: add_answered_def)
        from release_all_requests[OF r(1)] IH[OF r(2)] r(3) show ?thesis by auto
      next
        case False
        with body res show ?thesis by simp
      qed
    qed
  qed
  with assms show ?thesis by blast
qed

subsection \<open>The backend\<close>

definition request_ok :: "backend \<Rightarrow> request_key \<Rightarrow> bool" where
  "request_ok b k = (case k of (p, e, \<pi>) \<Rightarrow>
     (e \<longrightarrow> find_process (Process_table b) p \<noteq> None) \<and> length (join_path \<pi>) < 2 ^ 16)"

definition requests_ok :: "backend \<Rightarrow> bool" where
  "requests_ok b \<longleftrightarrow> (\<forall>k \<in> forest_requests (Forest b). request_ok b k)"

lemma requests_ok_new [simp]: "requests_ok backend_new"
  by (simp add: requests_ok_def backend_new_def forest_new_def forest_requests_def)

text \<open>Joining the components of a path never gives more than the path had.\<close>

lemma length_dotted: "length (dotted cs) = (\<Sum>c\<leftarrow>cs. length c) + (length cs - 1)"
  by (induction cs rule: dotted.induct) auto

lemma length_dotted_filter: "length (dotted (filter P ws @ [w])) \<le> length (dotted (ws @ [w]))"
proof -
  have "(\<Sum>c\<leftarrow>filter P ws. length c) \<le> (\<Sum>c\<leftarrow>ws. length c)" by (induction ws) auto
  with length_filter_le[of P ws] show ?thesis unfolding length_dotted by (simp add: add_mono)
qed

lemma length_join_split: "length (join_path (split_path s)) \<le> length s"
proof -
  have "join_path (split_path s) = dotted (keep_components (split_dots s))"
    using join_path_dotted[OF split_path_ok[of s]] by (simp add: split_path_eq)
  moreover have "length (dotted (keep_components (split_dots s))) \<le> length (dotted (split_dots s))"
    using length_dotted_filter[of "\<lambda>w. w \<noteq> []" "butlast (split_dots s)" "last (split_dots s)"]
    by (simp add: keep_components_def append_butlast_last_id)
  ultimately show ?thesis by (simp add: dotted_split)
qed

lemma request_ok_known:
  "find_process (Process_table b) p \<noteq> None \<Longrightarrow> length s < 2 ^ 16 \<Longrightarrow> request_ok b (p, e, split_path s)"
  using length_join_split[of s] by (simp add: request_ok_def)

text \<open>The same processes, more or fewer requests.\<close>

lemma requests_ok_mono:
  assumes "requests_ok b" "forest_requests (Forest b') \<subseteq> K \<union> forest_requests (Forest b)"
    and "\<And>i. find_process (Process_table b) i \<noteq> None \<Longrightarrow> find_process (Process_table b') i \<noteq> None"
    and "\<forall>k \<in> K. request_ok b' k"
  shows "requests_ok b'"
proof -
  have "request_ok b' k" if "request_ok b k" for k
    using that assms(3) by (cases k) (auto simp: request_ok_def)
  with assms(1,2,4) show ?thesis by (auto simp: requests_ok_def)
qed

lemma find_store: "find_process (store_process p pm) i = (if i = proc_id p then Some p else find_process pm i)"
  by (simp add: find_process_def store_process_def smap.get_put)

lemma forest_proc_id:
  "forest_acquire f p s m = Inr (f', p', ret) \<Longrightarrow> proc_id p' = proc_id p"
  "forest_release f p s m = Inr (f', p', code, ans) \<Longrightarrow> proc_id p' = proc_id p"
  "forest_create f p s x = Inr (f', p', res) \<Longrightarrow> proc_id p' = proc_id p"
  by (auto simp: forest_acquire_def forest_release_def forest_create_def Let_def
      split: if_splits option.splits sum.splits acquire_code.splits)

lemma acquire_lock_requests:
  assumes "backend_inv b" "requests_ok b" "acquire_lock b i s m = Inr (b', status)" "length s < 2 ^ 16"
  shows "requests_ok b'"
proof (cases "find_process (Process_table b) i")
  case None
  with assms show ?thesis by (simp add: acquire_lock_def)
next
  case (Some p)
  with assms(3) obtain f' p' ret where f: "forest_acquire (Forest b) p s m = Inr (f', p', ret)"
    "b' = \<lparr>Forest = f', Process_table = store_process p' (Process_table b)\<rparr>"
    by (auto simp: acquire_lock_def split: sum.splits)
  have "proc_id p = i" using backend_inv_process[OF assms(1) Some] by simp
  with f Some assms(4) forest_acquire_requests[OF f(1)] forest_proc_id(1)[OF f(1)] show ?thesis
    by (intro requests_ok_mono[OF assms(2), of b' "{(i, True, split_path s)}"])
      (auto simp: find_store intro!: request_ok_known)
qed

lemma create_lock_requests:
  assumes "backend_inv b" "requests_ok b" "create_lock b i s x = Inr (b', res)" "length s < 2 ^ 16"
  shows "requests_ok b'"
proof (cases "find_process (Process_table b) i")
  case None
  with assms show ?thesis by (simp add: create_lock_def)
next
  case (Some p)
  with assms(3) obtain f' p' ret where f: "forest_create (Forest b) p s x = Inr (f', p', ret)"
    "b' = \<lparr>Forest = f', Process_table = store_process p' (Process_table b)\<rparr>"
    by (auto simp: create_lock_def split: sum.splits)
  have "proc_id p = i" using backend_inv_process[OF assms(1) Some] by simp
  with f Some assms(4) forest_create_requests[OF f(1)] forest_proc_id(3)[OF f(1)] show ?thesis
    by (intro requests_ok_mono[OF assms(2), of b' "{(i, True, split_path s)}"])
      (auto simp: find_store intro!: request_ok_known)
qed

lemma release_lock_requests:
  assumes "backend_inv b" "requests_ok b" "release_lock b i s m = Inr (b', status, ans)"
  shows "requests_ok b'" "\<forall>r \<in> set ans. request_ok b' (request_key r)"
proof -
  have "requests_ok b' \<and> (\<forall>r \<in> set ans. request_ok b' (request_key r))"
  proof (cases "find_process (Process_table b) i")
    case None
    with assms show ?thesis by (simp add: release_lock_def)
  next
    case (Some p)
    with assms(3) obtain f' p' code where f: "forest_release (Forest b) p s m = Inr (f', p', code, ans)"
      "b' = \<lparr>Forest = f', Process_table = store_process p' (Process_table b)\<rparr>"
      by (auto simp: release_lock_def split: sum.splits)
    note sub = forest_release_requests[OF f(1)]
    have ok: "request_ok b' k" if "k \<in> forest_requests (Forest b)" for k
      using assms(2) that f(2) by (cases k) (force simp: requests_ok_def request_ok_def find_store)
    from sub have "forest_requests (Forest b') \<subseteq> forest_requests (Forest b)"
      "\<forall>r \<in> set ans. request_key r \<in> forest_requests (Forest b)" by (auto simp: f(2))
    with ok show ?thesis unfolding requests_ok_def by blast
  qed
  then show "requests_ok b'" "\<forall>r \<in> set ans. request_ok b' (request_key r)" by auto
qed

lemma unregister_requests:
  assumes "backend_inv b" "requests_ok b" "unregister_process b i = Some (Inr (b', code, ans))"
  shows "requests_ok b'" "\<forall>r \<in> set ans. request_ok b' (request_key r)"
proof -
  have "requests_ok b' \<and> (\<forall>r \<in> set ans. request_ok b' (request_key r))"
  proof (cases "find_process (Process_table b) i")
    case None
    with assms have "b' = b" "ans = []"
      by (auto simp: unregister_process_def try_destroy_def find_process_def)
    with assms(2) show ?thesis by simp
  next
    case (Some p)
    note p = backend_inv_process[OF assms(1) Some]
    from assms(3) Some obtain r where r: "release_loop (Forest b) p = Some r"
      by (auto simp: unregister_process_def try_destroy_def find_process_def bind_eq_Some_conv)
    from release_loop_correct[OF r] p assms(1) obtain f' p' ans' where
      f: "r = Inr (f', p', ans')" "proc_id p' = i" by (auto simp: backend_inv_def)
    let ?mark = "\<lambda>(q, e, \<pi>). (q, e \<and> q \<noteq> i, \<pi>) :: request_key"
    have b': "b' = \<lparr>Forest = mark_destroyed i f',
        Process_table = (Process_table b)\<lparr>Processes := smap_del i (Processes (Process_table b))\<rparr>\<rparr>"
      and ans: "ans = map (mark_request i) ans'"
      using assms(3) Some r f
      by (auto simp: unregister_process_def try_destroy_def find_process_def erase_process_def get_id_def)
    have ok: "request_ok b' (?mark k)" if "k \<in> forest_requests (Forest b)" for k
      using assms(2) that
      by (cases k) (force simp: requests_ok_def request_ok_def b' find_process_def smap.get_del)
    have "forest_requests (mark_destroyed i f') = ?mark ` forest_requests f'"
      by (simp add: forest_requests_def mark_destroyed_def case_prod_unfold mark_lock_requests image_UN)
    moreover have "request_key (mark_request i r) = ?mark (request_key r)" for r
      by (simp add: request_key_def mark_request_def set_requester_destroyed_def)
    ultimately show ?thesis using release_loop_requests[OF r[unfolded f(1)]] ok
      by (auto simp: requests_ok_def ans b' split: prod.splits)
  qed
  then show "requests_ok b'" "\<forall>r \<in> set ans. request_ok b' (request_key r)" by auto
qed

lemma register_requests: "requests_ok b \<Longrightarrow> register_process b = Inr (b', i) \<Longrightarrow> requests_ok b'"
  by (rule requests_ok_mono[of b b' "{}"])
    (auto simp: register_process_def Process_map_create_def find_process_def smap.get_put Let_def
      split: sum.splits if_splits)

lemma update_pid_requests: "requests_ok b \<Longrightarrow> requests_ok (update_pid_connection b i c)"
  by (rule requests_ok_mono[of b _ "{}"])
    (auto simp: update_pid_connection_def find_store split: option.splits)

text \<open>Both invariants together.\<close>

definition backend_good :: "backend \<Rightarrow> bool" where
  "backend_good b \<longleftrightarrow> backend_inv b \<and> requests_ok b"

lemma backend_good_new [simp]: "backend_good backend_new"
  by (simp add: backend_good_def)

lemma backend_good_update: "backend_good b \<Longrightarrow> backend_good (update_pid_connection b i c)"
  by (simp add: backend_good_def update_pid_connection_inv update_pid_requests)

lemma backend_good_register: "backend_good b \<Longrightarrow> register_process b = Inr (b', i) \<Longrightarrow> backend_good b'"
  using register_inv register_requests unfolding backend_good_def by blast

lemma backend_good_unregister:
  assumes "backend_good b" "unregister_process b i = Some (Inr (b', code, ans))"
  shows "backend_good b'"
proof -
  from unregister_inv[OF _ assms(2)] assms(1) have "backend_inv b'" by (auto simp: backend_good_def)
  with unregister_requests(1)[OF _ _ assms(2)] assms(1) show ?thesis by (simp add: backend_good_def)
qed

lemma backend_good_create:
  assumes "backend_good b" "create_lock b i s x = Inr (b', res)" "length s < 2 ^ 16"
  shows "backend_good b'"
  using create_lock_correct[of b i s x] create_lock_requests[of b i s x b' res] assms
  by (auto simp: backend_good_def)

lemma backend_good_acquire:
  assumes "backend_good b" "acquire_lock b i s m = Inr (b', status)" "length s < 2 ^ 16"
  shows "backend_good b'"
  using acquire_lock_correct[of b i s m] acquire_lock_requests[of b i s m b' status] assms
  by (auto simp: backend_good_def)

lemma backend_good_release:
  assumes "backend_good b" "release_lock b i s m = Inr (b', status, ans)"
  shows "backend_good b'"
  using release_lock_correct[of b i s m] release_lock_requests(1)[of b i s m b' status ans] assms
  by (auto simp: backend_good_def)

lemmas backend_good_ops = backend_good_update backend_good_register backend_good_unregister
  backend_good_create backend_good_acquire backend_good_release

end
