(* ===== verification/Daemon_Spec.thy ===== *)
theory Daemon_Spec
  imports Daemon_Rules Requesters
begin

text \<open>
  What the daemon promises, without streams and memory: the bytes of each answer and
  notification, and which of them a message causes. \<open>respond\<close> maps the bytes of a message to
  the new backend and the list of messages that are sent.
\<close>

subsection \<open>The bytes of the answers\<close>

definition message :: "byte \<Rightarrow> byte list \<Rightarrow> byte list" where
  "message i body = header i (of_nat (length body)) @ body"

definition path_field :: "string \<Rightarrow> byte list" where
  "path_field path = big_endian 2 (of_nat (length path) :: u16) @ bytes_of_string path"

definition update_message :: "process \<Rightarrow> lock_request \<Rightarrow> byte list" where
  "update_message p r =
     message (if create_missing r then MSG_ID_CREATE_LOCK_UPDATE else MSG_ID_ACQUIRE_LOCK_UPDATE)
       (big_endian 4 (get_id p) @ path_field (join_path (req_path r)) @
        (if create_missing r then [] else [req_mode r]) @ big_endian 2 (update_status r))"

definition is_open :: "daemon \<Rightarrow> conn \<Rightarrow> bool" where
  "is_open d c \<longleftrightarrow> map_of (polled_fds d) c \<noteq> None"

text \<open>The notifications: one for each request whose process and connection still exist.\<close>

fun updates :: "daemon \<Rightarrow> lock_request list \<Rightarrow> (conn \<times> byte list) list" where
  "updates d [] = []"
| "updates d (r # rs) =
     (if requester_exists r then
        (case find_process (Process_table (daemon_backend d)) (requester r) of
           None \<Rightarrow> []
         | Some p \<Rightarrow>
             (case get_tcp_conn p of
                None \<Rightarrow> []
              | Some uc \<Rightarrow> if is_open d uc then [(uc, update_message p r)] else []))
      else []) @ updates d rs"

definition connection_entry :: "tcp_connection \<Rightarrow> byte list" where
  "connection_entry t = [0] @ big_endian 4 (byte_swap (sin_addr t)) @ big_endian 2 (byte_swap (sin_port t))"

definition process_entry :: "process \<Rightarrow> byte list" where
  "process_entry p = big_endian 4 (get_id p) @ big_endian 4 (get_lock_count p)"

definition lock_entry :: "lock \<times> nat \<Rightarrow> byte list" where
  "lock_entry ll = big_endian 4 (of_nat (snd ll) :: u32) @ path_field (name_of (fst ll)) @ [lock_status (fst ll)]"

definition held_lock_entry :: "string \<times> lock_mode \<Rightarrow> byte list" where
  "held_lock_entry pm = path_field (fst pm) @ [snd pm]"

definition connections_body :: "daemon \<Rightarrow> byte list" where
  "connections_body d = concat (map connection_entry (map snd (polled_fds d)))"

definition processes_body :: "daemon \<Rightarrow> byte list" where
  "processes_body d = concat (map process_entry (for_each_process (Process_table (daemon_backend d))))"

definition locks_body :: "daemon \<Rightarrow> byte list" where
  "locks_body d = concat (map lock_entry (for_each_lock (Forest (daemon_backend d))))"

definition held_locks_body :: "daemon \<Rightarrow> proc \<Rightarrow> byte list" where
  "held_locks_body d pid =
     (case find_process (Process_table (daemon_backend d)) pid of
        None \<Rightarrow> big_endian 4 pid @ big_endian 2 RESPONSE_STATUS_NO_SUCH_PROCESS
      | Some p \<Rightarrow> big_endian 4 pid @ big_endian 2 RESPONSE_STATUS_SUCCESS @
          concat (map held_lock_entry (get_held_locks p)))"

subsection \<open>The fields of a message\<close>

definition msg_length :: "byte list \<Rightarrow> u32" where
  "msg_length m = from_bytes (take 4 (drop 1 m))"

definition msg_pid :: "byte list \<Rightarrow> proc" where
  "msg_pid m = (if 9 \<le> length m then from_bytes (take 4 (drop 5 m)) else 0)"

definition msg_path_length :: "byte list \<Rightarrow> nat" where
  "msg_path_length m = unat (from_bytes (take 2 (drop 9 m)) :: u16)"

definition msg_path :: "byte list \<Rightarrow> string" where
  "msg_path m = string_of_bytes (take (msg_path_length m) (drop 11 m))"

definition msg_byte :: "byte list \<Rightarrow> byte" where
  "msg_byte m = m ! (11 + msg_path_length m)"

text \<open>A lock message is well-formed if it has the path it declares and one more byte.\<close>

definition well_formed :: "byte list \<Rightarrow> bool" where
  "well_formed m \<longleftrightarrow> 5 \<le> length m \<and>
     (m ! 0 \<in> {MSG_ID_CREATE_LOCK, MSG_ID_RELEASE_LOCK, MSG_ID_ACQUIRE_LOCK} \<longrightarrow>
        11 < length m \<and> 11 + msg_path_length m < length m)"

subsection \<open>The abstract daemon\<close>

definition respond ::
    "(lock_request list \<Rightarrow> lock_request list) \<Rightarrow> conn \<Rightarrow> byte list \<Rightarrow> daemon \<Rightarrow>
     (backend \<times> (conn \<times> byte list) list) outcome" where
  "respond arrange c m d =
     (let b = daemon_backend d; i = m ! 0; pid = msg_pid m;
          b0 = update_pid_connection b pid c
      in if i = MSG_ID_LIST_CONNS then Ok (b, [(c, message MSG_ID_LIST_CONNS_RESPONSE (connections_body d))])
         else if i = MSG_ID_LIST_PROCS then Ok (b, [(c, message MSG_ID_LIST_PROCS_RESPONSE (processes_body d))])
         else if i = MSG_ID_LIST_LOCKS then Ok (b, [(c, message MSG_ID_LIST_LOCKS_RESPONSE (locks_body d))])
         else if i = MSG_ID_LIST_LOCKS_PROCESS then
           Ok (b, if msg_length m = 4
                  then [(c, message MSG_ID_LIST_LOCKS_PROCESS_RESPONSE (held_locks_body d pid))] else [])
         else if i = MSG_ID_REG_PROC then
           Ok (case register_process b of
                 Inl e \<Rightarrow> (b, [(c, message MSG_ID_REG_PROC_RESPONSE
                   (big_endian 4 pid @ big_endian 2 RESPONSE_STATUS_TOO_MANY_PROCESSES))])
               | Inr (b', i) \<Rightarrow> (update_pid_connection b' i c, [(c, message MSG_ID_REG_PROC_RESPONSE
                   (big_endian 4 pid @ big_endian 2 RESPONSE_STATUS_SUCCESS @ big_endian 4 i))]))
         else if i = MSG_ID_UNREG_PROC then
           andthen (andthen (ended (unregister_process b0 pid)) checked) (\<lambda>(b', code, ans).
           Ok (b', (c, message MSG_ID_UNREG_PROC_RESPONSE
                 (big_endian 4 pid @ big_endian 2 (unregister_status code))) #
               updates (d\<lparr>daemon_backend := b'\<rparr>) (arrange ans)))
         else if i = MSG_ID_CREATE_LOCK then
           andthen (checked (create_lock b0 pid (msg_path m) (0 < msg_byte m))) (\<lambda>(b', res).
           Ok (b', [(c, message MSG_ID_CREATE_LOCK_UPDATE
                 (big_endian 4 pid @ path_field (msg_path m) @ big_endian 2 (create_status res)))]))
         else if i = MSG_ID_RELEASE_LOCK then
           andthen (checked (release_lock b0 pid (msg_path m) (msg_byte m))) (\<lambda>(b', status, ans).
           Ok (b', (c, message MSG_ID_RELEASE_LOCK_RESPONSE (drop 5 m @ big_endian 2 status)) #
               updates (d\<lparr>daemon_backend := b'\<rparr>) (arrange ans)))
         else if i = MSG_ID_ACQUIRE_LOCK then
           andthen (checked (acquire_lock b0 pid (msg_path m) (msg_byte m))) (\<lambda>(b', status).
           Ok (b', [(c, message MSG_ID_ACQUIRE_LOCK_UPDATE (drop 5 m @ big_endian 2 status))]))
         else Ok (b, []))"

subsection \<open>Messages in the send queues\<close>

text \<open>A stream that is ready to be sent with the bytes \<open>m\<close>.\<close>

definition ready :: "stream \<Rightarrow> byte list \<Rightarrow> bool" where
  "ready s m \<longleftrightarrow> stream_inv s \<and> s_buffer s \<noteq> None \<and> stream_contents s = m \<and> s_length s = length m"

definition carries :: "conn \<times> stream \<Rightarrow> conn \<times> byte list \<Rightarrow> bool" where
  "carries cs cm \<longleftrightarrow> fst cs = fst cm \<and> ready (snd cs) (snd cm)"

fun post :: "(conn \<times> stream) list \<Rightarrow> daemon \<Rightarrow> daemon" where
  "post [] d = d"
| "post ((c, s) # ss) d = post ss (send_on c s d)"

text \<open>\<open>d'\<close> is \<open>d\<close> after sending \<open>outs\<close>, as far as the connections go.\<close>

definition posted :: "daemon \<Rightarrow> (conn \<times> byte list) list \<Rightarrow> daemon \<Rightarrow> bool" where
  "posted d outs d' \<longleftrightarrow> (\<exists>ss. list_all2 carries ss outs \<and> polled_fds d' = polled_fds (post ss d))"

definition outbox :: "daemon \<Rightarrow> conn \<Rightarrow> byte list list" where
  "outbox d c =
     (case map_of (polled_fds d) c of
        None \<Rightarrow> [] | Some t \<Rightarrow> map stream_contents (send_queue (conn_state t)))"

lemma daemon_backend_send_on [simp]: "daemon_backend (send_on c s d) = daemon_backend d"
  by (simp add: send_on_def split: option.split)

lemma is_open_send_on [simp]: "is_open (send_on c s d) c' = is_open d c'"
  by (auto simp: is_open_def send_on_def smap.get_put split: option.split)

lemma is_open_backend [simp]: "is_open (d\<lparr>daemon_backend := b\<rparr>) c = is_open d c"
  by (simp add: is_open_def)

lemma polled_send_on_cong:
  "polled_fds d = polled_fds d' \<Longrightarrow> polled_fds (send_on c s d) = polled_fds (send_on c s d')"
  by (simp add: send_on_def split: option.split)

lemma polled_post_cong: "polled_fds d = polled_fds d' \<Longrightarrow> polled_fds (post ss d) = polled_fds (post ss d')"
proof (induction ss arbitrary: d d')
  case (Cons cs ss)
  obtain c s where "cs = (c, s)" by fastforce
  with Cons.IH[OF polled_send_on_cong[OF Cons.prems]] show ?case by simp
qed simp

lemma post_append: "post (ss @ ts) d = post ts (post ss d)"
  by (induction ss d rule: post.induct) auto

lemma posted_refl: "polled_fds d' = polled_fds d \<Longrightarrow> posted d [] d'"
  by (simp add: posted_def)

lemma posted_trans:
  assumes "posted d outs d1" "posted d1 outs' d'"
  shows "posted d (outs @ outs') d'"
proof -
  obtain ss ts where "list_all2 carries ss outs" "polled_fds d1 = polled_fds (post ss d)"
    "list_all2 carries ts outs'" "polled_fds d' = polled_fds (post ts d1)"
    using assms by (auto simp: posted_def)
  then have "list_all2 carries (ss @ ts) (outs @ outs')" "polled_fds d' = polled_fds (post (ss @ ts) d)"
    using polled_post_cong[of d1 "post ss d" ts] by (auto simp: list_all2_appendI post_append)
  then show ?thesis unfolding posted_def by blast
qed

lemma posted_send: "ready s m \<Longrightarrow> polled_fds d0 = polled_fds d \<Longrightarrow> posted d0 [(c, m)] (send_on c s d)"
  unfolding posted_def
  by (rule exI[of _ "[(c, s)]"]) (auto simp: carries_def intro: polled_send_on_cong)

lemma writing_ready: "writing s bs k \<Longrightarrow> bs \<noteq> [] \<Longrightarrow> ready s bs"
  by (auto simp: writing_def ready_def stream_inv_def split: option.splits)

lemma outbox_send_on:
  "outbox (send_on c s d) c' =
     outbox d c' @ (if c' = c \<and> is_open d c then [stream_contents (stream_seek 0 s)] else [])"
  by (auto simp: outbox_def send_on_def smap.get_put is_open_def send_def split: option.split)

lemma contents_seek [simp]: "stream_contents (stream_seek p s) = stream_contents s"
  by (simp add: stream_contents_def stream_seek_def split: option.split)

lemma outbox_posted:
  assumes "posted d outs d'"
  shows "outbox d' c = outbox d c @ (if is_open d c then map snd (filter (\<lambda>(c', m). c' = c) outs) else [])"
    "is_open d' c = is_open d c"
proof -
  obtain ss where ss: "list_all2 carries ss outs" "polled_fds d' = polled_fds (post ss d)"
    using assms by (auto simp: posted_def)
  have "outbox (post ss d) c =
      outbox d c @ (if is_open d c then map snd (filter (\<lambda>(c', m). c' = c) outs) else []) \<and>
      is_open (post ss d) c = is_open d c"
    using ss(1)
  proof (induction ss arbitrary: d outs)
    case Nil
    then show ?case by simp
  next
    case (Cons cs ss)
    then obtain co os where o: "outs = co # os" "carries cs co" "list_all2 carries ss os"
      by (auto simp: list_all2_Cons1)
    obtain x s y m where p: "cs = (x, s)" "co = (y, m)" by fastforce
    from Cons.IH[OF o(3), of "send_on x s d"] o(1,2) p show ?case
      by (auto simp: outbox_send_on carries_def ready_def)
  qed
  moreover have "outbox d' c = outbox (post ss d) c" "is_open d' c = is_open (post ss d) c"
    using ss(2) by (simp_all add: outbox_def is_open_def)
  ultimately show "outbox d' c = outbox d c @ (if is_open d c then map snd (filter (\<lambda>(c', m). c' = c) outs) else [])"
    "is_open d' c = is_open d c" by simp_all
qed

lemma updates_cong:
  "daemon_backend d = daemon_backend d' \<Longrightarrow> (\<And>c. is_open d c = is_open d' c) \<Longrightarrow> updates d rs = updates d' rs"
  by (induction d rs rule: updates.induct) (auto split: option.splits)

end
