(* ===== verification/Daemon_Correct.thy ===== *)
theory Daemon_Correct
  imports Daemon_Spec
begin

text \<open>
  The handlers of the daemon implement \<open>respond\<close>. With memory available the messages that a
  handler queues are exactly those of the specification; without it some may be missing, but
  there is no undefined behaviour.
\<close>

subsection \<open>Reading the message\<close>

lemma letoh_little [simp]: "letoh Little_Endian w = w"
  by (simp add: letoh_def)

lemma read32_eq:
  assumes "reading s m p" "p + 4 \<le> length m"
  shows "stream_read_uint32_t Little_Endian s = Inr (from_bytes (take 4 (drop p m)), s\<lparr>s_pos := p + 4\<rparr>)"
  using read_word_ok[OF assms(1), of 4 Little_Endian, where ?'a = 32] assms(2)
  by (simp add: stream_read_uint32_t_def)

lemma read16_eq:
  assumes "reading s m p" "p + 2 \<le> length m"
  shows "stream_read_uint16_t Little_Endian s = Inr (from_bytes (take 2 (drop p m)), s\<lparr>s_pos := p + 2\<rparr>)"
  using read_word_ok[OF assms(1), of 2 Little_Endian, where ?'a = 16] assms(2)
  by (simp add: stream_read_uint16_t_def)

lemma read_pid_eq:
  assumes "reading s m 5" "5 \<le> length m"
  shows "\<exists>s'. stream_read_uint32_t Little_Endian s = Inr (msg_pid m, s')"
  using read_word_ok[OF assms(1), of 4 Little_Endian, where ?'a = 32]
  by (simp add: stream_read_uint32_t_def msg_pid_def)

lemma reading_at:
  "reading s m p \<Longrightarrow> length m < 2 ^ 63 \<Longrightarrow> q \<le> length m \<Longrightarrow> m \<noteq> [] \<Longrightarrow> reading (s\<lparr>s_pos := q\<rparr>) m q"
  by (rule reading_advance) auto

lemma read_path_eq:
  assumes "reading s m p" "p + n \<le> length m" "m \<noteq> []"
  shows "read_path n s = Inr (string_of_bytes (take n (drop p m)), stream_seek (p + n) s)"
proof -
  obtain b where b: "s_buffer s = Some b" "length b = s_capacity s" "take (length m) b = m" "length m \<le> length b"
    using assms by (cases "s_buffer s") (auto simp: reading_def stream_inv_def stream_contents_def)
  have "take n (drop p b) = take n (drop p m)"
    using assms(2) b(3) by (metis add.commute le_add_diff_inverse2 le_diff_conv2 min.absorb1 take_drop take_take)
  with b assms show ?thesis by (simp add: read_path_def reading_def)
qed

lemma read_lock_message_eq:
  assumes "reading s m 5" "length m < 2 ^ 63" "11 + msg_path_length m < length m"
  shows "\<exists>s'. read_lock_message Little_Endian s =
      Ok (msg_pid m, of_nat (msg_path_length m), msg_path m, msg_byte m, s') \<and>
    (\<exists>q. reading s' m q) \<and> s_capacity s' = s_capacity s"
proof -
  let ?n = "msg_path_length m"
  have ne: "m \<noteq> []" using assms(3) by auto
  have r1: "reading (s\<lparr>s_pos := 9\<rparr>) m 9" and r2: "reading (s\<lparr>s_pos := 11\<rparr>) m 11"
    using assms ne by (auto intro: reading_at)
  have r3: "reading (s\<lparr>s_pos := 11 + ?n\<rparr>) m (11 + ?n)" and r4: "reading (s\<lparr>s_pos := 12 + ?n\<rparr>) m (12 + ?n)"
    using assms ne by (auto intro!: reading_at)
  have "stream_read_uint32_t Little_Endian s = Inr (msg_pid m, s\<lparr>s_pos := 9\<rparr>)"
    using read32_eq[OF assms(1)] assms(3) by (simp add: msg_pid_def)
  moreover have "stream_read_uint16_t Little_Endian (s\<lparr>s_pos := 9\<rparr>) =
      Inr (of_nat ?n, s\<lparr>s_pos := 11\<rparr>)"
    using read16_eq[OF r1] assms(3) by (simp add: msg_path_length_def)
  moreover have "unat (of_nat ?n :: u16) = ?n" by (simp add: msg_path_length_def)
  moreover have "read_path ?n (s\<lparr>s_pos := 11\<rparr>) = Inr (msg_path m, s\<lparr>s_pos := 11 + ?n\<rparr>)"
    using read_path_eq[OF r2, of ?n] assms(2,3) ne by (simp add: msg_path_def stream_seek_def)
  moreover have "stream_read_uint8_t (s\<lparr>s_pos := 11 + ?n\<rparr>) = Inr (msg_byte m, s\<lparr>s_pos := 12 + ?n\<rparr>)"
    using read_uint8_ok[OF r3] assms(3) by (simp add: msg_byte_def)
  ultimately show ?thesis using r4
    by (intro exI[of _ "s\<lparr>s_pos := 12 + ?n\<rparr>"]) (auto simp: read_lock_message_def)
qed

lemma length_msg_path: "11 + msg_path_length m < length m \<Longrightarrow> length (msg_path m) = msg_path_length m"
  by (simp add: msg_path_def string_of_bytes_def)

lemma msg_path_length_bound: "msg_path_length m < 2 ^ 16"
  using unsigned_less[of "from_bytes (take 2 (drop 9 m)) :: u16"] by (simp add: msg_path_length_def)

subsection \<open>Notifications\<close>

definition complete_or_oom :: "bool \<Rightarrow> 'a list \<Rightarrow> 'a list \<Rightarrow> bool" where
  "complete_or_oom oom outs' outs \<longleftrightarrow> (if oom then subseq outs' outs else outs' = outs)"

lemma sent_refl [simp]: "complete_or_oom oom outs outs"
  by (simp add: complete_or_oom_def)

lemma sent_append:
  "complete_or_oom oom a a' \<Longrightarrow> complete_or_oom oom b b' \<Longrightarrow> complete_or_oom oom (a @ b) (a' @ b')"
  by (auto simp: complete_or_oom_def list_emb_append_mono split: if_splits)

lemma sent_Nil: "oom \<Longrightarrow> complete_or_oom oom [] outs"
  by (simp add: complete_or_oom_def)

lemma write_update_rule:
  assumes "writing s [] (length (update_message p r))" "path = join_path (req_path r)"
    and "plength = of_nat (length (update_message p r) - 5)"
  shows "ensures oom hang (\<lambda>s'. writing s' (update_message p r) 0)
    (write_update Little_Endian alloc plength r p path s)"
proof -
  let ?k = "length (update_message p r)"
  have k: "?k = 13 + length path + (if create_missing r then 0 else 1)"
    by (simp add: update_message_def message_def path_field_def assms(2))
  have m: "update_message p r = header (if create_missing r then MSG_ID_CREATE_LOCK_UPDATE else MSG_ID_ACQUIRE_LOCK_UPDATE)
      plength @ big_endian 4 (get_id p) @ big_endian 2 (of_nat (length path) :: u16) @ bytes_of_string path @
      (if create_missing r then [] else [req_mode r]) @ big_endian 2 (update_status r)"
    by (simp add: update_message_def message_def path_field_def assms(2,3))
  show ?thesis
  proof (cases "create_missing r")
    case True
    then show ?thesis
      unfolding write_update_def
      by (intro header_rule[OF assms(1)], use k in simp, simp only: prod.case, elim write32_rule, use k in simp,
          elim write16_rule, use k in simp, elim put_string_rule, use k in simp,
          simp only: if_True andthen.simps, elim write_last_rules, use k m in simp_all)
  next
    case False
    then show ?thesis
      unfolding write_update_def
      by (intro header_rule[OF assms(1)], use k in simp, simp only: prod.case, elim write32_rule, use k in simp,
          elim write16_rule, use k in simp, elim put_string_rule, use k in simp,
          simp only: if_False, elim write8_rule, use k in simp, elim write_last_rules, use k m in simp_all)
  qed
qed

text \<open>What a notification may cost: its bytes fit in \<open>unsigned\<close>.\<close>

lemma length_update_message:
  "length (update_message p r) = 13 + length (join_path (req_path r)) + (if create_missing r then 0 else 1)"
  by (simp add: update_message_def message_def path_field_def)

lemma notify_request_rule:
  assumes "mem_good oom mem" "request_ok (daemon_backend d) (request_key r)"
  shows "ensures oom hang (\<lambda>d'. daemon_backend d' = daemon_backend d \<and>
      (\<exists>outs. posted d outs d' \<and> complete_or_oom oom outs (updates d [r])))
    (notify_request Little_Endian mem r d)"
proof (cases "requester_exists r")
  case False
  then show ?thesis by (auto simp: notify_request_def intro!: posted_refl exI[of _ "[]"])
next
  case ex: True
  then obtain p where p: "find_process (Process_table (daemon_backend d)) (requester r) = Some p"
    using assms(2) by (auto simp: request_ok_def request_key_def)
  show ?thesis
  proof (cases "\<exists>uc. get_tcp_conn p = Some uc \<and> is_open d uc")
    case False
    with ex p show ?thesis
      by (cases "get_tcp_conn p")
        (auto simp: notify_request_def is_open_def intro!: posted_refl exI[of _ "[]"])
  next
    case True
    then obtain uc where uc: "get_tcp_conn p = Some uc" "is_open d uc" by blast
    let ?m = "update_message p r"
    define path where "path = join_path (req_path r)"
    define plength :: u32 where
      "plength = of_nat (4 + 2 + length path + (if create_missing r then 0 else 1) + 2)"
    have len: "length path < 2 ^ 16"
      using assms(2) by (simp add: request_ok_def request_key_def path_def)
    have pl: "plength = of_nat (length ?m - 5)"
      by (simp add: plength_def length_update_message path_def)
    have size: "unat (plength + 5) = length ?m"
    proof -
      have "plength + 5 = of_nat (length ?m)" using pl by (simp add: length_update_message)
      moreover have "length ?m < 2 ^ 32" using len by (simp add: length_update_message path_def)
      ultimately show ?thesis by (simp add: unat_of_nat take_bit_nat_eq_self)
    qed
    obtain t where "map_of (polled_fds d) uc = Some t" using uc(2) by (auto simp: is_open_def)
    then have eq: "notify_request Little_Endian mem r d =
        reply_stream mem (length ?m) (\<lambda>s.
          andthen (write_update Little_Endian (mem 2) plength r p path s) (\<lambda>s. Ok (send_on uc s d))) (Ok d)"
      unfolding notify_request_def Let_def path_def[symmetric] plength_def[symmetric]
      using ex p uc(1) by (simp add: reply_stream_def size split: option.split)
    have m: "updates d [r] = [(uc, ?m)]" using ex p uc by simp
    show ?thesis unfolding eq m
    proof (rule reply_stream_rule[OF assms(1)])
      show "length ?m < 2 ^ 63" using len by (simp add: length_update_message path_def)
      fix s
      assume "writing s [] (length ?m)"
      from write_update_rule[OF this path_def pl]
      show "ensures oom hang (\<lambda>d'. daemon_backend d' = daemon_backend d \<and>
          (\<exists>outs. posted d outs d' \<and> complete_or_oom oom outs [(uc, ?m)]))
        (andthen (write_update Little_Endian (mem 2) plength r p path s) (\<lambda>s. Ok (send_on uc s d)))"
      proof (rule ensures_andthen)
        fix s'
        assume "writing s' ?m 0"
        moreover have "?m \<noteq> []" by (simp add: update_message_def message_def header_def)
        ultimately have "posted d [(uc, ?m)] (send_on uc s' d)" by (intro posted_send writing_ready) auto
        then show "ensures oom hang (\<lambda>d'. daemon_backend d' = daemon_backend d \<and>
            (\<exists>outs. posted d outs d' \<and> complete_or_oom oom outs [(uc, ?m)])) (Ok (send_on uc s' d))" by auto
      qed
    next
      assume oom
      then show "ensures oom hang (\<lambda>d'. daemon_backend d' = daemon_backend d \<and>
          (\<exists>outs. posted d outs d' \<and> complete_or_oom oom outs [(uc, ?m)])) (Ok d)"
        by (auto intro!: posted_refl exI[of _ "[]"] sent_Nil)
    qed
  qed
qed

lemma notify_rule:
  assumes "mem_good oom mem" "\<forall>r \<in> set rs. request_ok (daemon_backend d) (request_key r)"
  shows "ensures oom hang (\<lambda>d'. daemon_backend d' = daemon_backend d \<and>
      (\<exists>outs. posted d outs d' \<and> complete_or_oom oom outs (updates d rs)))
    (notify_answered_requests Little_Endian mem rs d)"
  using assms
proof (induction rs arbitrary: mem d)
  case Nil
  then show ?case by (auto intro!: posted_refl)
next
  case (Cons r rs)
  show ?case
    unfolding notify_answered_requests.simps
  proof (rule ensures_andthen[OF notify_request_rule])
    fix d1
    assume "daemon_backend d1 = daemon_backend d \<and>
      (\<exists>outs. posted d outs d1 \<and> complete_or_oom oom outs (updates d [r]))"
    then obtain outs1 where d1: "daemon_backend d1 = daemon_backend d" "posted d outs1 d1"
      "complete_or_oom oom outs1 (updates d [r])" by blast
    have u: "updates d1 rs = updates d rs"
      by (rule updates_cong) (use d1 outbox_posted(2)[OF d1(2)] in auto)
    have "ensures oom hang (\<lambda>d'. daemon_backend d' = daemon_backend d1 \<and>
        (\<exists>outs. posted d1 outs d' \<and> complete_or_oom oom outs (updates d1 rs)))
      (notify_answered_requests Little_Endian (\<lambda>k. mem (k + 3)) rs d1)"
      using Cons.prems d1(1) by (intro Cons.IH) auto
    then show "ensures oom hang (\<lambda>d'. daemon_backend d' = daemon_backend d \<and>
        (\<exists>outs. posted d outs d' \<and> complete_or_oom oom outs (updates d (r # rs))))
      (notify_answered_requests Little_Endian (\<lambda>k. mem (k + 3)) rs d1)"
    proof (rule ensures_mono)
      fix d'
      assume "daemon_backend d' = daemon_backend d1 \<and>
        (\<exists>outs. posted d1 outs d' \<and> complete_or_oom oom outs (updates d1 rs))"
      then obtain outs2 where d2: "daemon_backend d' = daemon_backend d1" "posted d1 outs2 d'"
        "complete_or_oom oom outs2 (updates d rs)" unfolding u by blast
      have "updates d (r # rs) = updates d [r] @ updates d rs" by simp
      with d1 d2 posted_trans[OF d1(2) d2(2)] sent_append[OF d1(3) d2(3)]
      show "daemon_backend d' = daemon_backend d \<and>
        (\<exists>outs. posted d outs d' \<and> complete_or_oom oom outs (updates d (r # rs)))" by metis
    qed
  qed (use Cons.prems in auto)
qed

subsection \<open>Listings\<close>

lemma header_new_rule:
  assumes "writing s [] 0" "alloc_good oom alloc"
    and "\<And>s'. writing s' (header i n) 0 \<Longrightarrow> ensures oom hang Q (f (s', True))"
    and "\<And>s'. oom \<Longrightarrow> ensures oom hang Q (f (s', False))"
  shows "ensures oom hang Q
    (andthen (andthen (ended (write_message_header alloc Little_Endian i n s)) checked) f)"
proof -
  obtain s1 ret where e: "stream_ensure_remaining_capacity alloc 5 s = Some (s1, ret)"
    "ret = 0 \<and> writing s1 [] (max 0 5) \<or> ret = -1 \<and> s1 = s \<and> oom"
    using capacity_rule[OF assms(1,2), of 5] by auto
  show ?thesis
  proof (cases "ret = 0")
    case False
    with e assms(4) show ?thesis by (auto simp: write_message_header_def)
  next
    case True
    with e have w: "writing s1 [] 5" by auto
    have "write_message_header alloc Little_Endian i n s1 = write_message_header alloc Little_Endian i n s"
      using e True by (simp add: write_message_header_def capacity_there[OF w])
    moreover have "ensures oom hang Q
        (andthen (andthen (ended (write_message_header alloc Little_Endian i n s1)) checked) f)"
      by (rule header_rule[OF w]) (use assms(3) in auto)
    ultimately show ?thesis by simp
  qed
qed

lemma finish_rule:
  assumes "writing s (header i x @ body) k" "length body + 5 < 2 ^ 32"
    and "\<And>s'. ready s' (message i body) \<Longrightarrow> ensures oom hang Q (f s')"
  shows "ensures oom hang Q (andthen (checked (update_message_length Little_Endian (of_nat (s_pos s)) s)) f)"
proof -
  obtain s' where s': "update_message_length Little_Endian (of_nat (s_pos s)) s = Inr s'" "stream_inv s'"
    "stream_contents s' = header i (of_nat (s_pos s) - 5) @ body" "s_length s' = 5 + length body"
    using update_message_length_ok[OF assms(1)] by blast
  have "s_pos s = 5 + length body" using assms(1) by (simp add: writing_def)
  then have "(of_nat (s_pos s) :: u32) - 5 = of_nat (length body)" by simp
  with s' have "ready s' (message i body)"
    by (cases "s_buffer s'") (auto simp: ready_def message_def stream_inv_def)
  with s'(1) assms(3) show ?thesis by simp
qed

lemma listing_rule:
  assumes "mem_good oom mem" "length body + 5 < 2 ^ 32"
    and "\<And>mem s. mem_good oom mem \<Longrightarrow> writing s (header i 0) 0 \<Longrightarrow>
      ensures oom hang (\<lambda>s'. writing s' (header i 0 @ body) 0) (entries mem s)"
  shows "ensures oom hang (\<lambda>d'. daemon_backend d' = daemon_backend d \<and> posted d [(c, message i body)] d')
    (listing Little_Endian mem c i entries d)"
  using mem_good_nth[OF assms(1), of 0]
proof (cases rule: stream_new_good)
  case none
  then show ?thesis by (simp add: listing_def)
next
  case (some s)
  show ?thesis
    unfolding listing_def some(1) option.case
  proof (rule header_new_rule[OF some(2)])
    fix s'
    assume w: "writing s' (header i 0) 0"
    show "ensures oom hang (\<lambda>d'. daemon_backend d' = daemon_backend d \<and> posted d [(c, message i body)] d')
      (case (s', True) of (s, ok) \<Rightarrow> if \<not> ok then Terminated
         else andthen (entries (\<lambda>k. mem (k + 2)) s) (\<lambda>s.
           andthen (checked (update_message_length Little_Endian (of_nat (s_pos s)) s)) (\<lambda>s. Ok (send_on c s d))))"
      unfolding prod.case not_True_eq_False if_False
      by (rule ensures_andthen[OF assms(3)[OF mem_good_shift[OF assms(1)] w]], erule finish_rule[OF _ assms(2)])
        (simp add: posted_send)
  qed (use assms(1) in auto)
qed

lemma write_connection_rule:
  assumes "writing s bs 0" "alloc_good oom alloc" "length (bs @ connection_entry t) < 2 ^ 63"
  shows "ensures oom hang (\<lambda>s'. writing s' (bs @ connection_entry t) 0) (write_connection Little_Endian t alloc s)"
  unfolding write_connection_def
  by (rule with_capacity_rule[OF assms(1,2)], use assms(3) in \<open>simp add: connection_entry_def\<close>,
      erule write8_rule, simp, erule write32_rule, simp, erule write_last_rules, simp)
    (simp add: connection_entry_def ntoh_def htobe_def)

lemma write_process_rule:
  assumes "writing s bs 0" "alloc_good oom alloc" "length (bs @ process_entry p) < 2 ^ 63"
  shows "ensures oom hang (\<lambda>s'. writing s' (bs @ process_entry p) 0) (write_process Little_Endian p alloc s)"
  unfolding write_process_def
  by (rule with_capacity_rule[OF assms(1,2)], use assms(3) in \<open>simp add: process_entry_def\<close>,
      erule write32_rule, simp, erule write_last_rules, simp)
    (simp add: process_entry_def)

lemma write_lock_rule:
  assumes "writing s bs 0" "alloc_good oom alloc" "length (bs @ lock_entry ll) < 2 ^ 63"
  shows "ensures oom hang (\<lambda>s'. writing s' (bs @ lock_entry ll) 0) (write_lock Little_Endian ll alloc s)"
  unfolding write_lock_def case_prod_unfold
  by (rule with_capacity_rule[OF assms(1,2)], use assms(3) in \<open>simp add: lock_entry_def path_field_def\<close>,
      erule write32_rule, simp, erule write16_rule, simp, erule append_string_rule, simp, erule write_last_rules, simp)
    (simp add: lock_entry_def path_field_def)

lemma write_held_lock_rule:
  assumes "writing s bs 0" "alloc_good oom alloc" "length (bs @ held_lock_entry pm) < 2 ^ 63"
  shows "ensures oom hang (\<lambda>s'. writing s' (bs @ held_lock_entry pm) 0) (write_held_lock Little_Endian pm alloc s)"
  unfolding write_held_lock_def case_prod_unfold
  by (rule with_capacity_rule[OF assms(1,2)], use assms(3) in \<open>simp add: held_lock_entry_def path_field_def\<close>,
      erule write16_rule, simp, erule append_string_rule, simp, erule write_last_rules, simp)
    (simp add: held_lock_entry_def path_field_def)

lemma write_pid_status_rule:
  assumes "writing s bs 0" "alloc_good oom alloc" "length bs + 6 < 2 ^ 63"
  shows "ensures oom hang (\<lambda>s'. writing s' (bs @ big_endian 4 pid @ big_endian 2 status) 0)
    (write_pid_status Little_Endian pid status alloc s)"
  unfolding write_pid_status_def
  by (rule with_capacity_rule[OF assms(1,2)], use assms(3) in simp,
      erule write32_rule, simp, erule write_last_rules, simp)
    simp

end
