(* ===== verification/Daemon_Handlers.thy ===== *)
theory Daemon_Handlers
  imports Daemon_Correct
begin

text \<open>
  Each message handler of the daemon against the abstract daemon, and the dispatch that puts them
  together.
\<close>

text \<open>
  The state \<open>d'\<close> is what the specification demands; if memory runs out, messages may be
  missing, or nothing happened except that the process is now seen on this connection.
\<close>

definition handled ::
    "bool \<Rightarrow> (backend \<times> (conn \<times> byte list) list) outcome \<Rightarrow> daemon \<Rightarrow> backend \<Rightarrow> daemon \<Rightarrow> bool" where
  "handled oom spec d b0 d' \<longleftrightarrow>
     (\<exists>outs outs'. spec = Ok (daemon_backend d', outs) \<and> posted d outs' d' \<and> complete_or_oom oom outs' outs) \<or>
     oom \<and> daemon_backend d' = b0 \<and> posted d [] d'"

lemma handled_exact:
  "daemon_backend d' = b' \<Longrightarrow> posted d outs d' \<Longrightarrow> handled oom (Ok (b', outs)) d b0 d'"
  unfolding handled_def by (intro disjI1 exI[of _ outs] exI[of _ outs]) simp

lemma handled_dropped:
  "oom \<Longrightarrow> daemon_backend d' = b0 \<Longrightarrow> polled_fds d' = polled_fds d \<Longrightarrow> handled oom spec d b0 d'"
  by (simp add: handled_def posted_refl)

lemma update_backend_sel [simp]:
  "daemon_backend (daemon_update_pid_connection i c d) = update_pid_connection (daemon_backend d) i c"
  "polled_fds (daemon_update_pid_connection i c d) = polled_fds d"
  by (simp_all add: daemon_update_pid_connection_def)

subsection \<open>Listings\<close>

definition listings_small :: "daemon \<Rightarrow> bool" where
  "listings_small d \<longleftrightarrow> length (connections_body d) + 5 < 2 ^ 32 \<and> length (processes_body d) + 5 < 2 ^ 32 \<and>
     length (locks_body d) + 5 < 2 ^ 32 \<and> (\<forall>pid. length (held_locks_body d pid) + 5 < 2 ^ 32)"

lemma list_connections_rule:
  assumes "mem_good oom mem" "listings_small d"
  shows "ensures oom hang
    (\<lambda>d'. daemon_backend d' = daemon_backend d \<and>
       posted d [(c, message MSG_ID_LIST_CONNS_RESPONSE (connections_body d))] d')
    (receive_message_list_connections Little_Endian mem c d)"
  unfolding receive_message_list_connections_def
proof (rule listing_rule[OF assms(1)])
  show "length (connections_body d) + 5 < 2 ^ 32" using assms(2) by (simp add: listings_small_def)
  then show "ensures oom hang (\<lambda>s'. writing s' (header MSG_ID_LIST_CONNS_RESPONSE 0 @ connections_body d) 0)
      (write_each (write_connection Little_Endian) mem (map snd (polled_fds d)) s)"
    if "mem_good oom mem" "writing s (header MSG_ID_LIST_CONNS_RESPONSE 0) 0" for mem s
    unfolding connections_body_def
    by (intro write_each_rule[OF that]) (auto intro!: write_connection_rule)
qed

lemma list_processes_rule:
  assumes "mem_good oom mem" "listings_small d"
  shows "ensures oom hang
    (\<lambda>d'. daemon_backend d' = daemon_backend d \<and>
       posted d [(c, message MSG_ID_LIST_PROCS_RESPONSE (processes_body d))] d')
    (receive_message_list_processes Little_Endian mem c d)"
  unfolding receive_message_list_processes_def
proof (rule listing_rule[OF assms(1)])
  show "length (processes_body d) + 5 < 2 ^ 32" using assms(2) by (simp add: listings_small_def)
  then show "ensures oom hang (\<lambda>s'. writing s' (header MSG_ID_LIST_PROCS_RESPONSE 0 @ processes_body d) 0)
      (write_each (write_process Little_Endian) mem (for_each_process (Process_table (daemon_backend d))) s)"
    if "mem_good oom mem" "writing s (header MSG_ID_LIST_PROCS_RESPONSE 0) 0" for mem s
    unfolding processes_body_def
    by (intro write_each_rule[OF that]) (auto intro!: write_process_rule)
qed

lemma list_locks_rule:
  assumes "mem_good oom mem" "listings_small d"
  shows "ensures oom hang
    (\<lambda>d'. daemon_backend d' = daemon_backend d \<and>
       posted d [(c, message MSG_ID_LIST_LOCKS_RESPONSE (locks_body d))] d')
    (receive_message_list_locks Little_Endian mem c d)"
  unfolding receive_message_list_locks_def
proof (rule listing_rule[OF assms(1)])
  show "length (locks_body d) + 5 < 2 ^ 32" using assms(2) by (simp add: listings_small_def)
  then show "ensures oom hang (\<lambda>s'. writing s' (header MSG_ID_LIST_LOCKS_RESPONSE 0 @ locks_body d) 0)
      (write_each (write_lock Little_Endian) mem (for_each_lock (Forest (daemon_backend d))) s)"
    if "mem_good oom mem" "writing s (header MSG_ID_LIST_LOCKS_RESPONSE 0) 0" for mem s
    unfolding locks_body_def
    by (intro write_each_rule[OF that]) (auto intro!: write_lock_rule)
qed

lemma list_locks_of_process_rule:
  assumes "mem_good oom mem" "listings_small d" "reading s m 5" "5 \<le> length m"
  shows "ensures oom hang
    (\<lambda>d'. daemon_backend d' = daemon_backend d \<and>
       posted d (if len = 4 then [(c, message MSG_ID_LIST_LOCKS_PROCESS_RESPONSE (held_locks_body d (msg_pid m)))]
         else []) d')
    (receive_message_list_locks_of_process Little_Endian mem c s len d)"
proof (cases "len = 4")
  case False
  then show ?thesis by (simp add: receive_message_list_locks_of_process_def posted_refl)
next
  case True
  let ?i = "MSG_ID_LIST_LOCKS_PROCESS_RESPONSE" and ?pid = "msg_pid m"
  obtain s' where s': "stream_read_uint32_t Little_Endian s = Inr (?pid, s')"
    using read_pid_eq[OF assms(3,4)] by blast
  have small: "length (held_locks_body d ?pid) + 5 < 2 ^ 32" using assms(2) by (simp add: listings_small_def)
  have entries: "ensures oom hang (\<lambda>s'. writing s' (header ?i 0 @ held_locks_body d ?pid) 0)
      (case find_process (Process_table (daemon_backend d)) ?pid of
         None \<Rightarrow> write_pid_status Little_Endian ?pid RESPONSE_STATUS_NO_SUCH_PROCESS (mem 0) s
       | Some p \<Rightarrow> andthen (write_pid_status Little_Endian ?pid RESPONSE_STATUS_SUCCESS (mem 0) s)
           (write_each (write_held_lock Little_Endian) (\<lambda>k. mem (k + 1)) (get_held_locks p)))"
    if mem: "mem_good oom mem" and w: "writing s (header ?i 0) 0" for mem s
  proof (cases "find_process (Process_table (daemon_backend d)) ?pid")
    case None
    with write_pid_status_rule[OF w mem_good_nth[OF mem, of 0]] show ?thesis
      by (simp add: held_locks_body_def)
  next
    case (Some p)
    let ?h = "header ?i 0 @ big_endian 4 ?pid @ big_endian 2 RESPONSE_STATUS_SUCCESS"
    have "ensures oom hang (\<lambda>s'. writing s' (?h @ concat (map held_lock_entry (get_held_locks p))) 0)
        (andthen (write_pid_status Little_Endian ?pid RESPONSE_STATUS_SUCCESS (mem 0) s)
           (write_each (write_held_lock Little_Endian) (\<lambda>k. mem (k + 1)) (get_held_locks p)))"
    proof (rule ensures_andthen[OF write_pid_status_rule[OF w mem_good_nth[OF mem, of 0]]])
      fix s'
      assume "writing s' ?h 0"
      then show "ensures oom hang (\<lambda>s'. writing s' (?h @ concat (map held_lock_entry (get_held_locks p))) 0)
          (write_each (write_held_lock Little_Endian) (\<lambda>k. mem (k + 1)) (get_held_locks p) s')"
        by (rule write_each_rule[OF mem_good_shift[OF mem]])
          (use small Some in \<open>auto simp: held_locks_body_def intro!: write_held_lock_rule\<close>)
    qed simp
    with Some show ?thesis by (simp add: held_locks_body_def)
  qed
  show ?thesis
    unfolding receive_message_list_locks_of_process_def s' checked_simps andthen.simps prod.case
    using True by (simp only: if_False simp_thms if_True) (rule listing_rule[OF assms(1) small entries])
qed

subsection \<open>Processes\<close>

lemma header_ne [simp]: "header i n \<noteq> []"
  by (simp add: header_def)

lemma message_10 [simp]: "length body = 10 \<Longrightarrow> message i body = header i 10 @ body"
  by (simp add: message_def)

lemma message_6 [simp]: "length body = 6 \<Longrightarrow> message i body = header i 6 @ body"
  by (simp add: message_def)

lemma register_rule:
  assumes "mem_good oom mem" "reading s m 5" "5 \<le> length m"
  shows "ensures oom hang
    (handled oom (Ok (case register_process (daemon_backend d) of
        Inl e \<Rightarrow> (daemon_backend d, [(c, message MSG_ID_REG_PROC_RESPONSE
          (big_endian 4 (msg_pid m) @ big_endian 2 RESPONSE_STATUS_TOO_MANY_PROCESSES))])
      | Inr (b', i) \<Rightarrow> (update_pid_connection b' i c, [(c, message MSG_ID_REG_PROC_RESPONSE
          (big_endian 4 (msg_pid m) @ big_endian 2 RESPONSE_STATUS_SUCCESS @ big_endian 4 i))]))) d b0)
    (receive_message_register_process Little_Endian mem c s d)"
proof -
  let ?i = "MSG_ID_REG_PROC_RESPONSE" and ?n = "big_endian 4 (msg_pid m)"
  obtain s' where s': "stream_read_uint32_t Little_Endian s = Inr (msg_pid m, s')"
    using read_pid_eq[OF assms(2,3)] by blast
  show ?thesis
  proof (cases "register_process (daemon_backend d)")
    case (Inl e)
    have fin: "ensures oom hang (handled oom (Ok (daemon_backend d, [(c, message ?i
          (?n @ big_endian 2 RESPONSE_STATUS_TOO_MANY_PROCESSES))])) d b0)
        (andthen (checked (update_message_length Little_Endian 11 s)) (\<lambda>s. Ok (send_on c s d)))"
      if w: "writing s (header ?i 10 @ ?n @ big_endian 2 RESPONSE_STATUS_TOO_MANY_PROCESSES) k" for s k
    proof -
      have "s_pos s = 11" using w by (simp add: writing_def)
      with finish_rule[OF w, of oom hang "handled oom (Ok (daemon_backend d, [(c, message ?i
          (?n @ big_endian 2 RESPONSE_STATUS_TOO_MANY_PROCESSES))])) d b0" "\<lambda>s. Ok (send_on c s d)"]
      show ?thesis by (simp add: handled_exact posted_send)
    qed
    show ?thesis
      unfolding receive_message_register_process_def s' checked_simps andthen.simps prod.case Inl sum.case
      apply (cases e)
      apply (simp only: backend_exception.case)
      by (rule reply_stream_rule[OF assms(1)], simp, erule header_rule, simp, simp only: prod.case,
          erule write32_rule, simp, erule write16_rule, simp, rule fin)
        auto
  next
    case (Inr bi)
    then obtain b' i where bi: "register_process (daemon_backend d) = Inr (b', i)" by (cases bi) auto
    show ?thesis
      unfolding receive_message_register_process_def s' checked_simps andthen.simps prod.case bi sum.case Let_def
      by (rule reply_stream_rule[OF assms(1)], simp, erule header_rule, simp, simp only: prod.case,
          erule write32_rule, simp, erule write16_rule, simp, erule write32_rule, simp)
        (auto intro!: handled_exact posted_send dest!: writing_ready)
  qed
qed

text \<open>Answering and then notifying.\<close>

lemma answer_and_notify_rule:
  assumes "mem_good oom mem" "ready s m" "\<forall>r \<in> set rs. request_ok b' (request_key r)" "polled_fds d1 = polled_fds d"
  shows "ensures oom hang
    (handled oom (Ok (b', (c, m) # updates (d\<lparr>daemon_backend := b'\<rparr>) rs)) d b0)
    (notify_answered_requests Little_Endian mem rs (send_on c s (d1\<lparr>daemon_backend := b'\<rparr>)))"
proof -
  let ?d = "send_on c s (d1\<lparr>daemon_backend := b'\<rparr>)"
  have p: "posted d [(c, m)] ?d" using assms(2,4) by (intro posted_send) simp_all
  have u: "updates ?d rs = updates (d\<lparr>daemon_backend := b'\<rparr>) rs"
    by (rule updates_cong) (use assms(4) in \<open>simp_all add: is_open_def[of d] is_open_def[of d1]\<close>)
  have "ensures oom hang (\<lambda>d'. daemon_backend d' = daemon_backend ?d \<and>
      (\<exists>outs. posted ?d outs d' \<and> complete_or_oom oom outs (updates ?d rs)))
    (notify_answered_requests Little_Endian mem rs ?d)"
    using assms(1,3) by (intro notify_rule) simp_all
  then show ?thesis
  proof (rule ensures_mono)
    fix d'
    assume "daemon_backend d' = daemon_backend ?d \<and>
      (\<exists>outs. posted ?d outs d' \<and> complete_or_oom oom outs (updates ?d rs))"
    then obtain outs where o: "daemon_backend d' = b'" "posted ?d outs d'"
      "complete_or_oom oom outs (updates (d\<lparr>daemon_backend := b'\<rparr>) rs)" unfolding u by auto
    have "complete_or_oom oom ([(c, m)] @ outs) ([(c, m)] @ updates (d\<lparr>daemon_backend := b'\<rparr>) rs)"
      using o(3) by (intro sent_append) simp_all
    with o posted_trans[OF p o(2)]
    show "handled oom (Ok (b', (c, m) # updates (d\<lparr>daemon_backend := b'\<rparr>) rs)) d b0 d'"
      unfolding handled_def by (intro disjI1) auto
  qed
qed

lemma unregister_rule:
  assumes "mem_good oom mem" "reading s m 5" "5 \<le> length m" "backend_inv (daemon_backend d)"
    and "requests_ok (daemon_backend d)" "\<forall>xs. set (arrange xs) = set xs"
  shows "ensures oom True
    (handled oom (andthen (andthen (ended (unregister_process
          (update_pid_connection (daemon_backend d) (msg_pid m) c) (msg_pid m))) checked) (\<lambda>(b', code, ans).
        Ok (b', (c, message MSG_ID_UNREG_PROC_RESPONSE
            (big_endian 4 (msg_pid m) @ big_endian 2 (unregister_status code))) #
          updates (d\<lparr>daemon_backend := b'\<rparr>) (arrange ans)))) d b0)
    (receive_message_unregister_process Little_Endian mem arrange c s d)"
proof -
  let ?pid = "msg_pid m" and ?b0 = "update_pid_connection (daemon_backend d) (msg_pid m) c"
  obtain s' where s': "stream_read_uint32_t Little_Endian s = Inr (?pid, s')"
    using read_pid_eq[OF assms(2,3)] by blast
  note inv = update_pid_connection_inv[OF assms(4)] update_pid_requests[OF assms(5)]
  show ?thesis
  proof (cases "unregister_process ?b0 ?pid")
    case None
    show ?thesis
      unfolding receive_message_unregister_process_def s' checked_simps andthen.simps prod.case Let_def
        update_backend_sel None ended_simps
      by (rule reply_stream_rule[OF assms(1)], simp, erule header_rule, simp, simp only: prod.case,
          erule write32_rule, simp) simp_all
  next
    case (Some res)
    with unregister_inv[OF inv(1)] obtain b' code ans where
      u: "unregister_process ?b0 ?pid = Some (Inr (b', code, ans))" by blast
    have ok: "\<forall>r \<in> set (arrange ans). request_ok b' (request_key r)"
      using unregister_requests(2)[OF inv u] assms(6) by simp
    show ?thesis
      unfolding receive_message_unregister_process_def s' checked_simps andthen.simps prod.case Let_def
        update_backend_sel u ended_simps
      by (rule reply_stream_rule[OF assms(1)], simp, erule header_rule, simp, simp only: prod.case,
          erule write32_rule, simp, erule write16_rule, simp,
          rule answer_and_notify_rule[OF mem_good_shift[OF assms(1)] _ ok])
        (auto dest: writing_ready)
  qed
qed

subsection \<open>Locks\<close>

text \<open>A message on its way to a handler: read up to the header, in a buffer of sane size.\<close>

definition lock_message_in :: "stream \<Rightarrow> byte list \<Rightarrow> bool" where
  "lock_message_in s m \<longleftrightarrow> reading s m 5 \<and> length m + 2 < 2 ^ 32 \<and> s_capacity s + 2 < 2 ^ 63 \<and>
     11 + msg_path_length m < length m"

lemma lock_message_read:
  assumes "lock_message_in s m"
  obtains s' q where "read_lock_message Little_Endian s =
      Ok (msg_pid m, of_nat (msg_path_length m), msg_path m, msg_byte m, s')"
    "reading s' m q" "s_capacity s' = s_capacity s" "length m \<le> s_capacity s'"
proof -
  obtain s' q where s': "read_lock_message Little_Endian s =
      Ok (msg_pid m, of_nat (msg_path_length m), msg_path m, msg_byte m, s')"
    "reading s' m q" "s_capacity s' = s_capacity s"
    using read_lock_message_eq[of s m] assms by (auto simp: lock_message_in_def)
  moreover from s'(2) have "length m \<le> s_capacity s'" by (auto simp: reading_def stream_inv_def)
  ultimately show ?thesis using that by blast
qed

lemma small_path_length:
  "unat (of_nat (msg_path_length m) :: u16) = msg_path_length m"
  "ucast (of_nat (msg_path_length m) :: u16) = (of_nat (msg_path_length m) :: u32)"
  using msg_path_length_bound[of m] by (simp_all add: msg_path_length_def unsigned_ucast_eq)

lemma create_rule:
  assumes "mem_good oom mem" "lock_message_in s m" "backend_inv (daemon_backend d)"
  shows "ensures oom hang
    (handled oom (andthen (checked (create_lock
          (update_pid_connection (daemon_backend d) (msg_pid m) c) (msg_pid m) (msg_path m) (0 < msg_byte m)))
        (\<lambda>(b', res). Ok (b', [(c, message MSG_ID_CREATE_LOCK_UPDATE
            (big_endian 4 (msg_pid m) @ path_field (msg_path m) @ big_endian 2 (create_status res)))])))
      d (update_pid_connection (daemon_backend d) (msg_pid m) c))
    (receive_message_create_lock Little_Endian mem c s d)"
proof -
  let ?b0 = "update_pid_connection (daemon_backend d) (msg_pid m) c" and ?n = "msg_path_length m"
  obtain s' q where s': "read_lock_message Little_Endian s = Ok (msg_pid m, of_nat ?n, msg_path m, msg_byte m, s')"
    using assms(2) by (rule lock_message_read)
  have len: "length (msg_path m) = ?n" "?n < 2 ^ 16"
    using assms(2) length_msg_path msg_path_length_bound by (auto simp: lock_message_in_def)
  obtain b' res where r: "create_lock ?b0 (msg_pid m) (msg_path m) (0 < msg_byte m) = Inr (b', res)"
    using create_lock_correct[OF update_pid_connection_inv[OF assms(3)]] by blast
  have hdr: "message MSG_ID_CREATE_LOCK_UPDATE (big_endian 4 (msg_pid m) @ path_field (msg_path m) @
      big_endian 2 (create_status res)) =
    header MSG_ID_CREATE_LOCK_UPDATE (4 + 2 + of_nat ?n + 2) @ big_endian 4 (msg_pid m) @
      big_endian 2 (of_nat ?n :: u16) @ bytes_of_string (msg_path m) @ big_endian 2 (create_status res)"
    by (simp add: message_def path_field_def len(1))
  show ?thesis
    unfolding receive_message_create_lock_def s' checked_simps andthen.simps prod.case Let_def
      update_backend_sel r small_path_length hdr
    by (rule reply_stream_rule[OF assms(1)], use len in simp, erule header_rule, simp, simp only: prod.case,
        erule write32_rule, simp, erule write16_rule, simp, erule put_string_rule, use len in simp,
        erule write16_rule, use len in simp, (auto intro!: handled_exact posted_send dest!: writing_ready)[1])
      (simp add: handled_dropped)
qed

lemma remaining_bytes_eq:
  assumes "reading s m q" "5 \<le> length m" "length m < 2 ^ 63"
  shows "remaining_bytes (stream_seek 5 s) = Inr (drop 5 m)"
proof -
  obtain b where b: "s_buffer s = Some b" "take (length m) b = m" "length m \<le> length b"
    using assms by (cases "s_buffer s") (auto simp: reading_def stream_inv_def stream_contents_def)
  have "sendable (stream_seek 5 s)" "unsent (stream_seek 5 s) = drop 5 m"
    using assms b(1) by (auto simp: sendable_def unsent_def reading_def stream_inv_def stream_seek_def stream_contents_def)
  then have rem: "stream_remaining_length (stream_seek 5 s) = length m - 5" by (simp add: remaining_unsent)
  have "take (length m - 5) (drop 5 b) = drop 5 m" using b(2,3) by (metis drop_take)
  with b rem assms(2) show ?thesis by (simp add: remaining_bytes_def) (simp add: stream_seek_def)
qed

lemma write_echo_rule:
  assumes "reading input m q" "5 \<le> length m" "length m + 2 < 2 ^ 32" "writing s [] k" "length m \<le> k"
    and "\<And>s'. writing s' (header i (of_nat (length m - 3)) @ drop 5 m) (k - length m) \<Longrightarrow> ensures oom hang Q (f s')"
  shows "ensures oom hang Q (andthen (write_echo Little_Endian alloc i input s) f)"
proof -
  have eq: "(of_nat (s_length input) :: u32) + 2 - 5 = of_nat (length m - 3)"
    using assms(1,2) by (simp add: reading_def of_nat_diff)
  have len: "s_length (stream_seek 5 input) = length m" "length m < 2 ^ 63"
    using assms(1,3) by (simp_all add: reading_def stream_seek_def)
  show ?thesis
    unfolding write_echo_def andthen_assoc eq
  proof (rule header_rule[unfolded andthen_assoc, OF assms(4)])
    show "5 \<le> k" using assms(2,5) by simp
    fix s'
    assume w: "writing s' (header i (of_nat (length m - 3))) (k - 5)"
    have "length (drop 5 m) \<le> k - 5" using assms(5) by (simp add: diff_le_mono)
    from copy_in_writing[OF w this] assms(2,5) obtain s1 where
      s1: "copy_in (drop 5 m) s' = Inr s1"
        "writing (s1\<lparr>s_pos := length m, s_length := length m\<rparr>) (header i (of_nat (length m - 3)) @ drop 5 m) (k - length m)"
      by auto
    have "stream_seek (length m) (stream_set_length (length m) s1) = s1\<lparr>s_pos := length m, s_length := length m\<rparr>"
      using len(2) by (cases s1) (simp add: stream_seek_def stream_set_length_def)
    with s1 assms(6)[OF s1(2)] remaining_bytes_eq[OF assms(1,2) len(2)] len(1)
    show "ensures oom hang Q (andthen (case (s', True) of (s, ok) \<Rightarrow>
        let input = stream_seek 5 input
        in andthen (checked (remaining_bytes input)) (\<lambda>ds. andthen (checked (copy_in ds s)) (\<lambda>s.
           Ok (stream_seek (s_length input) (stream_set_length (s_length input) s))))) f)"
      by (simp add: Let_def)
  qed
qed

lemma echo_message:
  "5 \<le> length m \<Longrightarrow> length d = 2 \<Longrightarrow>
   message i (drop 5 m @ d) = (header i (of_nat (length m - 3)) @ drop 5 m) @ d"
  by (simp add: message_def)

lemma acquire_rule:
  assumes "mem_good oom mem" "lock_message_in s m" "backend_inv (daemon_backend d)"
  shows "ensures oom hang
    (handled oom (andthen (checked (acquire_lock
          (update_pid_connection (daemon_backend d) (msg_pid m) c) (msg_pid m) (msg_path m) (msg_byte m)))
        (\<lambda>(b', status). Ok (b', [(c, message MSG_ID_ACQUIRE_LOCK_UPDATE (drop 5 m @ big_endian 2 status))])))
      d (update_pid_connection (daemon_backend d) (msg_pid m) c))
    (receive_message_acquire_lock Little_Endian mem c s d)"
proof -
  let ?b0 = "update_pid_connection (daemon_backend d) (msg_pid m) c"
  obtain s' q where s': "read_lock_message Little_Endian s =
      Ok (msg_pid m, of_nat (msg_path_length m), msg_path m, msg_byte m, s')"
    "reading s' m q" "s_capacity s' = s_capacity s" "length m \<le> s_capacity s'"
    using assms(2) by (rule lock_message_read)
  have len: "5 \<le> length m" "length m + 2 < 2 ^ 32" "s_capacity s' + 2 < 2 ^ 63"
    using assms(2) s'(3) by (auto simp: lock_message_in_def)
  then have cap: "(s_capacity s' + 2) mod 2 ^ 64 = s_capacity s' + 2" by simp
  obtain b' status where r: "acquire_lock ?b0 (msg_pid m) (msg_path m) (msg_byte m) = Inr (b', status)"
    using acquire_lock_correct[OF update_pid_connection_inv[OF assms(3)]] by blast
  show ?thesis
    unfolding receive_message_acquire_lock_def s'(1) checked_simps andthen.simps prod.case Let_def
      update_backend_sel r cap echo_message[OF len(1) length_big_endian]
    by (rule reply_stream_rule[OF assms(1) len(3)], erule write_echo_rule[OF s'(2) len(1,2)], use s'(4) in simp,
        erule write16_rule, use s'(4) in simp, (auto intro!: handled_exact posted_send dest!: writing_ready)[1])
      (simp add: handled_dropped)
qed

lemma release_rule:
  assumes "mem_good oom mem" "lock_message_in s m" "backend_inv (daemon_backend d)"
    and "requests_ok (daemon_backend d)" "\<forall>xs. set (arrange xs) = set xs"
  shows "ensures oom hang
    (handled oom (andthen (checked (release_lock
          (update_pid_connection (daemon_backend d) (msg_pid m) c) (msg_pid m) (msg_path m) (msg_byte m)))
        (\<lambda>(b', status, ans).
          Ok (b', (c, message MSG_ID_RELEASE_LOCK_RESPONSE (drop 5 m @ big_endian 2 status)) #
              updates (d\<lparr>daemon_backend := b'\<rparr>) (arrange ans))))
      d (update_pid_connection (daemon_backend d) (msg_pid m) c))
    (receive_message_release_lock Little_Endian mem arrange c s d)"
proof -
  let ?b0 = "update_pid_connection (daemon_backend d) (msg_pid m) c"
  obtain s' q where s': "read_lock_message Little_Endian s =
      Ok (msg_pid m, of_nat (msg_path_length m), msg_path m, msg_byte m, s')"
    "reading s' m q" "s_capacity s' = s_capacity s" "length m \<le> s_capacity s'"
    using assms(2) by (rule lock_message_read)
  have len: "5 \<le> length m" "length m + 2 < 2 ^ 32" "s_capacity s' + 2 < 2 ^ 63"
    using assms(2) s'(3) by (auto simp: lock_message_in_def)
  then have cap: "(s_capacity s' + 2) mod 2 ^ 64 = s_capacity s' + 2" by simp
  note inv = update_pid_connection_inv[OF assms(3)] update_pid_requests[OF assms(4)]
  obtain b' status ans where r: "release_lock ?b0 (msg_pid m) (msg_path m) (msg_byte m) = Inr (b', status, ans)"
    using release_lock_correct[OF inv(1)] by blast
  have ok: "\<forall>r \<in> set (arrange ans). request_ok b' (request_key r)"
    using release_lock_requests(2)[OF inv r] assms(5) by simp
  show ?thesis
    unfolding receive_message_release_lock_def s'(1) checked_simps andthen.simps prod.case Let_def
      update_backend_sel r cap echo_message[OF len(1) length_big_endian]
    by (rule reply_stream_rule[OF assms(1) len(3)], erule write_echo_rule[OF s'(2) len(1,2)], use s'(4) in simp,
        erule write16_rule, use s'(4) in simp, rule answer_and_notify_rule[OF mem_good_shift[OF assms(1)] _ ok],
        (auto dest: writing_ready)[2])
      (simp add: handled_dropped)
qed

subsection \<open>Dispatch\<close>

definition message_in :: "stream \<Rightarrow> byte list \<Rightarrow> bool" where
  "message_in s m \<longleftrightarrow> reading s m 0 \<and> 5 \<le> length m \<and> length m + 2 < 2 ^ 32 \<and> s_capacity s + 2 < 2 ^ 63"

theorem receive_message_rule:
  assumes "mem_good oom mem" "message_in s m" "well_formed m" "backend_inv (daemon_backend d)"
    and "requests_ok (daemon_backend d)" "\<forall>xs. set (arrange xs) = set xs" "listings_small d"
  shows "ensures oom (m ! 0 = MSG_ID_UNREG_PROC)
    (\<lambda>d'. \<exists>b0. handled oom (respond arrange c m d) d b0 d' \<and>
       (b0 = daemon_backend d \<or> b0 = update_pid_connection (daemon_backend d) (msg_pid m) c))
    (receive_message Little_Endian mem arrange c s d)"
proof -
  have r: "reading s m 0" "5 \<le> length m" "length m < 2 ^ 63" "m \<noteq> []"
    using assms(2) by (auto simp: message_in_def)
  let ?s1 = "s\<lparr>s_pos := Suc 0\<rparr>" and ?s = "s\<lparr>s_pos := 5\<rparr>"
  have r1: "reading ?s1 m (Suc 0)" and r5: "reading ?s m 5" using r by (auto intro: reading_at)
  have id: "stream_read_uint8_t s = Inr (m ! 0, ?s1)" using read_uint8_ok[OF r(1)] r(4) by simp
  have len: "stream_read_uint32_t Little_Endian ?s1 = Inr (msg_length m, ?s)"
    using read32_eq[OF r1] r(2) by (simp add: msg_length_def)
  have lm: "lock_message_in ?s m"
    if "m ! 0 \<in> {MSG_ID_CREATE_LOCK, MSG_ID_RELEASE_LOCK, MSG_ID_ACQUIRE_LOCK}"
    using assms(2,3) r5 that by (auto simp: lock_message_in_def well_formed_def message_in_def)
  let ?b0 = "update_pid_connection (daemon_backend d) (msg_pid m) c"
  let ?Q = "\<lambda>d'. \<exists>b0. handled oom (respond arrange c m d) d b0 d' \<and> (b0 = daemon_backend d \<or> b0 = ?b0)"
  have exact: "ensures oom hang ?Q x"
    if "ensures oom False (\<lambda>d'. daemon_backend d' = daemon_backend d \<and> posted d outs d') x"
      "respond arrange c m d = Ok (daemon_backend d, outs)" for outs x hang
    using ensures_hang[OF that(1)] by (rule ensures_mono) (auto simp: that(2) intro: handled_exact)
  have spec: "ensures oom hang ?Q x"
    if "ensures oom hang (handled oom spec d ?b0) x" "respond arrange c m d = spec" for spec x hang
    using that(1) by (rule ensures_mono) (auto simp: that(2))
  note eqs = receive_message_def id len respond_def Let_def
  consider (conns) "m ! 0 = MSG_ID_LIST_CONNS" | (procs) "m ! 0 = MSG_ID_LIST_PROCS"
    | (locks) "m ! 0 = MSG_ID_LIST_LOCKS" | (held) "m ! 0 = MSG_ID_LIST_LOCKS_PROCESS"
    | (reg) "m ! 0 = MSG_ID_REG_PROC" | (unreg) "m ! 0 = MSG_ID_UNREG_PROC" | (create) "m ! 0 = MSG_ID_CREATE_LOCK"
    | (rel) "m ! 0 = MSG_ID_RELEASE_LOCK" | (acq) "m ! 0 = MSG_ID_ACQUIRE_LOCK"
    | (other) "m ! 0 \<notin> {MSG_ID_LIST_CONNS, MSG_ID_LIST_PROCS, MSG_ID_LIST_LOCKS, MSG_ID_LIST_LOCKS_PROCESS,
        MSG_ID_REG_PROC, MSG_ID_UNREG_PROC, MSG_ID_CREATE_LOCK, MSG_ID_RELEASE_LOCK, MSG_ID_ACQUIRE_LOCK}"
    by auto
  then show ?thesis
  proof cases
    case conns
    then show ?thesis using exact[OF list_connections_rule[OF assms(1,7), of False c]] by (simp add: eqs)
  next
    case procs
    then show ?thesis using exact[OF list_processes_rule[OF assms(1,7), of False c]] by (simp add: eqs)
  next
    case locks
    then show ?thesis using exact[OF list_locks_rule[OF assms(1,7), of False c]] by (simp add: eqs)
  next
    case held
    then show ?thesis using exact[OF list_locks_of_process_rule[OF assms(1,7) r5 r(2), of False "msg_length m" c]]
      by (simp add: eqs)
  next
    case reg
    then show ?thesis using spec[OF register_rule[OF assms(1) r5 r(2)]] by (simp add: eqs)
  next
    case unreg
    then show ?thesis using spec[OF unregister_rule[OF assms(1) r5 r(2) assms(4-6)]] by (simp add: eqs)
  next
    case create
    then show ?thesis using spec[OF create_rule[OF assms(1) lm assms(4)]] by (simp add: eqs)
  next
    case rel
    then show ?thesis using spec[OF release_rule[OF assms(1) lm assms(4-6)]] by (simp add: eqs)
  next
    case acq
    then show ?thesis using spec[OF acquire_rule[OF assms(1) lm assms(4)]] by (simp add: eqs)
  next
    case other
    then have "receive_message Little_Endian mem arrange c s d = Ok d"
      "respond arrange c m d = Ok (daemon_backend d, [])" by (simp_all add: eqs)
    then show ?thesis by (auto intro!: exI[of _ "daemon_backend d"] handled_exact posted_refl)
  qed
qed

end
