(* ===== verification/Server_Loop.thy ===== *)
theory Server_Loop
  imports Daemon Transition_System
begin

text \<open>
  The event loop of the server: \<open>Communications_Manager::main_loop\<close>
  (\<open>src/src/Communications_Manager.cpp\<close>) with the polled file descriptors of the server, that is,
  the listening socket (\<open>src/src/server/TCP_Listener.cpp\<close>), the event file descriptor that wakes
  the loop up (\<open>src/src/polled_eventfd.cpp\<close>) and the TCP connections. What the operating system
  answers to \<open>epoll_wait\<close>, \<open>accept\<close>, \<open>read\<close>, \<open>write\<close> and \<open>epoll_ctl\<close> is
  an argument.

  A connection is identified by the address of its object. \<open>make_shared\<close> keeps that memory
  while a weak pointer exists, so a new connection differs from every connection that is polled or
  that a process refers to.
\<close>

record server =
  the_daemon :: daemon
  epfd_open :: bool
  quit_requested :: bool

definition server_new :: server where
  "server_new = \<lparr>the_daemon = daemon_new, epfd_open = False, quit_requested = False\<rparr>"

subsection \<open>Polled file descriptors\<close>

text \<open>
  \<open>epoll_ok\<close> is the result of \<open>epoll_ctl\<close>; on failure the descriptor is not added.
  \<open>std::map::insert\<close> keeps an entry that is there.
\<close>

definition add_polled_fd :: "bool \<Rightarrow> conn \<Rightarrow> tcp_connection \<Rightarrow> daemon \<Rightarrow> daemon \<times> bool" where
  "add_polled_fd epoll_ok c t d =
     (if \<not> epoll_ok then (d, False)
      else
        (case map_of (polled_fds d) c of
           None \<Rightarrow> (d\<lparr>polled_fds := smap_put c t (polled_fds d)\<rparr>, True)
         | Some t' \<Rightarrow> (d, True)))"

text \<open>Erasing the last shared pointer destroys the connection with its queues.\<close>

definition destroy_polled_fd :: "conn \<Rightarrow> daemon \<Rightarrow> daemon" where
  "destroy_polled_fd c d = d\<lparr>polled_fds := smap_del c (polled_fds d)\<rparr>"

definition set_conn_state :: "conn \<Rightarrow> connection \<Rightarrow> daemon \<Rightarrow> daemon" where
  "set_conn_state c cs d =
     (case map_of (polled_fds d) c of
        None \<Rightarrow> d
      | Some t \<Rightarrow> d\<lparr>polled_fds := smap_put c (t\<lparr>conn_state := cs\<rparr>) (polled_fds d)\<rparr>)"

text \<open>\<open>TCP_Connection::create\<close>.\<close>

definition TCP_Connection_create :: "u32 \<Rightarrow> u16 \<Rightarrow> tcp_connection" where
  "TCP_Connection_create addr port = \<lparr>conn_state = connection_new, sin_addr = addr, sin_port = port\<rparr>"

text \<open>The listening socket: the result of \<open>accept\<close>, and the address of the new object.\<close>

datatype accept_result = Accept_Failed | Accepted u32 u16

definition listener_data_in :: "accept_result \<Rightarrow> conn \<Rightarrow> bool \<Rightarrow> daemon \<Rightarrow> daemon \<times> bool" where
  "listener_data_in r c epoll_ok d =
     (case r of
        Accept_Failed \<Rightarrow> (d, True)
      | Accepted addr port \<Rightarrow>
          let t = TCP_Connection_create addr port;
              t = t\<lparr>conn_state := set_receive_callback (conn_state t)\<rparr>
          in (fst (add_polled_fd epoll_ok c t d), True))"

subsection \<open>Events\<close>

text \<open>
  What a connection event needs from outside: the \<open>epoll\<close> bits, the results of \<open>read\<close> and
  \<open>write\<close>, and the memory and set order for the connection and for each message.
\<close>

record conn_event =
  ev_in :: bool
  ev_out :: bool
  ev_err :: bool
  ev_read :: read_result
  ev_write :: write_result
  ev_memory :: memory
  ev_message_memory :: "nat \<Rightarrow> memory"
  ev_arrange :: "lock_request list \<Rightarrow> lock_request list"

fun receive_messages ::
    "byte_order \<Rightarrow> (nat \<Rightarrow> memory) \<Rightarrow> (lock_request list \<Rightarrow> lock_request list) \<Rightarrow> conn \<Rightarrow>
     stream list \<Rightarrow> daemon \<Rightarrow> daemon outcome" where
  "receive_messages h mems arrange c [] d = Ok d"
| "receive_messages h mems arrange c (s # ss) d =
     andthen (receive_message h (mems 0) arrange c s d)
       (receive_messages h (\<lambda>k. mems (k + 1)) arrange c ss)"

text \<open>
  \<open>pfd->data_in ()\<close> on a connection. The callback runs inside the receive loop, but touches
  the backend and the send queues only, which the receive loop does not use; so the messages are
  handled after it. An exception of the ring buffer terminates the server.
\<close>

definition connection_data_in :: "byte_order \<Rightarrow> conn_event \<Rightarrow> conn \<Rightarrow> daemon \<Rightarrow> (daemon \<times> bool) outcome" where
  "connection_data_in h ev c d =
     (case map_of (polled_fds d) c of
        None \<Rightarrow> Undefined Dangling
      | Some t \<Rightarrow>
          andthen (andthen (ended (data_in h (ev_memory ev) (ev_read ev) (conn_state t))) checked) (\<lambda>res.
          (case res of
             Inl err \<Rightarrow> Terminated
           | Inr (cs, ms, keep) \<Rightarrow>
               andthen (receive_messages h (ev_message_memory ev) (ev_arrange ev) c ms (set_conn_state c cs d))
                 (\<lambda>d. Ok (d, keep)))))"

definition connection_data_out :: "conn_event \<Rightarrow> conn \<Rightarrow> daemon \<Rightarrow> (daemon \<times> bool) outcome" where
  "connection_data_out ev c d =
     (case map_of (polled_fds d) c of
        None \<Rightarrow> Undefined Dangling
      | Some t \<Rightarrow>
          andthen (checked (data_out (ev_write ev) (conn_state t))) (\<lambda>(cs, bytes, keep).
          Ok (set_conn_state c cs d, keep)))"

text \<open>The body of the loop; the boolean is \<open>pfd != nullptr\<close>.\<close>

definition close_unless :: "conn \<Rightarrow> daemon \<times> bool \<Rightarrow> (daemon \<times> bool) outcome" where
  "close_unless c dk = (case dk of (d, keep) \<Rightarrow> Ok (if keep then d else destroy_polled_fd c d, keep))"

definition handle_event :: "byte_order \<Rightarrow> conn_event \<Rightarrow> conn \<Rightarrow> daemon \<Rightarrow> daemon outcome" where
  "handle_event h ev c d =
     andthen (if ev_in ev then andthen (connection_data_in h ev c d) (close_unless c) else Ok (d, True)) (\<lambda>(d, alive).
     andthen (if ev_out ev \<and> alive then andthen (connection_data_out ev c d) (close_unless c)
              else Ok (d, alive)) (\<lambda>(d, alive).
     Ok (if ev_err ev \<and> alive then destroy_polled_fd c d else d)))"

subsection \<open>The loop\<close>

definition request_quit :: "server \<Rightarrow> server" where
  "request_quit sv = sv\<lparr>quit_requested := True\<rparr>"

definition request_run :: "server \<Rightarrow> server" where
  "request_run sv = sv\<lparr>quit_requested := False\<rparr>"

text \<open>
  \<open>epoll_wait\<close> fails, is interrupted (by the signal handler of \<open>src/src/server/main.cpp\<close>,
  which requests to quit, or by another signal), or reports an event of the listening socket, of
  the event file descriptor (whose callback writes 0 to it, which changes nothing) or of a
  connection.
\<close>

datatype poll_result =
  Poll_Error
| Poll_Interrupted bool
| Poll_Listener accept_result conn bool
| Poll_Wakeup
| Poll_Connection conn conn_event

text \<open>
  One pass of the loop for each result of \<open>epoll_wait\<close>. The result is the server and, if the
  loop ended, what \<open>main_loop\<close> returned: \<open>return_state\<close>, which is never changed.
\<close>

fun poll_loop :: "byte_order \<Rightarrow> poll_result list \<Rightarrow> server \<Rightarrow> (server \<times> bool option) outcome" where
  "poll_loop h polls sv =
     (if quit_requested sv then Ok (sv, Some True)
      else
        (case polls of
           [] \<Rightarrow> Ok (sv, None)
         | r # rs \<Rightarrow>
             (case r of
                Poll_Error \<Rightarrow> Ok (sv, Some True)
              | Poll_Interrupted quit \<Rightarrow> poll_loop h rs (if quit then request_quit sv else sv)
              | Poll_Listener a c epoll_ok \<Rightarrow>
                  poll_loop h rs (sv\<lparr>the_daemon := fst (listener_data_in a c epoll_ok (the_daemon sv))\<rparr>)
              | Poll_Wakeup \<Rightarrow> poll_loop h rs sv
              | Poll_Connection c ev \<Rightarrow>
                  andthen (handle_event h ev c (the_daemon sv)) (\<lambda>d.
                  poll_loop h rs (sv\<lparr>the_daemon := d\<rparr>)))))"

declare poll_loop.simps [simp del]

text \<open>
  The whole method: creating the \<open>epoll\<close> instance, adding the descriptors there are, and
  creating the event file descriptor (an exception, if that fails) come first.
\<close>

record setup_result =
  epoll_create_ok :: bool
  epoll_adds_ok :: bool
  eventfd_ok :: bool

definition main_loop ::
    "byte_order \<Rightarrow> setup_result \<Rightarrow> poll_result list \<Rightarrow> server \<Rightarrow> (server \<times> bool option) outcome" where
  "main_loop h st polls sv =
     (if \<not> epfd_open sv \<and> (\<not> epoll_create_ok st \<or> \<not> epoll_adds_ok st) then Ok (sv, Some False)
      else
        let sv = sv\<lparr>epfd_open := True\<rparr>
        in if \<not> eventfd_ok st then Terminated else poll_loop h polls sv)"

text \<open>\<open>daemon::run\<close>; \<open>listener_ok\<close> is whether the listening socket could be set up.\<close>

definition daemon_run ::
    "byte_order \<Rightarrow> bool \<Rightarrow> setup_result \<Rightarrow> poll_result list \<Rightarrow> server \<Rightarrow> (server \<times> bool option) outcome" where
  "daemon_run h listener_ok st polls sv =
     (if \<not> listener_ok then Ok (sv, Some False) else main_loop h st polls sv)"

end
