(* ===== verification/Server_Correct.thy ===== *)
theory Server_Correct
  imports Server_Loop Backend_Correct
begin

text \<open>
  Whatever bytes the clients send, however they are cut into reads, and whenever memory or a
  system call fails: as long as the server runs, its backend is in a state that the operations of
  the backend reach.
\<close>

subsection \<open>Partial correctness of handlers\<close>

definition if_ok :: "('a \<Rightarrow> bool) \<Rightarrow> 'a outcome \<Rightarrow> bool" where
  "if_ok Q m \<longleftrightarrow> (\<forall>x. m = Ok x \<longrightarrow> Q x)"

lemma if_ok_simps [simp]: "if_ok Q (Ok x) = Q x" "if_ok Q (Undefined e)" "if_ok Q Terminated" "if_ok Q Hangs"
  by (simp_all add: if_ok_def)

lemma if_ok_andthen: "(\<And>x. m = Ok x \<Longrightarrow> if_ok Q (f x)) \<Longrightarrow> if_ok Q (andthen m f)"
  by (cases m) auto

lemma if_ok_andthen_inv: "if_ok P m \<Longrightarrow> (\<And>x. P x \<Longrightarrow> if_ok Q (f x)) \<Longrightarrow> if_ok Q (andthen m f)"
  by (cases m) auto

lemma checked_Ok: "checked r = Ok x \<longleftrightarrow> r = Inr x"
  by (simp add: checked_def split: sum.split)

lemma ended_Ok: "ended r = Ok x \<longleftrightarrow> r = Some x"
  by (simp add: ended_def split: option.split)

lemma andthen_Ok_iff: "andthen m f = Ok y \<longleftrightarrow> (\<exists>x. m = Ok x \<and> f x = Ok y)"
  by (cases m) auto

abbreviation sound :: "daemon \<Rightarrow> bool" where
  "sound d \<equiv> backend_reachable (daemon_backend d)"

lemma sound_send_on [simp]: "daemon_backend (send_on c s d) = daemon_backend d"
  by (simp add: send_on_def split: option.split)

lemma update_backend [simp]:
  "daemon_backend (daemon_update_pid_connection i c d) = update_pid_connection (daemon_backend d) i c"
  by (simp add: daemon_update_pid_connection_def)

text \<open>Each operation of the backend leads from reachable states to reachable states.\<close>

lemma backend_reachable_ops:
  assumes "backend_reachable b"
  shows "backend_reachable (update_pid_connection b i c)"
    and "register_process b = Inr (b', i) \<Longrightarrow> backend_reachable b'"
    and "unregister_process b i = Some (Inr (b', code, ans)) \<Longrightarrow> backend_reachable b'"
    and "create_lock b i s x = Inr (b', res) \<Longrightarrow> backend_reachable b'"
    and "acquire_lock b i s m = Inr (b', status) \<Longrightarrow> backend_reachable b'"
    and "release_lock b i s m = Inr (b', status, ans) \<Longrightarrow> backend_reachable b'"
  by (auto intro: reachable_step[OF assms] backend_step.intros)

lemma reply_stream_sound:
  "(\<And>s. if_ok Q (f s)) \<Longrightarrow> if_ok Q failed \<Longrightarrow> if_ok Q (reply_stream mem n f failed)"
  by (auto simp: reply_stream_def split: option.splits intro!: if_ok_andthen)

lemma listing_sound: "sound d \<Longrightarrow> if_ok sound (listing h mem c i entries d)"
  by (auto simp: listing_def split: option.splits intro!: if_ok_andthen)

lemma notify_request_sound: "sound d \<Longrightarrow> if_ok sound (notify_request h mem r d)"
  by (auto simp: notify_request_def Let_def split: option.splits intro!: if_ok_andthen)

lemma notify_sound: "sound d \<Longrightarrow> if_ok sound (notify_answered_requests h mem rs d)"
proof (induction rs arbitrary: mem d)
  case (Cons r rs)
  then show ?case unfolding notify_answered_requests.simps
    by (intro if_ok_andthen_inv[OF notify_request_sound])
qed simp

lemmas sound_intros = if_ok_andthen reply_stream_sound notify_sound listing_sound

lemma register_sound:
  assumes "sound d"
  shows "if_ok sound (receive_message_register_process h mem c input d)"
  using assms backend_reachable_ops(2)[OF assms]
  by (auto simp: receive_message_register_process_def Let_def intro!: sound_intros backend_reachable_ops(1)
      split: sum.splits backend_exception.splits)

lemma unregister_sound:
  "sound d \<Longrightarrow> if_ok sound (receive_message_unregister_process h mem arrange c input d)"
  by (auto simp: receive_message_unregister_process_def Let_def andthen_Ok_iff ended_Ok checked_Ok
      intro!: sound_intros intro: backend_reachable_ops(3)[OF backend_reachable_ops(1), rotated])

lemma create_sound: "sound d \<Longrightarrow> if_ok sound (receive_message_create_lock h mem c input d)"
  by (auto simp: receive_message_create_lock_def Let_def checked_Ok
      intro!: sound_intros backend_reachable_ops(1) intro: backend_reachable_ops(4)[OF backend_reachable_ops(1), rotated])

lemma release_sound: "sound d \<Longrightarrow> if_ok sound (receive_message_release_lock h mem arrange c input d)"
  by (auto simp: receive_message_release_lock_def Let_def checked_Ok
      intro!: sound_intros backend_reachable_ops(1) intro: backend_reachable_ops(6)[OF backend_reachable_ops(1), rotated])

lemma acquire_sound: "sound d \<Longrightarrow> if_ok sound (receive_message_acquire_lock h mem c input d)"
  by (auto simp: receive_message_acquire_lock_def Let_def checked_Ok
      intro!: sound_intros backend_reachable_ops(1) intro: backend_reachable_ops(5)[OF backend_reachable_ops(1), rotated])

lemma receive_message_sound: "sound d \<Longrightarrow> if_ok sound (receive_message h mem arrange c s d)"
  unfolding receive_message_def receive_message_list_connections_def receive_message_list_processes_def
    receive_message_list_locks_def receive_message_list_locks_of_process_def
  by (auto intro!: if_ok_andthen listing_sound register_sound unregister_sound create_sound release_sound
      acquire_sound)

subsection \<open>The event loop\<close>

lemma receive_messages_sound: "sound d \<Longrightarrow> if_ok sound (receive_messages h mems arrange c ss d)"
proof (induction ss arbitrary: mems d)
  case (Cons s ss)
  then show ?case unfolding receive_messages.simps by (intro if_ok_andthen_inv[OF receive_message_sound])
qed simp

lemma receive_messages_result: "receive_messages h mems arrange c ss d = Ok d' \<Longrightarrow> sound d \<Longrightarrow> sound d'"
  using receive_messages_sound[of d h mems arrange c ss] by (simp add: if_ok_def)

lemma daemon_backend_polled [simp]:
  "daemon_backend (set_conn_state c cs d) = daemon_backend d"
  "daemon_backend (destroy_polled_fd c d) = daemon_backend d"
  "daemon_backend (fst (listener_data_in a c epoll_ok d)) = daemon_backend d"
  by (simp_all add: set_conn_state_def destroy_polled_fd_def listener_data_in_def add_polled_fd_def Let_def
      split: option.split accept_result.split)

lemma close_unless_sound: "sound (fst dk) \<Longrightarrow> if_ok (\<lambda>dk. sound (fst dk)) (close_unless c dk)"
  by (cases dk) (simp add: close_unless_def)

lemma connection_data_in_sound: "sound d \<Longrightarrow> if_ok (\<lambda>dk. sound (fst dk)) (connection_data_in h ev c d)"
  unfolding connection_data_in_def
  by (auto split: option.split sum.split prod.split intro!: if_ok_andthen dest!: receive_messages_result)

lemma connection_data_out_sound: "sound d \<Longrightarrow> if_ok (\<lambda>dk. sound (fst dk)) (connection_data_out ev c d)"
  unfolding connection_data_out_def by (auto split: option.split intro!: if_ok_andthen)

lemma handle_event_sound:
  assumes "sound d"
  shows "if_ok sound (handle_event h ev c d)"
  unfolding handle_event_def
proof (rule if_ok_andthen_inv[where P = "\<lambda>dk. sound (fst dk)"])
  show "if_ok (\<lambda>dk. sound (fst dk))
    (if ev_in ev then andthen (connection_data_in h ev c d) (close_unless c) else Ok (d, True))"
    using if_ok_andthen_inv[OF connection_data_in_sound[OF assms] close_unless_sound] assms by simp
  fix dk :: "daemon \<times> bool"
  assume sound: "sound (fst dk)"
  obtain d1 alive where dk: "dk = (d1, alive)" by fastforce
  have "if_ok (\<lambda>dk. sound (fst dk))
      (if ev_out ev \<and> alive then andthen (connection_data_out ev c d1) (close_unless c) else Ok (d1, alive))"
    using if_ok_andthen_inv[OF connection_data_out_sound close_unless_sound, of d1] sound dk by simp
  then show "if_ok sound (case dk of (d, alive) \<Rightarrow>
      andthen (if ev_out ev \<and> alive then andthen (connection_data_out ev c d) (close_unless c) else Ok (d, alive))
        (\<lambda>(d, alive). Ok (if ev_err ev \<and> alive then destroy_polled_fd c d else d)))"
    unfolding dk prod.case by (rule if_ok_andthen_inv) (simp add: case_prod_unfold)
qed

lemma poll_loop_sound:
  "sound (the_daemon sv) \<Longrightarrow> if_ok (\<lambda>r. sound (the_daemon (fst r))) (poll_loop h polls sv)"
proof (induction polls arbitrary: sv)
  case Nil
  then show ?case by (subst poll_loop.simps) simp
next
  case (Cons r rs)
  have ev: "if_ok (\<lambda>r. sound (the_daemon (fst r)))
      (andthen (handle_event h ev c (the_daemon sv)) (\<lambda>d. poll_loop h rs (sv\<lparr>the_daemon := d\<rparr>)))" for ev c
    by (rule if_ok_andthen_inv[OF handle_event_sound[OF Cons.prems]]) (simp add: Cons.IH)
  show ?case
    by (subst poll_loop.simps)
      (use Cons ev in \<open>auto split: poll_result.split simp: request_quit_def\<close>)
qed

lemma daemon_run_sound:
  "sound (the_daemon sv) \<Longrightarrow> if_ok (\<lambda>r. sound (the_daemon (fst r))) (daemon_run h lok st polls sv)"
  using poll_loop_sound[of "sv\<lparr>epfd_open := True\<rparr>" h polls] by (auto simp: daemon_run_def main_loop_def Let_def)

end
