(* ===== verification/Delivery.thy ===== *)
theory Delivery
  imports Daemon_Handlers Server_Correct
begin

text \<open>
  From one end of a connection to the other. Every message of the abstract daemon is one frame,
  so the receiver of the bytes gets back exactly the messages that were queued.
\<close>

definition framed :: "byte list \<Rightarrow> bool" where
  "framed m \<longleftrightarrow> frames m = ([m], []) \<and> length m < 2 ^ 32"

subsection \<open>Messages are frames\<close>

lemma message_length_message:
  assumes "length body + 5 < 2 ^ 32"
  shows "message_length (message i body) = 5 + length body"
proof -
  have "take 4 (drop 1 (message i body)) = big_endian 4 (of_nat (length body) :: u32)"
    by (simp add: message_def header_def)
  then have "from_bytes (take 4 (drop 1 (message i body))) = (of_nat (length body) :: u32)"
    using from_big_endian[of 4 "of_nat (length body) :: u32"] by simp
  with assms show ?thesis by (simp add: message_length_def unat_of_nat take_bit_nat_eq_self)
qed

lemma length_message [simp]: "length (message i body) = 5 + length body"
  by (simp add: message_def)

lemma framed_message: "length body + 5 < 2 ^ 32 \<Longrightarrow> framed (message i body)"
  using message_length_message[of body i]
  by (simp add: framed_def frames.simps[of "message i body"] complete_def frames.simps[of "[]"])

lemma framed_length: "framed m \<Longrightarrow> 5 \<le> length m \<and> message_length m = length m"
proof -
  assume "framed m"
  then have "frames m = ([m], [])" by (simp add: framed_def)
  then have c: "complete m" "take (message_length m) m = m"
    by (subst (asm) frames.simps, simp split: if_splits prod.splits)+
  then show ?thesis by (metis complete_def length_take min.absorb2)
qed

lemma framed_update:
  "request_ok b (request_key r) \<Longrightarrow> framed (update_message p r)"
  unfolding update_message_def
  by (rule framed_message) (simp add: request_ok_def request_key_def path_field_def)

lemma framed_updates:
  "\<forall>r \<in> set rs. request_ok b (request_key r) \<Longrightarrow> \<forall>(c, x) \<in> set (updates d rs). framed x"
proof (induction rs)
  case (Cons r rs)
  then have IH: "\<forall>(c, x) \<in> set (updates d rs). framed x" by (intro Cons.IH) simp
  have "x \<in> set (updates d rs) \<or> (\<exists>c p. x = (c, update_message p r))" if "x \<in> set (updates d (r # rs))" for x
    using that
    by (cases "requester_exists r"; cases "find_process (Process_table (daemon_backend d)) (requester r)")
      (auto split: option.splits if_splits)
  moreover have "framed (update_message p r)" for p using Cons.prems by (intro framed_update[of b]) simp
  ultimately show ?case using IH by (fastforce simp del: updates.simps)
qed simp

theorem respond_framed:
  assumes "respond arrange c m d = Ok (b', outs)" "well_formed m" "length m + 2 < 2 ^ 32" "listings_small d"
    and "backend_inv (daemon_backend d)" "requests_ok (daemon_backend d)" "\<forall>xs. set (arrange xs) = set xs"
  shows "\<forall>(c', x) \<in> set outs. framed x"
proof -
  note inv = update_pid_connection_inv[OF assms(5)] update_pid_requests[OF assms(6)]
  have echo: "framed (message i (drop 5 m @ big_endian 2 (status :: u16)))" for i status
    by (rule framed_message) (use assms(2,3) in \<open>simp add: well_formed_def\<close>)
  have create: "framed (message i (big_endian 4 (pid :: u32) @ path_field (msg_path m) @ big_endian 2 (st :: u16)))" for i pid st
    using msg_path_length_bound[of m]
    by (intro framed_message) (simp add: path_field_def msg_path_def string_of_bytes_def)
  have fixed: "length body \<le> 10 \<Longrightarrow> framed (message i body)" for i body by (rule framed_message) simp
  have small: "framed (message i (connections_body d))" "framed (message i (processes_body d))"
    "framed (message i (locks_body d))" "framed (message i (held_locks_body d pid))" for i pid
    using assms(4) by (simp_all add: listings_small_def framed_message)
  have rel: "\<forall>(c, x) \<in> set (updates (d\<lparr>daemon_backend := b'\<rparr>) (arrange ans)). framed x"
    if "release_lock (update_pid_connection (daemon_backend d) i c) i s md = Inr (b', status, ans)" for i s md status ans
    using release_lock_requests(2)[OF inv that] assms(7) by (intro framed_updates) auto
  have unreg: "\<forall>(c, x) \<in> set (updates (d\<lparr>daemon_backend := b'\<rparr>) (arrange ans)). framed x"
    if "unregister_process (update_pid_connection (daemon_backend d) i c) i = Some (Inr (b', code, ans))" for i code ans
    using unregister_requests(2)[OF inv that] assms(7) by (intro framed_updates) auto
  note facts = echo create fixed small
  from assms(1) show ?thesis
    unfolding respond_def Let_def
    by (auto simp: andthen_Ok_iff checked_Ok ended_Ok facts simp del: message_10 message_6
        dest!: rel unreg split: if_splits sum.splits)
qed

subsection \<open>From one connection to another\<close>

lemma frames_concat: "\<forall>m \<in> set ms. framed m \<Longrightarrow> frames (concat ms) = (ms, [])"
proof (induction ms)
  case Nil
  show ?case by (simp add: frames.simps[of "[]"] complete_def)
next
  case (Cons m ms)
  then have "frames m = ([m], [])" "frames (concat ms) = (ms, [])" by (auto simp: framed_def)
  with frames_append[of m "concat ms"] show ?case by simp
qed

lemma sane_concat: "\<forall>m \<in> set ms. framed m \<Longrightarrow> sane (concat ms)"
proof (induction ms)
  case (Cons m ms)
  then have m: "5 \<le> length m" "message_length m = length m" "length m < 2 ^ 32"
    using framed_length[of m] by (auto simp: framed_def)
  have "message_length (m @ concat ms) = length m" using message_length_append[OF m(1)] m(2) by simp
  with Cons m show ?case by (simp add: sane.simps[of "m @ concat ms"])
qed simp

text \<open>
  A queue of unsent messages that was written out completely arrives at the other end as the same
  messages, also when the receiver already holds part of a message.
\<close>

lemma to_send_fresh:
  "\<forall>s \<in> set (send_queue c). s_pos s = 0 \<Longrightarrow> to_send c = concat (map stream_contents (send_queue c))"
  by (auto simp: to_send_def unsent_def intro!: arg_cong[where f = concat] map_cong)

theorem delivered:
  assumes "\<forall>s \<in> set (send_queue c). sendable s \<and> s_pos s = 0 \<and> framed (stream_contents s)"
    and "write_results_ok ws c" "write_out ws c = Inr (c', out)" "send_queue c' = []"
    and "conn_inv r" "has_receive_callback r" "received r = []" "mem_ok mem" "length out + 1 < 2 ^ 63"
  shows "\<exists>r' ms. data_in Little_Endian mem (Read_Bytes out) r = Some (Inr (Inr (r', ms, True))) \<and>
    map stream_contents ms = map stream_contents (send_queue c) \<and> received r' = [] \<and> conn_inv r'"
proof -
  let ?ms = "map stream_contents (send_queue c)"
  obtain c1 out1 where "write_out ws c = Inr (c1, out1)" "out1 @ to_send c1 = to_send c"
    using write_out_correct[of c ws] assms(1,2) by auto
  moreover have "to_send c' = []" using assms(4) by (simp add: to_send_def)
  ultimately have out: "out = concat ?ms" using assms(1,3) to_send_fresh[of c] by simp
  have fr: "\<forall>m \<in> set ?ms. framed m" using assms(1) by simp
  have "sane (received r @ out)" "length (received r @ out) + 1 < 2 ^ 63"
    using sane_concat[OF fr] assms(7,9) out by simp_all
  from data_in_correct[OF assms(5,6,8) this] obtain r' ms where
    d: "data_in Little_Endian mem (Read_Bytes out) r = Some (Inr (Inr (r', ms, True)))" "conn_inv r'"
      "received r' = snd (frames out)" "list_all2 (\<lambda>s m. reading s m 0) ms (fst (frames out))"
    using assms(7) by auto
  have "map stream_contents ms = xs" if "list_all2 (\<lambda>s m. reading s m 0) ms xs" for ms xs
    using that by (induction rule: list_all2_induct) (auto simp: reading_def)
  with d frames_concat[OF fr] show ?thesis by (auto simp: out)
qed

end
