(* ===== verification/Client_Correct.thy ===== *)
theory Client_Correct
  imports Client Daemon_Correct Delivery
begin

text \<open>
  What the access concentrator promises: the message it sends for a request, and what an answer of
  the server does to the request it belongs to.
\<close>

subsection \<open>The messages of requests\<close>

definition lock_fields :: "u32 \<Rightarrow> string \<Rightarrow> byte list \<Rightarrow> byte list" where
  "lock_fields pid path rest = big_endian 4 pid @ path_field path @ rest"

fun request_message :: "request_data \<Rightarrow> byte list" where
  "request_message (register_process_request nonce i) = message MSG_ID_REG_PROC (big_endian 4 nonce)"
| "request_message (unregister_process_request i) = message MSG_ID_UNREG_PROC (big_endian 4 i)"
| "request_message (create_lock_request pid path acquire_X) =
     message MSG_ID_CREATE_LOCK (lock_fields pid path [if acquire_X then 1 else 0])"
| "request_message (acquire_lock_request pid path m) =
     message MSG_ID_ACQUIRE_LOCK (lock_fields pid path [m])"
| "request_message (release_lock_request pid path m) =
     message MSG_ID_RELEASE_LOCK (lock_fields pid path [m])"

definition request_path :: "request_data \<Rightarrow> string" where
  "request_path d =
     (case d of
        create_lock_request pid path x \<Rightarrow> path
      | acquire_lock_request pid path m \<Rightarrow> path
      | release_lock_request pid path m \<Rightarrow> path
      | _ \<Rightarrow> [])"

text \<open>\<open>ac'\<close> is \<open>ac\<close> with the message \<open>m\<close> at the end of the send queue, if connected.\<close>

definition queued_message :: "byte list \<Rightarrow> access_concentrator \<Rightarrow> access_concentrator \<Rightarrow> bool" where
  "queued_message m ac ac' \<longleftrightarrow>
     (case ac_connection ac of
        None \<Rightarrow> ac' = ac
      | Some c \<Rightarrow> \<exists>s. ready s m \<and> ac' = ac\<lparr>ac_connection := Some (send s c)\<rparr>)"

lemma queued_message_auto: "ready s m \<Longrightarrow> queued_message m ac (fst (send_message_auto s ac))"
  by (auto simp: queued_message_def send_message_auto_def send_message_tcp_def split: option.split)

lemma reply_stream_total:
  assumes "mem_good oom mem" "n < 2 ^ 63" "\<And>s. writing s [] n \<Longrightarrow> ensures fails hang Q (f s)"
    and "oom \<Longrightarrow> ensures fails hang Q failed"
  shows "ensures fails hang Q (reply_stream mem n f failed)"
  using mem_good_nth[OF assms(1), of 0]
proof (cases rule: stream_new_good)
  case none
  with assms(4) show ?thesis by (simp add: reply_stream_def)
next
  case (some s)
  with capacity_rule[OF some(2) mem_good_nth[OF assms(1), of 1], of n] assms(2-4) show ?thesis
    by (auto simp: reply_stream_def)
qed

lemma place_string_rule:
  assumes "writing s bs k" "length path \<le> k"
    and "\<And>s'. writing s' (bs @ bytes_of_string path) (k - length path) \<Longrightarrow> ensures oom hang Q (f s')"
  shows "ensures oom hang Q (andthen (checked (place_string path s)) f)"
proof -
  have "place_string path s = append_string path s"
  proof -
    have "s_pos s' = s_length s'" if "copy_in (bytes_of_string path) s = Inr s'" for s'
      using copy_in_writing[OF assms(1), of "bytes_of_string path"] assms(2) that by auto
    then show ?thesis by (auto simp: place_string_def append_string_def Let_def split: sum.split)
  qed
  with append_string_rule[OF assms] show ?thesis by simp
qed

definition sends :: "bool \<Rightarrow> byte list \<Rightarrow> access_concentrator \<Rightarrow> access_concentrator \<Rightarrow> bool" where
  "sends oom m ac ac' \<longleftrightarrow> queued_message m ac ac' \<or> oom \<and> ac' = ac"

lemma sends_auto: "writing s m k \<Longrightarrow> m \<noteq> [] \<Longrightarrow> sends oom m ac (fst (send_message_auto s ac))"
  by (simp add: sends_def queued_message_auto writing_ready)

lemma with_request_Some:
  "request_objects ac r = Some q \<Longrightarrow> get (request_data q) = Some x \<Longrightarrow> with_request get r ac f = f x"
  by (simp add: with_request_def)

lemma send_id_rule:
  assumes "writing s [] 9"
  shows "ensures False False (sends oom (message i (big_endian 4 (x :: u32))) ac)
    (andthen (andthen (ended (write_message_header alloc Little_Endian i 4 s)) checked) (\<lambda>(s, ok).
       andthen (checked (stream_write_uint32_t Little_Endian x s)) (\<lambda>s. Ok (fst (send_message_auto s ac)))))"
  by (intro header_rule[OF assms], simp, simp only: prod.case, elim write32_rule)
    (auto simp: message_def intro: sends_auto)

lemma send_register_rule:
  assumes "mem_good oom mem" "request_objects ac r = Some q" "request_data q = register_process_request n i"
  shows "ensures False False (sends oom (request_message (request_data q)) ac)
    (send_register_process_request Little_Endian mem r ac)"
  using assms unfolding send_register_process_request_def
  by (intro reply_stream_total[OF assms(1)])
    (simp_all add: with_request_Some[OF assms(2)] send_id_rule, simp add: sends_def)

lemma send_unregister_rule:
  assumes "mem_good oom mem" "request_objects ac r = Some q" "request_data q = unregister_process_request i"
  shows "ensures False False (sends oom (request_message (request_data q)) ac)
    (send_unregister_process_request Little_Endian mem r ac)"
  using assms unfolding send_unregister_process_request_def
  by (intro reply_stream_total[OF assms(1)])
    (simp_all add: with_request_Some[OF assms(2)] send_id_rule, simp add: sends_def)

lemma lock_fields_message:
  "header i (of_nat (4 + 2 + length path + 1)) @ big_endian 4 pid @
     big_endian 2 (of_nat (length path) :: u16) @ bytes_of_string path @ [x] = message i (lock_fields pid path [x])"
  by (simp add: message_def lock_fields_def path_field_def)

lemma send_create_rule:
  assumes "mem_good oom mem" "request_objects ac r = Some q" "request_data q = create_lock_request pid path x"
    and "length path + 12 < 2 ^ 63"
  shows "ensures False False (sends oom (request_message (request_data q)) ac)
    (send_create_lock_request Little_Endian mem r ac)"
proof -
  have "ensures False False (sends oom (request_message (request_data q)) ac)
    (andthen (andthen (ended (write_message_header (mem 2) Little_Endian MSG_ID_CREATE_LOCK
           (of_nat (4 + 2 + length path + 1)) s)) checked) (\<lambda>(s, ok).
       andthen (checked (stream_write_uint32_t Little_Endian pid s)) (\<lambda>s.
       andthen (checked (stream_write_uint16_t Little_Endian (of_nat (length path)) s)) (\<lambda>s.
       andthen (checked (put_string path s)) (\<lambda>s.
       andthen (checked (stream_write_uint8_t (if x then 1 else 0) s)) (\<lambda>s.
       Ok (fst (send_message_auto s ac))))))))" if s: "writing s [] (5 + 4 + 2 + length path + 1)" for s
    by (intro header_rule[OF s], simp, simp only: prod.case, elim write32_rule, simp,
        elim write16_rule, simp, elim put_string_rule, simp, elim write8_rule, simp)
      (use lock_fields_message[of MSG_ID_CREATE_LOCK path pid "if x then 1 else 0"] assms(3) in
        \<open>auto intro: sends_auto simp del: of_nat_add\<close>)
  note body = this
  have get: "get_create (request_data q) = Some (pid, path, x)" using assms(3) by simp
  show ?thesis unfolding send_create_lock_request_def with_request_Some[where get = get_create, OF assms(2) get] prod.case
    by (rule reply_stream_total[OF assms(1) _ body]) (use assms(4) in \<open>auto simp: sends_def\<close>)
qed

lemma send_lock_rule:
  assumes s: "writing s [] (5 + 4 + 2 + length path + 1)"
  shows "ensures False False (sends oom (message i (lock_fields pid path [x])) ac)
    (andthen (andthen (ended (write_message_header alloc Little_Endian i
           (of_nat (4 + 2 + length path + 1)) s)) checked) (\<lambda>(s, ok).
       andthen (checked (stream_write_uint32_t Little_Endian pid s)) (\<lambda>s.
       andthen (checked (stream_write_uint16_t Little_Endian (of_nat (length path)) s)) (\<lambda>s.
       andthen (checked (place_string path s)) (\<lambda>s.
       andthen (checked (stream_write_uint8_t x s)) (\<lambda>s.
       Ok (fst (send_message_auto s ac))))))))"
  by (intro header_rule[OF s], simp, simp only: prod.case, elim write32_rule, simp,
      elim write16_rule, simp, elim place_string_rule, simp, elim write8_rule, simp)
    (use lock_fields_message[of i path pid x] in \<open>auto intro: sends_auto simp del: of_nat_add\<close>)

lemma send_acquire_rule:
  assumes "mem_good oom mem" "request_objects ac r = Some q" "request_data q = acquire_lock_request pid path m"
    and "length path + 12 < 2 ^ 63"
  shows "ensures False False (sends oom (request_message (request_data q)) ac)
    (send_acquire_lock_request Little_Endian mem r ac)"
proof -
  have get: "get_acquire (request_data q) = Some (pid, path, m)" using assms(3) by simp
  show ?thesis
    unfolding send_acquire_lock_request_def with_request_Some[where get = get_acquire, OF assms(2) get] prod.case assms(3) request_message.simps
    by (rule reply_stream_total[OF assms(1) _ send_lock_rule]) (use assms(4) in \<open>auto simp: sends_def\<close>)
qed

lemma send_release_rule:
  assumes "mem_good oom mem" "request_objects ac r = Some q" "request_data q = release_lock_request pid path m"
    and "length path + 12 < 2 ^ 63"
  shows "ensures False False (sends oom (request_message (request_data q)) ac)
    (send_release_lock_request Little_Endian mem r ac)"
proof -
  have get: "get_release (request_data q) = Some (pid, path, m)" using assms(3) by simp
  show ?thesis
    unfolding send_release_lock_request_def with_request_Some[where get = get_release, OF assms(2) get] prod.case assms(3) request_message.simps
    by (rule reply_stream_total[OF assms(1) _ send_lock_rule]) (use assms(4) in \<open>auto simp: sends_def\<close>)
qed

lemmas send_rules = send_register_rule send_unregister_rule send_create_rule send_acquire_rule send_release_rule

subsection \<open>The fields of a lock message\<close>

lemma string_of_bytes_of_string [simp]: "string_of_bytes (bytes_of_string s) = s"
proof -
  have "unat (of_nat (of_char c) :: byte) = of_char c" for c
    by (simp add: unat_of_nat take_bit_eq_mod)
  then have "char_of (unat (of_char c :: byte)) = c" for c
    by (metis char_of_char of_nat_of_char)
  then show ?thesis by (simp add: string_of_bytes_def bytes_of_string_def map_idI)
qed

lemma length_path_field [simp]: "length (path_field path) = 2 + length path"
  by (simp add: path_field_def)

lemma lock_message_fields:
  assumes "length path < 2 ^ 16"
  shows "msg_pid (message i (lock_fields pid path rest)) = pid"
    and "msg_path_length (message i (lock_fields pid path rest)) = length path"
    and "msg_path (message i (lock_fields pid path rest)) = path"
    and "drop (11 + length path) (message i (lock_fields pid path rest)) = rest"
proof -
  let ?m = "message i (lock_fields pid path rest)"
  have 5: "drop 5 ?m = lock_fields pid path rest" by (simp add: message_def)
  have 9: "drop 9 ?m = path_field path @ rest"
  proof -
    have "drop 9 ?m = drop 4 (drop 5 ?m)" by (simp add: drop_drop)
    also have "\<dots> = path_field path @ rest" unfolding 5 by (simp add: lock_fields_def)
    finally show ?thesis .
  qed
  have 11: "drop 11 ?m = bytes_of_string path @ rest"
  proof -
    have "drop 11 ?m = drop 2 (drop 9 ?m)" by (simp add: drop_drop)
    also have "\<dots> = bytes_of_string path @ rest" unfolding 9 by (simp add: path_field_def)
    finally show ?thesis .
  qed
  show "msg_pid ?m = pid"
    using from_big_endian[of 4 pid] 5 by (simp add: msg_pid_def lock_fields_def)
  have "from_bytes (take 2 (drop 9 ?m)) = (of_nat (length path) :: u16)"
    using from_big_endian[of 2 "of_nat (length path) :: u16"] 9 by (simp add: path_field_def)
  with assms show n: "msg_path_length ?m = length path"
    by (simp add: msg_path_length_def unat_of_nat take_bit_nat_eq_self)
  from n 11 show "msg_path ?m = path" by (simp add: msg_path_def)
  have "drop (11 + length path) ?m = drop (length path) (drop 11 ?m)" by (simp add: drop_drop add.commute)
  also have "\<dots> = rest" unfolding 11 by simp
  finally show "drop (11 + length path) ?m = rest" .
qed

lemma message_nth_0 [simp]: "message i body ! 0 = i"
  by (simp add: message_def header_def)

lemma lock_message_byte:
  assumes "length path < 2 ^ 16"
  shows "msg_byte (message i (lock_fields pid path (x # rest))) = x"
proof -
  let ?m = "message i (lock_fields pid path (x # rest))"
  have "11 + length path < length ?m" by (simp add: lock_fields_def)
  then have "?m ! (11 + length path) = hd (drop (11 + length path) ?m)" by (simp add: hd_drop_conv_nth)
  with lock_message_fields[OF assms, of i pid "x # rest"] show ?thesis by (simp add: msg_byte_def)
qed

subsection \<open>Receiving answers\<close>

lemma receive_message_tcp_eq:
  assumes "reading s m 0" "5 \<le> length m" "length m < 2 ^ 63"
  shows "receive_message_tcp Little_Endian s ac =
    (let s = s\<lparr>s_pos := 5\<rparr>; i = m ! 0
     in if i = MSG_ID_REG_PROC_RESPONSE then receive_register_process_response Little_Endian s ac
        else if i = MSG_ID_UNREG_PROC_RESPONSE then receive_unregister_process_response Little_Endian s ac
        else if i = MSG_ID_CREATE_LOCK_UPDATE then receive_create_lock_update Little_Endian s ac
        else if i = MSG_ID_ACQUIRE_LOCK_UPDATE then receive_acquire_lock_update Little_Endian s ac
        else if i = MSG_ID_RELEASE_LOCK_RESPONSE then receive_release_lock_response Little_Endian s ac
        else Ok ac)"
proof -
  have ne: "m \<noteq> []" using assms(2) by auto
  have "stream_read_uint8_t s = Inr (m ! 0, s\<lparr>s_pos := 1\<rparr>)"
    using read_uint8_ok[OF assms(1)] assms(2) ne by simp
  moreover have "\<exists>len. stream_read_uint32_t Little_Endian (s\<lparr>s_pos := 1\<rparr>) = Inr (len, s\<lparr>s_pos := 5\<rparr>)"
    using read32_eq[OF reading_at[OF assms(1,3), of 1]] assms(2) ne by simp
  ultimately show ?thesis by (auto simp: receive_message_tcp_def Let_def)
qed

lemma lock_fields_read:
  assumes "reading s m 5" "m = message i (lock_fields pid path rest)" "length path < 2 ^ 16" "length m < 2 ^ 63"
  shows "stream_read_uint32_t Little_Endian s = Inr (pid, s\<lparr>s_pos := 9\<rparr>)"
    and "stream_read_uint16_t Little_Endian (s\<lparr>s_pos := 9\<rparr>) = Inr (of_nat (length path), s\<lparr>s_pos := 11\<rparr>)"
    and "read_path (unat (of_nat (length path) :: u16)) (s\<lparr>s_pos := 11\<rparr>) =
      Inr (path, s\<lparr>s_pos := 11 + length path\<rparr>)"
proof -
  note f = lock_message_fields[OF assms(3), of i pid rest, folded assms(2)]
  have len: "length m = 11 + length path + length rest" by (simp add: assms(2) lock_fields_def)
  then have ne: "m \<noteq> []" by auto
  have at: "q \<le> length m \<Longrightarrow> reading (s\<lparr>s_pos := q\<rparr>) m q" for q
    using reading_at[OF assms(1,4) _ ne] by simp
  show "stream_read_uint32_t Little_Endian s = Inr (pid, s\<lparr>s_pos := 9\<rparr>)"
    using read32_eq[OF assms(1)] f(1) len by (simp add: msg_pid_def)
  have n: "from_bytes (take 2 (drop 9 m)) = (of_nat (length path) :: u16)"
    using f(2) unfolding msg_path_length_def by (metis of_nat_unat ucast_id)
  show "stream_read_uint16_t Little_Endian (s\<lparr>s_pos := 9\<rparr>) = Inr (of_nat (length path), s\<lparr>s_pos := 11\<rparr>)"
    using read16_eq[OF at[of 9]] n len by simp
  have "unat (of_nat (length path) :: u16) = length path"
    using assms(3) by (simp add: unat_of_nat take_bit_nat_eq_self)
  then show "read_path (unat (of_nat (length path) :: u16)) (s\<lparr>s_pos := 11\<rparr>) =
      Inr (path, s\<lparr>s_pos := 11 + length path\<rparr>)"
    using read_path_eq[OF at[of 11], of "length path"] f(2,3) len ne assms(4)
    by (simp add: msg_path_def stream_seek_def)
qed

lemma status_read:
  assumes "reading s m p" "q + 2 \<le> length m" "length m < 2 ^ 63" "take 2 (drop q m) = big_endian 2 (code :: u16)"
  shows "stream_read_uint16_t Little_Endian (s\<lparr>s_pos := q\<rparr>) = Inr (code, s\<lparr>s_pos := q + 2\<rparr>)"
proof -
  have "m \<noteq> []" using assms(2) by auto
  with read16_eq[OF reading_at[OF assms(1,3), of q] assms(2)] assms(2,4) show ?thesis
    using from_big_endian[of 2 code] by simp
qed

lemma byte_read:
  assumes "reading s m p" "q < length m" "length m < 2 ^ 63"
  shows "stream_read_uint8_t (s\<lparr>s_pos := q\<rparr>) = Inr (hd (drop q m), s\<lparr>s_pos := q + 1\<rparr>)"
proof -
  have "m \<noteq> []" using assms(2) by auto
  with read_uint8_ok[OF reading_at[OF assms(1,3), of q]] assms(2) show ?thesis
    by (simp add: hd_drop_conv_nth)
qed

text \<open>What an answer does to a table of waiting lock requests.\<close>

lemma receive_create_update:
  assumes "reading s m 0" "m = message MSG_ID_CREATE_LOCK_UPDATE (lock_fields pid path (big_endian 2 code))"
    and "length path < 2 ^ 16"
  shows "receive_message_tcp Little_Endian s ac =
    (case create_lock_requests ac (pid, path) of
       None \<Rightarrow> Ok ac
     | Some r \<Rightarrow>
         if code \<noteq> RESPONSE_STATUS_QUEUED
         then answer_request r code
           (ac\<lparr>create_lock_requests := (create_lock_requests ac)((pid, path) := None)\<rparr>)
         else Ok ac)"
proof -
  have i0: "m ! 0 = MSG_ID_CREATE_LOCK_UPDATE" by (simp only: assms(2) message_nth_0)
  have len: "length m = 13 + length path" by (simp add: assms(2) lock_fields_def)
  then have ne: "m \<noteq> []" and lt: "length m < 2 ^ 63" using assms(3) by auto
  have r5: "reading (s\<lparr>s_pos := 5\<rparr>) m 5" using reading_at[OF assms(1) lt _ ne] len by simp
  note reads = lock_fields_read[OF r5 assms(2,3) lt]
  have "stream_read_uint16_t Little_Endian (s\<lparr>s_pos := 11 + length path\<rparr>) = Inr (code, s\<lparr>s_pos := 11 + length path + 2\<rparr>)"
    using lock_message_fields(4)[OF assms(3)] len lt by (intro status_read[OF assms(1)]) (simp_all add: assms(2))
  with reads show ?thesis
    by (simp add: receive_message_tcp_eq[OF assms(1) _ lt] len i0 receive_create_lock_update_def)
qed

lemma mode_status_read:
  assumes "reading s m 0" "m = message i (lock_fields pid path (x # big_endian 2 code))" "length path < 2 ^ 16"
  shows "stream_read_uint8_t (s\<lparr>s_pos := 11 + length path\<rparr>) = Inr (x, s\<lparr>s_pos := 12 + length path\<rparr>)"
    and "stream_read_uint16_t Little_Endian (s\<lparr>s_pos := 12 + length path\<rparr>) = Inr (code, s\<lparr>s_pos := 14 + length path\<rparr>)"
proof -
  have len: "length m = 14 + length path" by (simp add: assms(2) lock_fields_def)
  then have lt: "length m < 2 ^ 63" using assms(3) by simp
  note f = lock_message_fields(4)[OF assms(3), of i pid "x # big_endian 2 code", folded assms(2)]
  have "drop (12 + length path) m = drop 1 (drop (11 + length path) m)" by (simp add: drop_drop)
  then have "take 2 (drop (12 + length path) m) = big_endian 2 code" unfolding f by simp
  from status_read[OF assms(1) _ lt this] len
  show "stream_read_uint16_t Little_Endian (s\<lparr>s_pos := 12 + length path\<rparr>) = Inr (code, s\<lparr>s_pos := 14 + length path\<rparr>)"
    by simp
  show "stream_read_uint8_t (s\<lparr>s_pos := 11 + length path\<rparr>) = Inr (x, s\<lparr>s_pos := 12 + length path\<rparr>)"
    using byte_read[OF assms(1) _ lt, of "11 + length path"] f len by simp
qed

lemma receive_acquire_update:
  assumes "reading s m 0" "m = message MSG_ID_ACQUIRE_LOCK_UPDATE (lock_fields pid path (x # big_endian 2 code))"
    and "length path < 2 ^ 16"
  shows "receive_message_tcp Little_Endian s ac =
    (case acquire_lock_requests ac (pid, path, x) of
       None \<Rightarrow> Ok ac
     | Some r \<Rightarrow>
         if code \<noteq> RESPONSE_STATUS_QUEUED
         then answer_request r code
           (ac\<lparr>acquire_lock_requests := (acquire_lock_requests ac)((pid, path, x) := None)\<rparr>)
         else Ok ac)"
proof -
  have i0: "m ! 0 = MSG_ID_ACQUIRE_LOCK_UPDATE" by (simp only: assms(2) message_nth_0)
  have len: "length m = 14 + length path" by (simp add: assms(2) lock_fields_def)
  then have ne: "m \<noteq> []" and lt: "length m < 2 ^ 63" using assms(3) by auto
  have r5: "reading (s\<lparr>s_pos := 5\<rparr>) m 5" using reading_at[OF assms(1) lt _ ne] len by simp
  note reads = lock_fields_read[OF r5 assms(2,3) lt] mode_status_read[OF assms]
  from reads show ?thesis
    by (simp add: receive_message_tcp_eq[OF assms(1) _ lt] len i0 receive_acquire_lock_update_def)
qed

lemma receive_release_response:
  assumes "reading s m 0" "m = message MSG_ID_RELEASE_LOCK_RESPONSE (lock_fields pid path (x # big_endian 2 code))"
    and "length path < 2 ^ 16"
  shows "receive_message_tcp Little_Endian s ac =
    (case release_lock_requests ac (pid, path, x) of
       None \<Rightarrow> Ok ac
     | Some r \<Rightarrow> answer_request r code
         (ac\<lparr>release_lock_requests := (release_lock_requests ac)((pid, path, x) := None)\<rparr>))"
proof -
  have i0: "m ! 0 = MSG_ID_RELEASE_LOCK_RESPONSE" by (simp only: assms(2) message_nth_0)
  have len: "length m = 14 + length path" by (simp add: assms(2) lock_fields_def)
  then have ne: "m \<noteq> []" and lt: "length m < 2 ^ 63" using assms(3) by auto
  have r5: "reading (s\<lparr>s_pos := 5\<rparr>) m 5" using reading_at[OF assms(1) lt _ ne] len by simp
  note reads = lock_fields_read[OF r5 assms(2,3) lt] mode_status_read[OF assms]
  from reads show ?thesis
    by (simp add: receive_message_tcp_eq[OF assms(1) _ lt] len i0 receive_release_lock_response_def)
qed

end
