(* ===== verification/Client_Steps.thy ===== *)
theory Client_Steps
  imports Client_Api Client_Correct Transition_System
begin

text \<open>
  The threads of a client. Every call of the library runs in a thread of the application: it takes
  a nonce, enters the request in its table, sends the message and waits; each part is one step,
  because a mutex protects it. The thread of the communications manager hands in the messages of
  the server, until the connection is closed: then the manager drops it, while the concentrator
  keeps its pointer.
\<close>

datatype program_counter = Takes_Nonce | Enters | Sends | Waits

record client =
  concentrator :: access_concentrator
  threads :: "rid \<Rightarrow> program_counter option"
  polled :: bool

definition client_start :: "client \<Rightarrow> bool" where
  "client_start cl \<longleftrightarrow>
     (\<exists>lookup added servername port.
        Access_Concentrator_create lookup added servername port = Inr (concentrator cl)) \<and>
     threads cl = (\<lambda>_. None) \<and> polled cl"

datatype action =
  Construct rid request_data u16
| Take_Nonce rid
| Enter rid
| Send memory rid
| Return rid
| Receive stream
| Close

text \<open>The second part of \<open>issue\<close>.\<close>

definition enter_request :: "rid \<Rightarrow> access_concentrator \<Rightarrow> access_concentrator outcome" where
  "enter_request r ac =
     with_request Some r ac (\<lambda>d.
       (case d of
          register_process_request _ _ \<Rightarrow> Ok (enter_register_process_request r ac)
        | unregister_process_request _ \<Rightarrow> Ok (enter_unregister_process_request r ac)
        | create_lock_request _ _ _ \<Rightarrow> enter_create_lock_request r ac
        | acquire_lock_request _ _ _ \<Rightarrow> enter_acquire_lock_request r ac
        | release_lock_request _ _ _ \<Rightarrow> enter_release_lock_request r ac))"

definition send_request :: "byte_order \<Rightarrow> memory \<Rightarrow> rid \<Rightarrow> access_concentrator \<Rightarrow> access_concentrator outcome" where
  "send_request h mem r ac =
     with_request Some r ac (\<lambda>d.
       (case d of
          register_process_request _ _ \<Rightarrow> send_register_process_request h mem r ac
        | unregister_process_request _ \<Rightarrow> send_unregister_process_request h mem r ac
        | create_lock_request _ _ _ \<Rightarrow> send_create_lock_request h mem r ac
        | acquire_lock_request _ _ _ \<Rightarrow> send_acquire_lock_request h mem r ac
        | release_lock_request _ _ _ \<Rightarrow> send_release_lock_request h mem r ac))"

definition first_part :: "request_data \<Rightarrow> program_counter" where
  "first_part d = (case d of register_process_request _ _ \<Rightarrow> Takes_Nonce | _ \<Rightarrow> Enters)"

definition advance :: "rid \<Rightarrow> program_counter option \<Rightarrow> client \<Rightarrow> access_concentrator outcome \<Rightarrow> client outcome" where
  "advance r pc cl res =
     andthen res (\<lambda>ac. Ok (cl\<lparr>concentrator := ac, threads := (threads cl)(r := pc)\<rparr>))"

text \<open>
  What an action does; \<open>None\<close> if no thread can take it. No \<open>std::string\<close> has $2^{62}$
  characters.
\<close>

fun act :: "byte_order \<Rightarrow> action \<Rightarrow> client \<Rightarrow> client outcome option" where
  "act h (Construct r d code) cl =
     (if threads cl r = None \<and> length (request_path d) < 2 ^ 62
      then Some (advance r (Some (first_part d)) cl (Ok (construct_request r d code (concentrator cl))))
      else None)"
| "act h (Take_Nonce r) cl =
     (if threads cl r = Some Takes_Nonce
      then Some (advance r (Some Enters) cl (take_nonce r (concentrator cl))) else None)"
| "act h (Enter r) cl =
     (if threads cl r = Some Enters
      then Some (advance r (Some Sends) cl (enter_request r (concentrator cl))) else None)"
| "act h (Send mem r) cl =
     (if threads cl r = Some Sends
      then Some (advance r (Some Waits) cl (send_request h mem r (concentrator cl))) else None)"
| "act h (Return r) cl =
     (if threads cl r = Some Waits then
        (case await_answer r (concentrator cl) of
           Ok None \<Rightarrow> None
         | Ok (Some (ac, q)) \<Rightarrow> Some (advance r None cl (Ok ac))
         | Undefined e \<Rightarrow> Some (Undefined e)
         | Terminated \<Rightarrow> Some Terminated
         | Hangs \<Rightarrow> Some Hangs)
      else None)"
| "act h (Receive s) cl =
     (if polled cl
      then Some (andthen (receive_message_tcp h s (concentrator cl)) (\<lambda>ac. Ok (cl\<lparr>concentrator := ac\<rparr>)))
      else None)"
| "act h Close cl = Some (Ok (cl\<lparr>polled := False\<rparr>))"

definition client_step :: "client \<Rightarrow> client \<Rightarrow> bool" where
  "client_step cl cl' \<longleftrightarrow> (\<exists>h a. act h a cl = Some (Ok cl'))"

abbreviation client_reachable :: "client \<Rightarrow> bool" where
  "client_reachable \<equiv> reachable client_start client_step"

text \<open>One call without other threads in between is \<open>issue\<close>.\<close>

lemma issue_parts:
  assumes "request_objects ac r = Some q" "\<And>n i. request_data q \<noteq> register_process_request n i"
  shows "issue h mem r ac = andthen (enter_request r ac) (send_request h mem r)"
proof -
  have "request_objects (enter_unregister_process_request r ac) r = Some q"
    using assms(1) by (simp add: enter_unregister_process_request_def)
  with assms show ?thesis
    by (cases "request_data q")
      (auto simp: issue_def enter_request_def send_request_def with_request_def map_insert_def
        issue_unregister_process_request_def issue_create_lock_request_def issue_acquire_lock_request_def
        issue_release_lock_request_def enter_create_lock_request_def enter_acquire_lock_request_def
        enter_release_lock_request_def)
qed

subsection \<open>Invariant\<close>

text \<open>The place in the tables where a request belongs, and the pointers at a place.\<close>

datatype slot =
  Registrations | Unregistrations
| Creation "u32 \<times> string" | Acquisition "u32 \<times> string \<times> byte" | Release "u32 \<times> string \<times> byte"

fun slot_of :: "request_data \<Rightarrow> slot" where
  "slot_of (register_process_request nonce i) = Registrations"
| "slot_of (unregister_process_request i) = Unregistrations"
| "slot_of (create_lock_request pid path x) = Creation (pid, path)"
| "slot_of (acquire_lock_request pid path m) = Acquisition (pid, path, m)"
| "slot_of (release_lock_request pid path m) = Release (pid, path, m)"

fun entered :: "access_concentrator \<Rightarrow> slot \<Rightarrow> rid \<Rightarrow> bool" where
  "entered ac Registrations r = (r \<in> set (register_process_requests ac))"
| "entered ac Unregistrations r = (r \<in> set (unregister_process_requests ac))"
| "entered ac (Creation k) r = (create_lock_requests ac k = Some r)"
| "entered ac (Acquisition k) r = (acquire_lock_requests ac k = Some r)"
| "entered ac (Release k) r = (release_lock_requests ac k = Some r)"

text \<open>
  Every pointer in a table leads to a request that exists, belongs there, waits for its answer, and
  is being issued by a thread that has got past entering it.
\<close>

definition waiting_at :: "client \<Rightarrow> slot \<Rightarrow> rid \<Rightarrow> bool" where
  "waiting_at cl k r \<longleftrightarrow>
     (\<exists>q. request_objects (concentrator cl) r = Some q \<and> slot_of (request_data q) = k \<and> \<not> answered q) \<and>
     (threads cl r = Some Sends \<or> threads cl r = Some Waits)"

fun thread_ok :: "request option \<Rightarrow> program_counter option \<Rightarrow> bool" where
  "thread_ok None pc = (pc = None)"
| "thread_ok (Some q) pc =
     (pc \<noteq> None \<and> length (request_path (request_data q)) < 2 ^ 62 \<and>
      (pc = Some Takes_Nonce \<longrightarrow> slot_of (request_data q) = Registrations) \<and>
      (pc = Some Takes_Nonce \<or> pc = Some Enters \<longrightarrow> \<not> answered q))"

definition threads_ok :: "client \<Rightarrow> bool" where
  "threads_ok cl \<longleftrightarrow> (\<forall>r. thread_ok (request_objects (concentrator cl) r) (threads cl r))"

definition client_inv :: "client \<Rightarrow> bool" where
  "client_inv cl \<longleftrightarrow> threads_ok cl \<and>
     distinct (register_process_requests (concentrator cl)) \<and>
     distinct (unregister_process_requests (concentrator cl)) \<and>
     (\<forall>k r. entered (concentrator cl) k r \<longrightarrow> waiting_at cl k r)"

lemma client_invD:
  assumes "client_inv cl" "entered (concentrator cl) k r"
  obtains q where "request_objects (concentrator cl) r = Some q" "slot_of (request_data q) = k" "\<not> answered q"
    "threads cl r = Some Sends \<or> threads cl r = Some Waits"
  using assms unfolding client_inv_def waiting_at_def by blast

lemma slot_of_set [simp]: "slot_of (set_nonce n d) = slot_of d" "slot_of (set_id i d) = slot_of d"
  "request_path (set_nonce n d) = request_path d" "request_path (set_id i d) = request_path d"
  by (cases d; simp add: request_path_def)+

text \<open>
  A step that changes the request and the thread at one address only, and leaves no pointer to it
  in the tables, keeps the tables in order.
\<close>

lemma client_inv_frame:
  assumes "client_inv cl" "threads_ok cl'"
    and "\<And>r'. r' \<noteq> r \<Longrightarrow> request_objects (concentrator cl') r' = request_objects (concentrator cl) r'"
    and "\<And>r'. r' \<noteq> r \<Longrightarrow> threads cl' r' = threads cl r'"
    and "\<And>k r'. entered (concentrator cl') k r' \<Longrightarrow> r' \<noteq> r \<and> entered (concentrator cl) k r'"
    and "distinct (register_process_requests (concentrator cl'))"
      "distinct (unregister_process_requests (concentrator cl'))"
  shows "client_inv cl'"
  using assms unfolding client_inv_def waiting_at_def by metis

lemma threads_ok_frame:
  assumes "threads_ok cl"
    and "\<And>r'. r' \<noteq> r \<Longrightarrow> request_objects (concentrator cl') r' = request_objects (concentrator cl) r'"
    and "\<And>r'. r' \<noteq> r \<Longrightarrow> threads cl' r' = threads cl r'"
    and "thread_ok (request_objects (concentrator cl') r) (threads cl' r)"
  shows "threads_ok cl'"
  using assms unfolding threads_ok_def by metis

lemma entered_frame:
  assumes "register_process_requests ac' = register_process_requests ac"
    "unregister_process_requests ac' = unregister_process_requests ac"
    "create_lock_requests ac' = create_lock_requests ac"
    "acquire_lock_requests ac' = acquire_lock_requests ac"
    "release_lock_requests ac' = release_lock_requests ac"
  shows "entered ac' k r = entered ac k r"
  using assms by (cases k) auto

subsection \<open>The steps of a calling thread\<close>

lemma entered_thread:
  "client_inv cl \<Longrightarrow> entered (concentrator cl) k r \<Longrightarrow> threads cl r = Some Sends \<or> threads cl r = Some Waits"
  by (auto elim: client_invD)

lemma thread_request:
  assumes "client_inv cl" "threads cl r = Some pc"
  obtains q where "request_objects (concentrator cl) r = Some q" "thread_ok (Some q) (Some pc)"
proof -
  have "thread_ok (request_objects (concentrator cl) r) (Some pc)"
    using assms by (metis client_inv_def threads_ok_def)
  then show thesis using that by (cases "request_objects (concentrator cl) r") auto
qed

text \<open>Two states of the concentrator with the same tables.\<close>

definition same_tables :: "access_concentrator \<Rightarrow> access_concentrator \<Rightarrow> bool" where
  "same_tables ac ac' \<longleftrightarrow>
     register_process_requests ac' = register_process_requests ac \<and>
     unregister_process_requests ac' = unregister_process_requests ac \<and>
     create_lock_requests ac' = create_lock_requests ac \<and>
     acquire_lock_requests ac' = acquire_lock_requests ac \<and>
     release_lock_requests ac' = release_lock_requests ac"

lemma entered_objects [simp]: "entered (ac\<lparr>request_objects := x\<rparr>) k r = entered ac k r"
  by (rule entered_frame) simp_all

lemma same_tables_entered: "same_tables ac ac' \<Longrightarrow> entered ac' k r = entered ac k r"
  by (rule entered_frame) (simp_all add: same_tables_def)

lemma take_nonce_spec:
  assumes "request_objects ac r = Some q"
  obtains ac' where "take_nonce r ac = Ok ac'" "same_tables ac ac'" "ac_connection ac' = ac_connection ac"
    "request_objects ac' = (request_objects ac)(r \<mapsto>
       request_data_update (set_nonce (register_process_next_nonce ac)) q)"
proof -
  let ?n = "register_process_next_nonce ac"
  let ?ac = "ac\<lparr>request_objects := (request_objects ac)(r \<mapsto> request_data_update (set_nonce ?n) q),
    register_process_next_nonce := (if ?n = 0xFFFFFFFF then 0 else ?n + 1)\<rparr>"
  have "take_nonce r ac = Ok ?ac" by (simp add: take_nonce_def modify_request_def assms)
  then show thesis by (rule that) (simp_all add: same_tables_def)
qed

text \<open>A step of the thread at \<open>r\<close> that leaves the tables alone and is not entered.\<close>

lemma own_step_inv:
  assumes "client_inv cl" "same_tables (concentrator cl) ac'"
    and "\<And>r'. r' \<noteq> r \<Longrightarrow> request_objects ac' r' = request_objects (concentrator cl) r'"
    and "thread_ok (request_objects ac' r) pc"
    and "\<And>k. \<not> entered (concentrator cl) k r"
  shows "client_inv (cl\<lparr>concentrator := ac', threads := (threads cl)(r := pc)\<rparr>)"
proof (rule client_inv_frame[OF assms(1), where r = r])
  show "threads_ok (cl\<lparr>concentrator := ac', threads := (threads cl)(r := pc)\<rparr>)"
    by (rule threads_ok_frame[where cl = cl and r = r]) (use assms in \<open>auto simp: client_inv_def\<close>)
next
  fix k r' assume "entered (concentrator (cl\<lparr>concentrator := ac', threads := (threads cl)(r := pc)\<rparr>)) k r'"
  then have "entered (concentrator cl) k r'" by (simp add: same_tables_entered[OF assms(2)])
  with assms(5) show "r' \<noteq> r \<and> entered (concentrator cl) k r'" by metis
qed (use assms in \<open>auto simp: client_inv_def same_tables_def\<close>)

lemma enter_request_spec:
  assumes "request_objects ac r = Some q"
  obtains ac' where "enter_request r ac = Ok ac'" "request_objects ac' = request_objects ac"
    "\<And>k r'. entered ac' k r' \<Longrightarrow> entered ac k r' \<or> r' = r \<and> k = slot_of (request_data q)"
    "register_process_requests ac' = register_process_requests ac @ [r] \<or>
      register_process_requests ac' = register_process_requests ac"
    "unregister_process_requests ac' = unregister_process_requests ac @ [r] \<or>
      unregister_process_requests ac' = unregister_process_requests ac"
proof -
  have ins: "map_insert k v m k' = Some v' \<Longrightarrow> m k' = Some v' \<or> k' = k \<and> v' = v" for k k' v v' and m :: "'k \<Rightarrow> rid option"
    by (auto simp: map_insert_def split: option.splits if_splits)
  show thesis
  proof (cases "request_data q")
    case (register_process_request n i)
    show ?thesis
      by (rule that[of "enter_register_process_request r ac"], goal_cases)
        (use assms register_process_request in \<open>auto simp: enter_request_def with_request_def
          enter_register_process_request_def elim!: entered.elims\<close>)
  next
    case (unregister_process_request i)
    show ?thesis
      by (rule that[of "enter_unregister_process_request r ac"], goal_cases)
        (use assms unregister_process_request in \<open>auto simp: enter_request_def with_request_def
          enter_unregister_process_request_def elim!: entered.elims\<close>)
  next
    case (create_lock_request pid path x)
    show ?thesis
      by (rule that[of "ac\<lparr>create_lock_requests := map_insert (pid, path) r (create_lock_requests ac)\<rparr>"], goal_cases)
        (use assms create_lock_request in \<open>auto simp: enter_request_def with_request_def
          enter_create_lock_request_def dest: ins elim!: entered.elims\<close>)
  next
    case (acquire_lock_request pid path x)
    show ?thesis
      by (rule that[of "ac\<lparr>acquire_lock_requests := map_insert (pid, path, x) r (acquire_lock_requests ac)\<rparr>"], goal_cases)
        (use assms acquire_lock_request in \<open>auto simp: enter_request_def with_request_def
          enter_acquire_lock_request_def dest: ins elim!: entered.elims\<close>)
  next
    case (release_lock_request pid path x)
    show ?thesis
      by (rule that[of "ac\<lparr>release_lock_requests := map_insert (pid, path, x) r (release_lock_requests ac)\<rparr>"], goal_cases)
        (use assms release_lock_request in \<open>auto simp: enter_request_def with_request_def
          enter_release_lock_request_def dest: ins elim!: entered.elims\<close>)
  qed
qed

lemma enter_step_inv:
  assumes "client_inv cl" "threads cl r = Some Enters" "request_objects (concentrator cl) r = Some q"
    and "\<not> answered q" "request_objects ac' = request_objects (concentrator cl)"
    and "\<And>k r'. entered ac' k r' \<Longrightarrow> entered (concentrator cl) k r' \<or> r' = r \<and> k = slot_of (request_data q)"
    and "register_process_requests ac' = register_process_requests (concentrator cl) @ [r] \<or>
      register_process_requests ac' = register_process_requests (concentrator cl)"
    and "unregister_process_requests ac' = unregister_process_requests (concentrator cl) @ [r] \<or>
      unregister_process_requests ac' = unregister_process_requests (concentrator cl)"
  shows "client_inv (cl\<lparr>concentrator := ac', threads := (threads cl)(r := Some Sends)\<rparr>)"
proof -
  let ?ac = "concentrator cl" and ?cl = "cl\<lparr>concentrator := ac', threads := (threads cl)(r := Some Sends)\<rparr>"
  have new: "\<not> entered ?ac k r" for k using entered_thread[OF assms(1)] assms(2) by fastforce
  then have "distinct (register_process_requests ac')" "distinct (unregister_process_requests ac')"
    using assms(7,8) new[of Registrations] new[of Unregistrations] assms(1) by (auto simp: client_inv_def)
  moreover obtain q' where "request_objects ?ac r = Some q'" "thread_ok (Some q') (Some Enters)"
    using thread_request[OF assms(1,2)] .
  with assms(1,3,5) have "threads_ok ?cl"
    by - (rule threads_ok_frame[where cl = cl and r = r], simp_all add: client_inv_def)
  moreover have "waiting_at ?cl k r'" if "entered ac' k r'" for k r'
  proof (cases "entered ?ac k r'")
    case True
    then have "r' \<noteq> r" using new by auto
    with client_invD[OF assms(1) True] assms(5) show ?thesis by (auto simp: waiting_at_def)
  next
    case False
    with assms(6)[OF that] assms(3-5) show ?thesis by (simp add: waiting_at_def)
  qed
  ultimately show ?thesis by (simp add: client_inv_def)
qed

lemma reply_stream_Ok:
  "reply_stream mem n f failed = Ok x \<Longrightarrow> failed = Ok x \<or> (\<exists>s. f s = Ok x)"
  by (auto simp: reply_stream_def andthen_Ok_iff split: option.splits if_splits)

lemma send_message_auto_frame:
  "same_tables ac (fst (send_message_auto s ac))"
  "request_objects (fst (send_message_auto s ac)) = request_objects ac"
  by (simp_all add: send_message_auto_def send_message_tcp_def same_tables_def split: option.split)

lemma send_request_frame:
  assumes "send_request h mem r ac = Ok ac'"
  shows "same_tables ac ac'" "request_objects ac' = request_objects ac"
proof -
  have "ac' = ac \<or> (\<exists>s. ac' = fst (send_message_auto s ac))"
    using assms
    by (auto simp: send_request_def with_request_def send_register_process_request_def
        send_unregister_process_request_def send_create_lock_request_def send_acquire_lock_request_def
        send_release_lock_request_def andthen_Ok_iff split: option.splits request_data.splits
        dest!: reply_stream_Ok) blast+
  then show "same_tables ac ac'" "request_objects ac' = request_objects ac"
    using send_message_auto_frame by (auto simp: same_tables_def)
qed

text \<open>A step that leaves requests and tables alone.\<close>

lemma send_step_inv:
  assumes "client_inv cl" "same_tables (concentrator cl) ac'" "request_objects ac' = request_objects (concentrator cl)"
    and "threads cl r = Some Sends" "pc = Some Waits"
  shows "client_inv (cl\<lparr>concentrator := ac', threads := (threads cl)(r := pc)\<rparr>)"
proof -
  let ?cl = "cl\<lparr>concentrator := ac', threads := (threads cl)(r := pc)\<rparr>"
  obtain q where q: "request_objects (concentrator cl) r = Some q" "thread_ok (Some q) (Some Sends)"
    using thread_request[OF assms(1,4)] .
  have "threads_ok ?cl"
    by (rule threads_ok_frame[where cl = cl and r = r]) (use assms q in \<open>auto simp: client_inv_def\<close>)
  moreover have "waiting_at ?cl k r'" if "entered ac' k r'" for k r'
  proof -
    have "entered (concentrator cl) k r'" using that by (simp add: same_tables_entered[OF assms(2)])
    with client_invD[OF assms(1) this] assms(3,5) show ?thesis by (auto simp: waiting_at_def)
  qed
  ultimately show ?thesis using assms(1,2) by (simp add: client_inv_def same_tables_def)
qed

subsection \<open>The messages of the server\<close>

fun drop_entry :: "slot \<Rightarrow> rid \<Rightarrow> access_concentrator \<Rightarrow> access_concentrator" where
  "drop_entry Registrations r ac = ac\<lparr>register_process_requests := remove1 r (register_process_requests ac)\<rparr>"
| "drop_entry Unregistrations r ac = ac\<lparr>unregister_process_requests := remove1 r (unregister_process_requests ac)\<rparr>"
| "drop_entry (Creation k) r ac = ac\<lparr>create_lock_requests := (create_lock_requests ac)(k := None)\<rparr>"
| "drop_entry (Acquisition k) r ac = ac\<lparr>acquire_lock_requests := (acquire_lock_requests ac)(k := None)\<rparr>"
| "drop_entry (Release k) r ac = ac\<lparr>release_lock_requests := (release_lock_requests ac)(k := None)\<rparr>"

text \<open>
  A message answers at most one request: one that is in a table, which is removed from it. Its
  identity does not change.
\<close>

definition answers :: "slot \<Rightarrow> rid \<Rightarrow> u16 \<Rightarrow> access_concentrator \<Rightarrow> access_concentrator \<Rightarrow> bool" where
  "answers k r code ac ac' \<longleftrightarrow> entered ac k r \<and>
     (\<exists>q d. request_objects ac r = Some q \<and> slot_of d = slot_of (request_data q) \<and>
        request_path d = request_path (request_data q) \<and>
        ac' = (drop_entry k r ac)\<lparr>request_objects := (request_objects ac)(r \<mapsto> answer code (q\<lparr>request_data := d\<rparr>))\<rparr>)"

lemma find_request_Some:
  "find_request P ac rs = Ok (Some r) \<Longrightarrow> r \<in> set rs \<and> (\<exists>q. request_objects ac r = Some q \<and> P (request_data q))"
  by (induction rs) (auto split: option.splits if_splits)

lemma answer_request_Ok:
  "answer_request r code ac = Ok ac' \<Longrightarrow>
   \<exists>q. request_objects ac r = Some q \<and> ac' = ac\<lparr>request_objects := (request_objects ac)(r \<mapsto> answer code q)\<rparr>"
  by (auto simp: answer_request_def modify_request_def split: option.splits)

lemma answersI:
  assumes "entered ac k r" "answer_request r code (drop_entry k r ac) = Ok ac'"
  shows "answers k r code ac ac'"
proof -
  have o: "request_objects (drop_entry k r ac) = request_objects ac" by (cases k) simp_all
  from answer_request_Ok[OF assms(2)] obtain q where q: "request_objects ac r = Some q"
    "ac' = (drop_entry k r ac)\<lparr>request_objects := (request_objects ac)(r \<mapsto> answer code q)\<rparr>"
    by (auto simp: o)
  with assms(1) show ?thesis unfolding answers_def by (intro conjI exI[of _ q] exI[of _ "request_data q"]) simp_all
qed

abbreviation at_most_one_answer :: "access_concentrator \<Rightarrow> access_concentrator \<Rightarrow> bool" where
  "at_most_one_answer ac ac' \<equiv> ac' = ac \<or> (\<exists>k r code. answers k r code ac ac')"

lemma settle_Ok:
  assumes "(case m of None \<Rightarrow> Ok ac | Some r \<Rightarrow> if c then answer_request r code (f r) else Ok ac) = Ok ac'"
    and "\<And>r. m = Some r \<Longrightarrow> entered ac k r \<and> f r = drop_entry k r ac"
  shows "at_most_one_answer ac ac'"
  using assms by (cases m) (auto dest: answersI split: if_splits)

lemmas settle_always_Ok = settle_Ok[where c = True, unfolded if_True]

lemma receive_create_answers:
  assumes "receive_create_lock_update h s ac = Ok ac'"
  shows "at_most_one_answer ac ac'"
proof -
  obtain pid path code where "(case create_lock_requests ac (pid, path) of None \<Rightarrow> Ok ac
      | Some r \<Rightarrow> if code \<noteq> RESPONSE_STATUS_QUEUED
          then answer_request r code (ac\<lparr>create_lock_requests := (create_lock_requests ac)((pid, path) := None)\<rparr>)
          else Ok ac) = Ok ac'"
    using assms by (auto simp: receive_create_lock_update_def andthen_Ok_iff)
  from settle_Ok[OF this, of "Creation (pid, path)"] show ?thesis by simp
qed

lemma receive_acquire_answers:
  assumes "receive_acquire_lock_update h s ac = Ok ac'"
  shows "at_most_one_answer ac ac'"
proof -
  obtain key code where "(case acquire_lock_requests ac key of None \<Rightarrow> Ok ac
      | Some r \<Rightarrow> if code \<noteq> RESPONSE_STATUS_QUEUED
          then answer_request r code (ac\<lparr>acquire_lock_requests := (acquire_lock_requests ac)(key := None)\<rparr>)
          else Ok ac) = Ok ac'"
    using assms by (auto simp: receive_acquire_lock_update_def andthen_Ok_iff)
  from settle_Ok[OF this, of "Acquisition key"] show ?thesis by simp
qed

lemma receive_release_answers:
  assumes "receive_release_lock_response h s ac = Ok ac'"
  shows "at_most_one_answer ac ac'"
proof -
  obtain key code where "(case release_lock_requests ac key of None \<Rightarrow> Ok ac
      | Some r \<Rightarrow> answer_request r code (ac\<lparr>release_lock_requests := (release_lock_requests ac)(key := None)\<rparr>))
        = Ok ac'"
    using assms by (auto simp: receive_release_lock_response_def andthen_Ok_iff)
  from settle_always_Ok[OF this, of "Release key"] show ?thesis by simp
qed

lemma receive_unregister_answers:
  assumes "receive_unregister_process_response h s ac = Ok ac'"
  shows "at_most_one_answer ac ac'"
proof -
  obtain P found code where f: "find_request P ac (unregister_process_requests ac) = Ok found"
    and a: "(case found of None \<Rightarrow> Ok ac
      | Some r \<Rightarrow> answer_request r code
            (ac\<lparr>unregister_process_requests := remove1 r (unregister_process_requests ac)\<rparr>)) = Ok ac'"
    using assms by (auto simp: receive_unregister_process_response_def andthen_Ok_iff)
  from settle_always_Ok[OF a, of Unregistrations] find_request_Some[of P ac "unregister_process_requests ac"] f
  show ?thesis by simp
qed

lemma receive_register_answers:
  assumes "receive_register_process_response h s ac = Ok ac'"
  shows "at_most_one_answer ac ac'"
proof -
  let ?ac = "\<lambda>r. ac\<lparr>register_process_requests := remove1 r (register_process_requests ac)\<rparr>"
  obtain nonce found code s2 where
      f: "find_request (\<lambda>d. get_nonce d = Some nonce) ac (register_process_requests ac) = Ok found"
    and a: "(case found of None \<Rightarrow> Ok ac
      | Some r \<Rightarrow> andthen (if code = RESPONSE_STATUS_SUCCESS \<and> 4 \<le> stream_remaining_length s2
          then andthen (checked (stream_read_uint32_t h s2)) (\<lambda>(i, s). modify_request r (request_data_update (set_id i)) (?ac r))
          else Ok (?ac r)) (answer_request r code)) = Ok ac'"
    using assms by (auto simp: receive_register_process_response_def andthen_Ok_iff Let_def)
  show ?thesis
  proof (cases found)
    case None
    with a show ?thesis by simp
  next
    case (Some r)
    with find_request_Some[OF f[unfolded Some]] obtain q where
      q: "r \<in> set (register_process_requests ac)" "request_objects ac r = Some q" by blast
    from a Some obtain ac1 where ac1: "answer_request r code ac1 = Ok ac'"
      "ac1 = ?ac r \<or> (\<exists>i. modify_request r (request_data_update (set_id i)) (?ac r) = Ok ac1)"
      by (auto simp: andthen_Ok_iff split: if_splits)
    then obtain d where "slot_of d = slot_of (request_data q)" "request_path d = request_path (request_data q)"
      "ac' = (?ac r)\<lparr>request_objects := (request_objects ac)(r \<mapsto> answer code (q\<lparr>request_data := d\<rparr>))\<rparr>"
    proof (cases "ac1 = ?ac r")
      case True
      with ac1(1) q(2) show ?thesis
        by (intro that[of "request_data q"]) (auto simp: answer_request_def modify_request_def)
    next
      case False
      with ac1(2) obtain i where "modify_request r (request_data_update (set_id i)) (?ac r) = Ok ac1" by blast
      with ac1(1) q(2) show ?thesis
        by (intro that[of "set_id i (request_data q)"]; cases q) (auto simp: answer_request_def modify_request_def)
    qed
    with q have "answers Registrations r code ac ac'" by (auto simp: answers_def)
    then show ?thesis by blast
  qed
qed

lemma receive_answers:
  assumes "receive_message_tcp h s ac = Ok ac'"
  shows "at_most_one_answer ac ac'"
proof -
  obtain i s' where "(if i = MSG_ID_REG_PROC_RESPONSE then receive_register_process_response h s' ac
     else if i = MSG_ID_UNREG_PROC_RESPONSE then receive_unregister_process_response h s' ac
     else if i = MSG_ID_CREATE_LOCK_UPDATE then receive_create_lock_update h s' ac
     else if i = MSG_ID_ACQUIRE_LOCK_UPDATE then receive_acquire_lock_update h s' ac
     else if i = MSG_ID_RELEASE_LOCK_RESPONSE then receive_release_lock_response h s' ac
     else Ok ac) = Ok ac'"
    using assms unfolding receive_message_tcp_def andthen_Ok_iff by (auto simp only: prod.case split_paired_Ex andthen_Ok_iff)
  then have "receive_register_process_response h s' ac = Ok ac' \<or>
      receive_unregister_process_response h s' ac = Ok ac' \<or> receive_create_lock_update h s' ac = Ok ac' \<or>
      receive_acquire_lock_update h s' ac = Ok ac' \<or> receive_release_lock_response h s' ac = Ok ac' \<or> ac' = ac"
    by (simp only: split: if_splits) simp_all
  with receive_create_answers[of h s' ac ac'] receive_acquire_answers[of h s' ac ac']
    receive_release_answers[of h s' ac ac'] receive_unregister_answers[of h s' ac ac']
    receive_register_answers[of h s' ac ac'] show ?thesis by blast
qed

lemma entered_drop:
  assumes "distinct (register_process_requests ac)" "distinct (unregister_process_requests ac)"
  shows "entered (drop_entry k r ac) k' r' \<longleftrightarrow> entered ac k' r' \<and> \<not> (k' = k \<and> (r' = r \<or> \<not> (k = Registrations \<or> k = Unregistrations)))"
  using assms by (cases k; cases k'; force)

lemma answers_inv:
  assumes "client_inv cl" "answers k r code (concentrator cl) ac'"
  shows "client_inv (cl\<lparr>concentrator := ac'\<rparr>)"
proof -
  let ?ac = "concentrator cl"
  from assms(2) obtain q d where q: "entered ?ac k r" "request_objects ?ac r = Some q"
    "slot_of d = slot_of (request_data q)" "request_path d = request_path (request_data q)"
    "ac' = (drop_entry k r ?ac)\<lparr>request_objects := (request_objects ?ac)(r \<mapsto> answer code (q\<lparr>request_data := d\<rparr>))\<rparr>"
    unfolding answers_def by blast
  obtain q' where q': "request_objects ?ac r = Some q'" "slot_of (request_data q') = k"
    "threads cl r = Some Sends \<or> threads cl r = Some Waits" using client_invD[OF assms(1) q(1)] .
  have dist: "distinct (register_process_requests ?ac)" "distinct (unregister_process_requests ?ac)"
    using assms(1) by (simp_all add: client_inv_def)
  have e: "entered ac' k' r' = entered (drop_entry k r ?ac) k' r'" for k' r'
    unfolding q(5) by (rule entered_frame) simp_all
  have ok: "threads_ok cl" "thread_ok (Some q) (threads cl r)"
    using assms(1) q(2) unfolding client_inv_def threads_ok_def by metis+
  have objs: "request_objects ac' = (request_objects ?ac)(r \<mapsto> answer code (q\<lparr>request_data := d\<rparr>))"
    unfolding q(5) by simp
  have "thread_ok (Some (answer code (q\<lparr>request_data := d\<rparr>))) (threads cl r)"
    using ok(2) q(3,4) q'(3) by (auto simp: answer_def)
  then have "threads_ok (cl\<lparr>concentrator := ac'\<rparr>)"
    by (intro threads_ok_frame[OF ok(1), where r = r]) (simp_all add: objs)
  then show ?thesis
  proof (rule client_inv_frame[OF assms(1), where r = r])
    fix k' r' assume "entered (concentrator (cl\<lparr>concentrator := ac'\<rparr>)) k' r'"
    then have en: "entered ?ac k' r'" "\<not> (k' = k \<and> r' = r)" using e entered_drop[OF dist] by auto
    moreover have "k' = k" if "r' = r" using client_invD[OF assms(1) en(1)] q' that by auto
    ultimately show "r' \<noteq> r \<and> entered ?ac k' r'" by auto
  qed (use dist in \<open>cases k; simp add: q(5)\<close>)+
qed

subsection \<open>All steps\<close>

text \<open>
  The effect of a step, case by case: a thread works on its own request outside the tables, enters
  it, sends it, or the manager's thread hands in a message or closes the connection.
\<close>

lemma act_elim:
  assumes "client_inv cl" "act h a cl = Some (Ok cl')"
  obtains
    (own) r ac' pc where "cl' = cl\<lparr>concentrator := ac', threads := (threads cl)(r := pc)\<rparr>"
      "same_tables (concentrator cl) ac'"
      "\<And>r'. r' \<noteq> r \<Longrightarrow> request_objects ac' r' = request_objects (concentrator cl) r'"
      "thread_ok (request_objects ac' r) pc" "\<And>k. \<not> waiting_at cl k r"
  | (enter) r ac' q where "cl' = cl\<lparr>concentrator := ac', threads := (threads cl)(r := Some Sends)\<rparr>"
      "threads cl r = Some Enters" "request_objects (concentrator cl) r = Some q" "\<not> answered q"
      "request_objects ac' = request_objects (concentrator cl)"
      "\<And>k r'. entered ac' k r' \<Longrightarrow> entered (concentrator cl) k r' \<or> r' = r \<and> k = slot_of (request_data q)"
      "register_process_requests ac' = register_process_requests (concentrator cl) @ [r] \<or>
        register_process_requests ac' = register_process_requests (concentrator cl)"
      "unregister_process_requests ac' = unregister_process_requests (concentrator cl) @ [r] \<or>
        unregister_process_requests ac' = unregister_process_requests (concentrator cl)"
  | (send) r ac' where "cl' = cl\<lparr>concentrator := ac', threads := (threads cl)(r := Some Waits)\<rparr>"
      "threads cl r = Some Sends" "same_tables (concentrator cl) ac'"
      "request_objects ac' = request_objects (concentrator cl)"
  | (receive) ac' where "cl' = cl\<lparr>concentrator := ac'\<rparr>" "polled cl" "at_most_one_answer (concentrator cl) ac'"
  | (close) "cl' = cl\<lparr>polled := False\<rparr>"
proof (cases a)
  case (Construct r d code)
  then have "threads cl r = None" "length (request_path d) < 2 ^ 62"
    "cl' = cl\<lparr>concentrator := construct_request r d code (concentrator cl), threads := (threads cl)(r := Some (first_part d))\<rparr>"
    using assms(2) by (auto simp: advance_def split: if_splits)
  then show ?thesis
    by (intro own[where r = r and ac' = "construct_request r d code (concentrator cl)" and pc = "Some (first_part d)"])
      (auto simp: construct_request_def same_tables_def first_part_def waiting_at_def split: request_data.splits)
next
  case (Take_Nonce r)
  then have t: "threads cl r = Some Takes_Nonce" using assms(2) by (auto split: if_splits)
  obtain q where q: "request_objects (concentrator cl) r = Some q" "thread_ok (Some q) (Some Takes_Nonce)"
    using thread_request[OF assms(1) t] .
  from take_nonce_spec[OF q(1)] obtain ac' where ac': "take_nonce r (concentrator cl) = Ok ac'"
    "same_tables (concentrator cl) ac'" "request_objects ac' = (request_objects (concentrator cl))(r \<mapsto>
       request_data_update (set_nonce (register_process_next_nonce (concentrator cl))) q)" by blast
  with q t assms(2) Take_Nonce show ?thesis
    by (intro own[where r = r and ac' = ac' and pc = "Some Enters"]) (auto simp: advance_def waiting_at_def)
next
  case (Enter r)
  then have t: "threads cl r = Some Enters" using assms(2) by (auto split: if_splits)
  obtain q where q: "request_objects (concentrator cl) r = Some q" "thread_ok (Some q) (Some Enters)"
    using thread_request[OF assms(1) t] .
  show ?thesis
    by (rule enter_request_spec[OF q(1)], rule enter[where r = r and q = q])
      (use q t assms(2) Enter in \<open>auto simp: advance_def\<close>)
next
  case (Send mem r)
  with assms(2) obtain ac' where ac': "send_request h mem r (concentrator cl) = Ok ac'" "threads cl r = Some Sends"
    "cl' = cl\<lparr>concentrator := ac', threads := (threads cl)(r := Some Waits)\<rparr>"
    by (auto simp: advance_def andthen_Ok_iff split: if_splits)
  from send[OF ac'(3,2) send_request_frame[OF ac'(1)]] show ?thesis .
next
  case (Return r)
  then have t: "threads cl r = Some Waits" using assms(2) by (auto split: if_splits)
  obtain q where q: "request_objects (concentrator cl) r = Some q" using thread_request[OF assms(1) t] .
  with Return t assms(2) have "answered q" and cl': "cl' = cl\<lparr>concentrator := (concentrator cl)\<lparr>request_objects :=
      (request_objects (concentrator cl))(r := None)\<rparr>, threads := (threads cl)(r := None)\<rparr>"
    by (auto simp: await_answer_def advance_def split: if_splits)
  with q show ?thesis by (intro own[OF cl']) (auto simp: same_tables_def waiting_at_def)
next
  case (Receive s)
  with assms(2) obtain ac' where ac': "receive_message_tcp h s (concentrator cl) = Ok ac'"
    "cl' = cl\<lparr>concentrator := ac'\<rparr>" "polled cl"
    by (auto simp: andthen_Ok_iff split: if_splits)
  from ac'(2,3) receive_answers[OF ac'(1)] show ?thesis by (rule receive)
next
  case Close
  with assms(2) close show ?thesis by simp
qed

lemma step_inv:
  assumes "client_inv cl" "act h a cl = Some (Ok cl')"
  shows "client_inv cl'"
  using assms
proof (cases rule: act_elim)
  case (own r ac' pc)
  have "\<not> entered (concentrator cl) k r" for k using own(5) assms(1) by (auto simp: client_inv_def)
  with own_step_inv[OF assms(1) own(2-4)] own(1) show ?thesis by simp
next
  case (enter r ac' q)
  with enter_step_inv[OF assms(1) enter(2-8)] show ?thesis by simp
next
  case (send r ac')
  with send_step_inv[OF assms(1) send(3,4,2) refl] show ?thesis by simp
next
  case (receive ac')
  with answers_inv[OF assms(1)] assms(1) show ?thesis by auto
next
  case close
  with assms(1) show ?thesis by (simp add: client_inv_def waiting_at_def threads_ok_def)
qed

lemma start_inv: "client_start cl \<Longrightarrow> client_inv cl"
proof -
  assume "client_start cl"
  then obtain lookup added servername port where
    "Access_Concentrator_create lookup added servername port = Inr (concentrator cl)"
    and t: "threads cl = (\<lambda>_. None)" by (auto simp: client_start_def)
  then have "concentrator cl = access_concentrator_new\<lparr>ac_connection := Some (set_receive_callback connection_new)\<rparr>"
    by (auto simp: Access_Concentrator_create_def create_tcp_connection_def access_concentrator_new_def
        Let_def split: prod.splits option.splits if_splits)
  then have o: "request_objects (concentrator cl) = (\<lambda>_. None)"
    "same_tables access_concentrator_new (concentrator cl)"
    by (simp_all add: same_tables_def access_concentrator_new_def)
  have "\<not> entered access_concentrator_new k r" for k r
    by (cases k) (simp_all add: access_concentrator_new_def)
  with o t show ?thesis
    unfolding client_inv_def threads_ok_def same_tables_entered[OF o(2)]
    by (simp add: same_tables_def access_concentrator_new_def)
qed

interpretation client: inductive_invariant client_start client_step client_inv
  by unfold_locales (auto simp: client_step_def intro: start_inv step_inv)

end
