(* ===== verification/Client_Safety.thy ===== *)
theory Client_Safety
  imports Client_Steps
begin

text \<open>
  Consequences of the invariant: no step of a client uses a request that was destroyed, and every
  step ends. Requests that can never be answered: those that were not entered because another
  request has their key, and all requests once the connection is closed.
\<close>

subsection \<open>Messages of the server\<close>

text \<open>
  A message as \<open>Connection\<close> hands it over: the stream is well-formed and its position is in its
  block. The integer readers check the length of the message; a path is taken from the block without
  a check.
\<close>

definition handed_over :: "stream \<Rightarrow> bool" where
  "handed_over s \<longleftrightarrow> stream_inv s \<and> s_pos s \<le> s_capacity s \<and> s_capacity s < 2 ^ 63"

text \<open>
  The message is one with a path, and the length it declares for the path, as the client reads it,
  reaches beyond the block that holds the message.
\<close>

definition overlong_path :: "byte_order \<Rightarrow> stream \<Rightarrow> bool" where
  "overlong_path h s \<longleftrightarrow>
     (\<exists>i s1 len s2 pid s3 n s4. stream_read_uint8_t s = Inr (i, s1) \<and> stream_read_uint32_t h s1 = Inr (len, s2) \<and>
        i \<in> {MSG_ID_CREATE_LOCK_UPDATE, MSG_ID_ACQUIRE_LOCK_UPDATE, MSG_ID_RELEASE_LOCK_RESPONSE} \<and>
        stream_read_uint32_t h s2 = Inr (pid, s3) \<and> stream_read_uint16_t h s3 = Inr (n, s4) \<and>
        s_capacity s < s_pos s4 + unat n)"

text \<open>What a reader leaves of the stream.\<close>

definition read_on :: "stream \<Rightarrow> stream \<Rightarrow> bool" where
  "read_on s s' \<longleftrightarrow> handed_over s' \<and> s_capacity s' = s_capacity s"

lemma handed_over_at:
  "handed_over s \<Longrightarrow> p \<le> s_capacity s \<Longrightarrow> read_on s (s\<lparr>s_pos := p\<rparr>)"
  by (auto simp: handed_over_def read_on_def stream_inv_def split: option.splits)

lemma handed_over_bytes:
  assumes "handed_over s" "s_pos s + n \<le> s_length s" "0 < n"
  shows "\<exists>ds. get_bytes n s = Inr (ds, s\<lparr>s_pos := s_pos s + n\<rparr>) \<and> read_on s (s\<lparr>s_pos := s_pos s + n\<rparr>)"
proof -
  have le: "s_pos s + n \<le> s_capacity s" "s_capacity s < 2 ^ 64"
    using assms(1,2) by (auto simp: handed_over_def stream_inv_def)
  then obtain b where "s_buffer s = Some b" "length b = s_capacity s"
    using assms(1,3) by (auto simp: handed_over_def stream_inv_def split: option.splits)
  with get_bytes_ok[of s b n] le handed_over_at[OF assms(1) le(1)] show ?thesis by auto
qed

lemma handed_over_word:
  assumes "handed_over s" "0 < n" "n \<le> 8"
  shows "\<exists>v s'. read_word n h s = Inr (v, s') \<and> read_on s s'"
proof -
  have "(s_pos s + n) mod 2 ^ 64 = s_pos s + n" using assms by (simp add: handed_over_def)
  with handed_over_bytes[OF assms(1) _ assms(2)] handed_over_at[OF assms(1), of "s_pos s"] assms(1) show ?thesis
    by (auto simp: read_word_def handed_over_def split: sum.split)
qed

lemma handed_over_reads:
  assumes "handed_over s"
  shows "\<exists>v s'. stream_read_uint32_t h s = Inr (v, s') \<and> read_on s s'"
    "\<exists>v s'. stream_read_uint16_t h s = Inr (v, s') \<and> read_on s s'"
    "\<exists>v s'. stream_read_uint8_t s = Inr (v, s') \<and> read_on s s'"
proof -
  show "\<exists>v s'. stream_read_uint32_t h s = Inr (v, s') \<and> read_on s s'"
    using handed_over_word[OF assms, of 4 h, where ?'a = 32] by (simp add: stream_read_uint32_t_def)
  show "\<exists>v s'. stream_read_uint16_t h s = Inr (v, s') \<and> read_on s s'"
    using handed_over_word[OF assms, of 2 h, where ?'a = 16] by (simp add: stream_read_uint16_t_def)
  show "\<exists>v s'. stream_read_uint8_t s = Inr (v, s') \<and> read_on s s'"
    using handed_over_bytes[OF assms, of 1] handed_over_at[OF assms, of "s_pos s"] assms
    by (auto simp: stream_read_uint8_t_def handed_over_def split: sum.split)
qed

lemma read_word_returns:
  assumes "handed_over s" "\<And>v s'. stream_read_uint32_t h s = Inr (v, s') \<Longrightarrow> read_on s s' \<Longrightarrow> \<exists>x. f (v, s') = Ok x"
  shows "\<exists>x. andthen (checked (stream_read_uint32_t h s)) f = Ok x"
  using handed_over_reads(1)[OF assms(1), of h] assms(2) by auto

lemma read_short_returns:
  assumes "handed_over s" "\<And>v s'. stream_read_uint16_t h s = Inr (v, s') \<Longrightarrow> read_on s s' \<Longrightarrow> \<exists>x. f (v, s') = Ok x"
  shows "\<exists>x. andthen (checked (stream_read_uint16_t h s)) f = Ok x"
  using handed_over_reads(2)[OF assms(1), of h] assms(2) by auto

lemma read_byte_returns:
  assumes "handed_over s" "\<And>v s'. stream_read_uint8_t s = Inr (v, s') \<Longrightarrow> read_on s s' \<Longrightarrow> \<exists>x. f (v, s') = Ok x"
  shows "\<exists>x. andthen (checked (stream_read_uint8_t s)) f = Ok x"
  using handed_over_reads(3)[OF assms(1)] assms(2) by auto

lemma read_path_returns:
  assumes "handed_over s" "s_pos s + n \<le> s_capacity s"
    and "\<And>v s'. read_path n s = Inr (v, s') \<Longrightarrow> read_on s s' \<Longrightarrow> \<exists>x. f (v, s') = Ok x"
  shows "\<exists>x. andthen (checked (read_path n s)) f = Ok x"
proof -
  have "\<exists>v s'. read_path n s = Inr (v, s') \<and> read_on s s'"
    using assms(1,2) handed_over_at[OF assms(1,2)] handed_over_at[OF assms(1), of "s_pos s"]
    by (auto simp: read_path_def handed_over_def stream_inv_def stream_seek_def split: option.splits)
  with assms(3) show ?thesis by auto
qed

text \<open>The reads of a handler together: id and path, then what is left.\<close>

lemma path_message_returns:
  assumes "handed_over s"
    and "\<And>pid s1 n s2. stream_read_uint32_t h s = Inr (pid, s1) \<Longrightarrow> stream_read_uint16_t h s1 = Inr (n, s2) \<Longrightarrow>
      s_pos s2 + unat n \<le> s_capacity s"
    and "\<And>pid path s'. handed_over s' \<Longrightarrow> \<exists>x. f pid path s' = Ok x"
  shows "\<exists>x. andthen (checked (stream_read_uint32_t h s)) (\<lambda>(pid, s).
     andthen (checked (stream_read_uint16_t h s)) (\<lambda>(n, s).
     andthen (checked (read_path (unat n) s)) (\<lambda>(path, s). f pid path s))) = Ok x"
proof (rule read_word_returns[OF assms(1)], simp only: prod.case, rule read_short_returns, goal_cases)
  case (2 pid s1 n s2)
  have "handed_over s2" "s_capacity s2 = s_capacity s" using 2 by (simp_all add: read_on_def)
  with assms(2)[OF 2(1,3)] assms(3) show ?case
    unfolding prod.case by (intro read_path_returns) (auto simp: read_on_def)
qed (simp add: read_on_def)

subsection \<open>Steps end normally\<close>

lemma answer_returns: "request_objects ac r \<noteq> None \<Longrightarrow> \<exists>ac'. answer_request r code ac = Ok ac'"
  by (auto simp: answer_request_def modify_request_def)

lemma find_returns:
  assumes "\<forall>r \<in> set rs. request_objects ac r \<noteq> None"
    and "\<And>found. (\<And>r. found = Some r \<Longrightarrow> request_objects ac r \<noteq> None) \<Longrightarrow> \<exists>x. f found = Ok x"
  shows "\<exists>x. andthen (find_request P ac rs) f = Ok x"
proof -
  have "\<exists>found. find_request P ac rs = Ok found" using assms(1) by (induction rs) auto
  then obtain found where found: "find_request P ac rs = Ok found" ..
  then have "request_objects ac r \<noteq> None" if "found = Some r" for r using that find_request_Some by fastforce
  with assms(2) found show ?thesis by simp
qed

lemma entered_exists: "client_inv cl \<Longrightarrow> entered (concentrator cl) k r \<Longrightarrow> request_objects (concentrator cl) r \<noteq> None"
  by (auto elim: client_invD)

lemma receive_create_returns:
  assumes "client_inv cl" "handed_over s"
    and "\<And>pid s1 n s2. stream_read_uint32_t h s = Inr (pid, s1) \<Longrightarrow> stream_read_uint16_t h s1 = Inr (n, s2) \<Longrightarrow>
      s_pos s2 + unat n \<le> s_capacity s"
  shows "\<exists>x. receive_create_lock_update h s (concentrator cl) = Ok x"
  unfolding receive_create_lock_update_def
  using entered_exists[OF assms(1), of "Creation _"]
  by (intro path_message_returns[OF assms(2,3)] read_short_returns) (auto split: option.split intro: answer_returns)

lemma receive_acquire_returns:
  assumes "client_inv cl" "handed_over s"
    and "\<And>pid s1 n s2. stream_read_uint32_t h s = Inr (pid, s1) \<Longrightarrow> stream_read_uint16_t h s1 = Inr (n, s2) \<Longrightarrow>
      s_pos s2 + unat n \<le> s_capacity s"
  shows "\<exists>x. receive_acquire_lock_update h s (concentrator cl) = Ok x"
  unfolding receive_acquire_lock_update_def
  using entered_exists[OF assms(1), of "Acquisition _"]
  by (intro path_message_returns[OF assms(2,3)] read_byte_returns)
    (auto simp: read_on_def split: option.split intro!: read_short_returns answer_returns)

lemma receive_release_returns:
  assumes "client_inv cl" "handed_over s"
    and "\<And>pid s1 n s2. stream_read_uint32_t h s = Inr (pid, s1) \<Longrightarrow> stream_read_uint16_t h s1 = Inr (n, s2) \<Longrightarrow>
      s_pos s2 + unat n \<le> s_capacity s"
  shows "\<exists>x. receive_release_lock_response h s (concentrator cl) = Ok x"
  unfolding receive_release_lock_response_def
  using entered_exists[OF assms(1), of "Release _"]
  by (intro path_message_returns[OF assms(2,3)] read_byte_returns)
    (auto simp: read_on_def split: option.split intro!: read_short_returns answer_returns)

lemma receive_unregister_returns:
  assumes "client_inv cl" "handed_over s"
  shows "\<exists>x. receive_unregister_process_response h s (concentrator cl) = Ok x"
  unfolding receive_unregister_process_response_def
proof (intro read_word_returns[OF assms(2)], simp only: prod.case, intro read_short_returns, goal_cases)
  case (2 i s1 code s2)
  have "\<forall>r \<in> set (unregister_process_requests (concentrator cl)). request_objects (concentrator cl) r \<noteq> None"
    using entered_exists[OF assms(1), of Unregistrations] by simp
  then show ?case unfolding prod.case by (intro find_returns) (auto split: option.split intro: answer_returns)
qed (simp add: read_on_def)

lemma receive_register_returns:
  assumes "client_inv cl" "handed_over s"
  shows "\<exists>x. receive_register_process_response h s (concentrator cl) = Ok x"
  unfolding receive_register_process_response_def
proof (intro read_word_returns[OF assms(2)], simp only: prod.case, intro read_short_returns, goal_cases)
  case (2 nonce s1 code s2)
  have "\<forall>r \<in> set (register_process_requests (concentrator cl)). request_objects (concentrator cl) r \<noteq> None"
    using entered_exists[OF assms(1), of Registrations] by simp
  then show ?case unfolding prod.case
  proof (rule find_returns)
    fix found assume ex: "\<And>r. found = Some r \<Longrightarrow> request_objects (concentrator cl) r \<noteq> None"
    let ?ac = "\<lambda>r. (concentrator cl)\<lparr>register_process_requests := remove1 r (register_process_requests (concentrator cl))\<rparr>"
    have "\<exists>x. andthen (andthen (checked (stream_read_uint32_t h s2)) (\<lambda>(i, s).
        modify_request r (request_data_update (set_id i)) (?ac r))) (answer_request r code) = Ok x" if "found = Some r" for r
      unfolding andthen_assoc
      by (rule read_word_returns) (use 2 ex[OF that] in \<open>auto simp: read_on_def modify_request_def intro!: answer_returns\<close>)
    with ex show "\<exists>x. (case found of None \<Rightarrow> Ok (concentrator cl) | Some r \<Rightarrow>
        let ac = ?ac r in andthen (if code = RESPONSE_STATUS_SUCCESS \<and> 4 \<le> stream_remaining_length s2
          then andthen (checked (stream_read_uint32_t h s2)) (\<lambda>(i, s). modify_request r (request_data_update (set_id i)) ac)
          else Ok ac) (answer_request r code)) = Ok x"
      by (auto simp: Let_def split: option.split intro: answer_returns)
  qed
qed (simp add: read_on_def)

lemma receive_returns:
  assumes "client_inv cl" "handed_over s" "\<not> overlong_path h s"
  shows "\<exists>x. receive_message_tcp h s (concentrator cl) = Ok x"
  unfolding receive_message_tcp_def
proof (intro read_byte_returns[OF assms(2)], simp only: prod.case, intro read_word_returns, goal_cases)
  case (2 i s1 len s2)
  then have s2: "handed_over s2" "s_capacity s2 = s_capacity s" by (simp_all add: read_on_def)
  have "s_pos s4 + unat n \<le> s_capacity s2"
    if "i \<in> {MSG_ID_CREATE_LOCK_UPDATE, MSG_ID_ACQUIRE_LOCK_UPDATE, MSG_ID_RELEASE_LOCK_RESPONSE}"
      "stream_read_uint32_t h s2 = Inr (pid, s3)" "stream_read_uint16_t h s3 = Inr (n, s4)" for pid s3 n s4
  proof -
    have "\<not> s_capacity s < s_pos s4 + unat n" using assms(3) that 2(1,3) unfolding overlong_path_def by blast
    with s2(2) show ?thesis by simp
  qed
  then show ?case unfolding prod.case
    using receive_register_returns[OF assms(1) s2(1)] receive_unregister_returns[OF assms(1) s2(1)]
      receive_create_returns[OF assms(1) s2(1)] receive_acquire_returns[OF assms(1) s2(1)]
      receive_release_returns[OF assms(1) s2(1)]
    by (simp only: insert_iff split: if_split) blast
qed (simp add: read_on_def)

text \<open>With an overlong path the client reads outside the block.\<close>

lemma read_path_overlong:
  assumes "handed_over s" "s_capacity s < s_pos s + n"
  shows "read_path n s = Inl Out_Of_Bounds"
  using assms by (auto simp: read_path_def handed_over_def stream_inv_def split: option.split)

lemma receive_overlong:
  assumes "handed_over s" "overlong_path h s"
  shows "receive_message_tcp h s ac = Undefined Out_Of_Bounds"
proof -
  obtain i s1 len s2 pid s3 n s4 where reads: "stream_read_uint8_t s = Inr (i, s1)" "stream_read_uint32_t h s1 = Inr (len, s2)"
    "stream_read_uint32_t h s2 = Inr (pid, s3)" "stream_read_uint16_t h s3 = Inr (n, s4)"
    and i: "i \<in> {MSG_ID_CREATE_LOCK_UPDATE, MSG_ID_ACQUIRE_LOCK_UPDATE, MSG_ID_RELEASE_LOCK_RESPONSE}"
    and long: "s_capacity s < s_pos s4 + unat n"
    using assms(2) unfolding overlong_path_def by blast
  have s1: "read_on s s1" using handed_over_reads(3)[OF assms(1)] reads(1) by auto
  then have s2: "read_on s1 s2" using handed_over_reads(1)[of s1 h] reads(2) by (auto simp: read_on_def)
  then have s3: "read_on s2 s3" using handed_over_reads(1)[of s2 h] reads(3) by (auto simp: read_on_def)
  then have s4: "read_on s3 s4" using handed_over_reads(2)[of s3 h] reads(4) by (auto simp: read_on_def)
  have "read_path (unat n) s4 = Inl Out_Of_Bounds"
    using s1 s2 s3 s4 long by (intro read_path_overlong) (simp_all add: read_on_def)
  with reads i show ?thesis
    by (auto simp: receive_message_tcp_def receive_create_lock_update_def receive_acquire_lock_update_def
        receive_release_lock_response_def)
qed

lemma send_request_rule:
  assumes "mem_good oom mem" "request_objects ac r = Some q" "length (request_path (request_data q)) < 2 ^ 62"
  shows "ensures False False (sends oom (request_message (request_data q)) ac) (send_request Little_Endian mem r ac)"
proof -
  have less: "n + 12 < 2 ^ 63" if "n < 2 ^ 62" for n :: nat using that by simp
  note eq = send_request_def with_request_Some[OF assms(2) refl]
  show ?thesis
  proof (cases "request_data q")
    case (register_process_request n i)
    with send_register_rule[OF assms(1,2) this] show ?thesis by (simp add: eq del: request_message.simps)
  next
    case (unregister_process_request i)
    with send_unregister_rule[OF assms(1,2) this] show ?thesis by (simp add: eq del: request_message.simps)
  next
    case (create_lock_request pid path x)
    then have "length path + 12 < 2 ^ 63" using assms(3) by (intro less) (simp add: request_path_def)
    from send_create_rule[OF assms(1,2) create_lock_request this] create_lock_request
    show ?thesis by (simp add: eq del: request_message.simps)
  next
    case (acquire_lock_request pid path m)
    then have "length path + 12 < 2 ^ 63" using assms(3) by (intro less) (simp add: request_path_def)
    from send_acquire_rule[OF assms(1,2) acquire_lock_request this] acquire_lock_request
    show ?thesis by (simp add: eq del: request_message.simps)
  next
    case (release_lock_request pid path m)
    then have "length path + 12 < 2 ^ 63" using assms(3) by (intro less) (simp add: request_path_def)
    from send_release_rule[OF assms(1,2) release_lock_request this] release_lock_request
    show ?thesis by (simp add: eq del: request_message.simps)
  qed
qed

lemma step_ends:
  assumes "client_inv cl" "act Little_Endian a cl = Some res" "\<And>mem r. a = Send mem r \<Longrightarrow> mem_good True mem"
    and "\<And>s. a = Receive s \<Longrightarrow> handed_over s"
  shows "(\<exists>cl'. res = Ok cl') \<or> (\<exists>s. a = Receive s \<and> overlong_path Little_Endian s \<and> res = Undefined Out_Of_Bounds)"
proof (cases a)
  case (Take_Nonce r)
  then have t: "threads cl r = Some Takes_Nonce" using assms(2) by (auto split: if_splits)
  obtain q where "request_objects (concentrator cl) r = Some q" using thread_request[OF assms(1) t] .
  from take_nonce_spec[OF this] obtain ac' where "take_nonce r (concentrator cl) = Ok ac'" by blast
  then show ?thesis using Take_Nonce assms(2) t by (auto simp: advance_def)
next
  case (Enter r)
  then have t: "threads cl r = Some Enters" using assms(2) by (auto split: if_splits)
  obtain q where "request_objects (concentrator cl) r = Some q" using thread_request[OF assms(1) t] .
  from enter_request_spec[OF this] obtain ac' where "enter_request r (concentrator cl) = Ok ac'" by blast
  then show ?thesis using Enter assms(2) t by (auto simp: advance_def)
next
  case (Send mem r)
  then have t: "threads cl r = Some Sends" using assms(2) by (auto split: if_splits)
  obtain q where q: "request_objects (concentrator cl) r = Some q" "thread_ok (Some q) (Some Sends)"
    using thread_request[OF assms(1) t] .
  from send_request_rule[OF assms(3)[OF Send] q(1)] q(2) have
    "ensures False False (\<lambda>_. True) (send_request Little_Endian mem r (concentrator cl))"
    by (auto elim: ensures_mono)
  then show ?thesis using Send assms(2) t
    by (cases "send_request Little_Endian mem r (concentrator cl)") (auto simp: advance_def)
next
  case (Return r)
  then have t: "threads cl r = Some Waits" using assms(2) by (auto split: if_splits)
  obtain q where "request_objects (concentrator cl) r = Some q" using thread_request[OF assms(1) t] .
  then show ?thesis using Return assms(2) t by (auto simp: await_answer_def advance_def split: if_splits)
next
  case (Receive s)
  with receive_returns[OF assms(1) assms(4)[OF Receive], of Little_Endian]
    receive_overlong[OF assms(4)[OF Receive], of Little_Endian] assms(2) show ?thesis
    by (cases "overlong_path Little_Endian s") (auto split: if_splits)
qed (use assms(2) in \<open>auto simp: advance_def split: if_splits\<close>)

subsection \<open>Requests without an answer\<close>

definition unanswered :: "client \<Rightarrow> rid \<Rightarrow> bool" where
  "unanswered cl r \<longleftrightarrow>
     (\<exists>q. request_objects (concentrator cl) r = Some q \<and> \<not> answered q) \<and>
     (threads cl r = Some Sends \<or> threads cl r = Some Waits)"

lemma unanswered_frame:
  assumes "unanswered cl r" "request_objects (concentrator cl') r = request_objects (concentrator cl) r"
    and "threads cl' r = threads cl r \<or> threads cl' r = Some Waits"
  shows "unanswered cl' r"
  using assms by (auto simp: unanswered_def)

lemma unanswered_waiting: "unanswered cl r \<longleftrightarrow> (\<exists>k. waiting_at cl k r)"
  by (auto simp: unanswered_def waiting_at_def)

text \<open>Only a message of the server ends the wait, and only for a request in a table.\<close>

lemma step_unanswered:
  assumes "client_inv cl" "act h a cl = Some (Ok cl')" "unanswered cl r"
  shows "(unanswered cl' r \<and> (\<forall>k. entered (concentrator cl') k r \<longrightarrow> entered (concentrator cl) k r)) \<or>
    polled cl \<and> (\<exists>k code. answers k r code (concentrator cl) (concentrator cl'))"
  using assms(1,2)
proof (cases rule: act_elim)
  case (own r' ac' pc)
  then have "r' \<noteq> r" using assms(3) unanswered_waiting by blast
  with own(1-3) show ?thesis
    by (auto simp: same_tables_entered intro!: unanswered_frame[OF assms(3)])
next
  case (enter r' ac' q)
  then have "r' \<noteq> r" using assms(3) by (auto simp: unanswered_def)
  with enter(1,5,6) show ?thesis by (auto intro!: unanswered_frame[OF assms(3)])
next
  case (send r' ac')
  then show ?thesis
    by (auto simp: same_tables_entered intro!: unanswered_frame[OF assms(3)] split: if_splits)
next
  case (receive ac')
  show ?thesis
  proof (cases "\<exists>k r' code. answers k r' code (concentrator cl) ac' \<and> r' \<noteq> r")
    case True
    then obtain k r' code where an: "answers k r' code (concentrator cl) ac'" "r' \<noteq> r" by blast
    have "entered (concentrator cl) k2 r" if "entered ac' k2 r" for k2
    proof -
      have "entered ac' k2 r = entered (drop_entry k r' (concentrator cl)) k2 r"
        using an by (auto simp: answers_def)
      with that assms(1) show ?thesis by (simp add: entered_drop client_inv_def)
    qed
    moreover have "request_objects ac' r = request_objects (concentrator cl) r"
      using an by (auto simp: answers_def)
    ultimately show ?thesis using receive(1) by (auto intro!: unanswered_frame[OF assms(3)])
  next
    case False
    with receive assms(3) show ?thesis by (auto intro!: unanswered_frame[OF assms(3)])
  qed
next
  case close
  then show ?thesis by (auto intro!: unanswered_frame[OF assms(3)])
qed

text \<open>A request that is in no table, and every request once the connection is closed.\<close>

definition lost :: "rid \<Rightarrow> client \<Rightarrow> bool" where
  "lost r cl \<longleftrightarrow> client_inv cl \<and> unanswered cl r \<and> (\<forall>k. \<not> entered (concentrator cl) k r)"

definition cut_off :: "rid \<Rightarrow> client \<Rightarrow> bool" where
  "cut_off r cl \<longleftrightarrow> client_inv cl \<and> unanswered cl r \<and> \<not> polled cl"

lemma polled_step: "act h a cl = Some (Ok cl') \<Longrightarrow> polled cl' \<Longrightarrow> polled cl"
  by (cases a) (auto simp: advance_def andthen_Ok_iff split: if_splits outcome.splits option.splits)

interpretation lost: inductive_invariant "lost r" client_step "lost r" for r
proof unfold_locales
  fix cl cl' assume l: "lost r cl" and "client_step cl cl'"
  then obtain h a where a: "act h a cl = Some (Ok cl')" by (auto simp: client_step_def)
  have "\<not> answers k r code (concentrator cl) (concentrator cl')" for k code
    using l by (auto simp: lost_def answers_def)
  with l step_unanswered[of cl h a cl' r] a step_inv[of cl h a cl'] show "lost r cl'"
    by (auto simp: lost_def)
qed

interpretation cut_off: inductive_invariant "cut_off r" client_step "cut_off r" for r
proof unfold_locales
  fix cl cl' assume l: "cut_off r cl" and "client_step cl cl'"
  then obtain h a where a: "act h a cl = Some (Ok cl')" by (auto simp: client_step_def)
  with l step_unanswered[of cl h a cl' r] step_inv[of cl h a cl'] polled_step[of h a cl cl'] show "cut_off r cl'"
    by (auto simp: cut_off_def)
qed

end
