(* ===== verification/Client_Server.thy ===== *)
theory Client_Server
  imports Client_Safety
begin

text \<open>
  Client and server together. \<open>respond\<close> is the abstract daemon, which the handlers of the server
  implement; here its answers to the messages of a client are handed to that client.
\<close>

declare message_10 [simp del] message_6 [simp del]

subsection \<open>What the server makes of the client's messages\<close>

lemma request_message_well_formed: "length (request_path d) < 2 ^ 16 \<Longrightarrow> well_formed (request_message d)"
  by (cases d) (simp_all add: well_formed_def request_path_def lock_message_fields, simp_all add: lock_fields_def)

lemma request_message_framed:
  assumes "length (request_path d) < 2 ^ 16"
  shows "framed (request_message d)"
proof -
  have "framed (message i (lock_fields pid path [x]))" if "length path < 2 ^ 16" for i pid path x
    using that by (intro framed_message) (simp add: lock_fields_def)
  moreover have "framed (message i (big_endian 4 x))" for i x by (rule framed_message) simp
  ultimately show ?thesis using assms by (cases d) (simp_all add: request_path_def)
qed

lemma drop_message [simp]: "drop 5 (message i body) = body"
  by (simp add: message_def)

lemma lock_fields_append: "lock_fields pid path rest @ x = lock_fields pid path (rest @ x)"
  by (simp add: lock_fields_def)

lemma respond_acquire:
  assumes "length path < 2 ^ 16"
  shows "respond arrange c (request_message (acquire_lock_request pid path m)) d =
    andthen (checked (acquire_lock (update_pid_connection (daemon_backend d) pid c) pid path m)) (\<lambda>(b', code).
      Ok (b', [(c, message MSG_ID_ACQUIRE_LOCK_UPDATE (lock_fields pid path (m # big_endian 2 code)))]))"
  by (simp add: respond_def Let_def lock_message_fields[OF assms] lock_message_byte[OF assms] lock_fields_append)

lemma respond_release:
  assumes "length path < 2 ^ 16"
  shows "respond arrange c (request_message (release_lock_request pid path m)) d =
    andthen (checked (release_lock (update_pid_connection (daemon_backend d) pid c) pid path m)) (\<lambda>(b', code, ans).
      Ok (b', (c, message MSG_ID_RELEASE_LOCK_RESPONSE (lock_fields pid path (m # big_endian 2 code))) #
        updates (d\<lparr>daemon_backend := b'\<rparr>) (arrange ans)))"
  by (simp add: respond_def Let_def lock_message_fields[OF assms] lock_message_byte[OF assms] lock_fields_append)

lemma respond_create:
  assumes "length path < 2 ^ 16"
  shows "respond arrange c (request_message (create_lock_request pid path x)) d =
    andthen (checked (create_lock (update_pid_connection (daemon_backend d) pid c) pid path x)) (\<lambda>(b', res).
      Ok (b', [(c, message MSG_ID_CREATE_LOCK_UPDATE (lock_fields pid path (big_endian 2 (create_status res))))]))"
  using lock_message_byte[OF assms, of MSG_ID_CREATE_LOCK pid "if x then 1 else 0" "[]"]
  by (cases x) (simp_all add: respond_def Let_def lock_message_fields[OF assms], simp_all add: lock_fields_def)

lemma msg_pid_id: "msg_pid (message i (big_endian 4 (x :: u32) @ rest)) = x"
  using from_big_endian[of 4 x] by (simp add: msg_pid_def)

lemma respond_unregister:
  "respond arrange c (request_message (unregister_process_request i)) d =
    andthen (andthen (ended (unregister_process (update_pid_connection (daemon_backend d) i c) i)) checked)
      (\<lambda>(b', code, ans).
        Ok (b', (c, message MSG_ID_UNREG_PROC_RESPONSE (big_endian 4 i @ big_endian 2 (unregister_status code))) #
          updates (d\<lparr>daemon_backend := b'\<rparr>) (arrange ans)))"
  using msg_pid_id[of MSG_ID_UNREG_PROC i "[]"] by (simp add: respond_def Let_def)

lemma respond_register:
  "respond arrange c (request_message (register_process_request nonce i)) d =
    Ok (case register_process (daemon_backend d) of
       Inl e \<Rightarrow> (daemon_backend d, [(c, message MSG_ID_REG_PROC_RESPONSE
         (big_endian 4 nonce @ big_endian 2 RESPONSE_STATUS_TOO_MANY_PROCESSES))])
     | Inr (b', i) \<Rightarrow> (update_pid_connection b' i c, [(c, message MSG_ID_REG_PROC_RESPONSE
         (big_endian 4 nonce @ big_endian 2 RESPONSE_STATUS_SUCCESS @ big_endian 4 i))]))"
  using msg_pid_id[of MSG_ID_REG_PROC nonce "[]"] by (simp add: respond_def Let_def)

subsection \<open>What the client makes of the server's answers\<close>

lemma remaining_reading:
  assumes "reading s m p" "p \<le> length m"
  shows "stream_remaining_length s = length m - p"
proof -
  have "s_length s = length m" "s_pos s = p" "s_length s < 2 ^ 64"
    using assms(1) by (auto simp: reading_def stream_inv_def)
  moreover have "length m + 2 ^ 64 - p = (length m - p) + 2 ^ 64" using assms(2) by simp
  moreover have "length m - p < 2 ^ 64" using calculation by simp
  ultimately show ?thesis unfolding stream_remaining_length_def by (simp only: mod_add_self2 mod_less)
qed

lemma id_status_read:
  assumes "reading s m 0" "m = message i (big_endian 4 (x :: u32) @ big_endian 2 (code :: u16) @ rest)"
    and "length rest < 2 ^ 32"
  shows "stream_read_uint32_t Little_Endian (s\<lparr>s_pos := 5\<rparr>) = Inr (x, s\<lparr>s_pos := 9\<rparr>)"
    and "stream_read_uint16_t Little_Endian (s\<lparr>s_pos := 9\<rparr>) = Inr (code, s\<lparr>s_pos := 11\<rparr>)"
    and "reading (s\<lparr>s_pos := 11\<rparr>) m 11" "drop 11 m = rest"
proof -
  have len: "length m = 11 + length rest" by (simp add: assms(2))
  then have ne: "m \<noteq> []" and lt: "length m < 2 ^ 63" using assms(3) by auto
  have "drop 9 m = drop 4 (drop 5 m)" by (simp add: drop_drop)
  then have 9: "drop 9 m = big_endian 2 code @ rest" by (simp add: assms(2))
  have "drop 11 m = drop 2 (drop 9 m)" by (simp add: drop_drop)
  then show "drop 11 m = rest" by (simp add: 9)
  show "reading (s\<lparr>s_pos := 11\<rparr>) m 11" using reading_at[OF assms(1) lt _ ne] len by simp
  have "take 4 (drop 5 m) = big_endian 4 x" by (simp add: assms(2))
  moreover have "reading (s\<lparr>s_pos := 5\<rparr>) m 5" using reading_at[OF assms(1) lt _ ne] len by simp
  ultimately show "stream_read_uint32_t Little_Endian (s\<lparr>s_pos := 5\<rparr>) = Inr (x, s\<lparr>s_pos := 9\<rparr>)"
    using read32_eq[of "s\<lparr>s_pos := 5\<rparr>" m 5] from_big_endian[of 4 x] len by simp
  show "stream_read_uint16_t Little_Endian (s\<lparr>s_pos := 9\<rparr>) = Inr (code, s\<lparr>s_pos := 11\<rparr>)"
    using status_read[OF assms(1) _ lt, of 9 code] 9 len by simp
qed

lemma receive_unregister_response:
  assumes "reading s m 0" "m = message MSG_ID_UNREG_PROC_RESPONSE (big_endian 4 i @ big_endian 2 code)"
  shows "receive_message_tcp Little_Endian s ac =
    andthen (find_request (\<lambda>d. get_unregister_id d = Some i) ac (unregister_process_requests ac)) (\<lambda>found.
      (case found of
         None \<Rightarrow> Ok ac
       | Some r \<Rightarrow> answer_request r code
           (ac\<lparr>unregister_process_requests := remove1 r (unregister_process_requests ac)\<rparr>)))"
proof -
  have m: "m = message MSG_ID_UNREG_PROC_RESPONSE (big_endian 4 i @ big_endian 2 code @ [])" using assms(2) by simp
  have i0: "m ! 0 = MSG_ID_UNREG_PROC_RESPONSE" by (simp only: assms(2) message_nth_0)
  have len: "length m = 11" by (simp add: assms(2))
  from id_status_read[OF assms(1) m] len show ?thesis
    by (simp add: receive_message_tcp_eq[OF assms(1)] i0 receive_unregister_process_response_def)
qed

lemma receive_register_response:
  assumes "reading s m 0" "m = message MSG_ID_REG_PROC_RESPONSE (big_endian 4 nonce @ big_endian 2 code @ rest)"
    and "rest = [] \<or> rest = big_endian 4 i"
  shows "receive_message_tcp Little_Endian s ac =
    andthen (find_request (\<lambda>d. get_nonce d = Some nonce) ac (register_process_requests ac)) (\<lambda>found.
      (case found of
         None \<Rightarrow> Ok ac
       | Some r \<Rightarrow>
           let ac = ac\<lparr>register_process_requests := remove1 r (register_process_requests ac)\<rparr>
           in andthen
                (if code = RESPONSE_STATUS_SUCCESS \<and> rest \<noteq> []
                 then modify_request r (request_data_update (set_id i)) ac else Ok ac)
                (answer_request r code)))"
proof -
  have i0: "m ! 0 = MSG_ID_REG_PROC_RESPONSE" by (simp only: assms(2) message_nth_0)
  have len: "length m = 11 + length rest" "length rest \<le> 4" using assms(3) by (auto simp: assms(2))
  then have "length rest < 2 ^ 32" by simp
  note reads = id_status_read[OF assms(1,2) this]
  have "4 \<le> stream_remaining_length (s\<lparr>s_pos := 11\<rparr>) \<longleftrightarrow> rest \<noteq> []"
    using remaining_reading[OF reads(3)] len(1) assms(3) by auto
  moreover have "stream_read_uint32_t Little_Endian (s\<lparr>s_pos := 11\<rparr>) = Inr (i, s\<lparr>s_pos := 15\<rparr>)" if "rest \<noteq> []"
    using read32_eq[OF reads(3)] reads(4) that len(1) assms(3) from_big_endian[of 4 i] by auto
  ultimately show ?thesis using reads(1,2) len
    by (auto simp: receive_message_tcp_eq[OF assms(1)] i0 receive_register_process_response_def Let_def
        intro!: arg_cong2[where f = andthen] split: option.split)
qed

lemma find_request_first:
  assumes "\<forall>r' \<in> set rs. request_objects ac r' \<noteq> None" "r \<in> set rs" "request_objects ac r = Some q" "P (request_data q)"
  obtains r' q' where "find_request P ac rs = Ok (Some r')" "r' \<in> set rs" "request_objects ac r' = Some q'" "P (request_data q')"
proof -
  have "\<exists>r' q'. find_request P ac rs = Ok (Some r') \<and> r' \<in> set rs \<and> request_objects ac r' = Some q' \<and> P (request_data q')"
    using assms by (induction rs) (auto split: if_splits)
  with that show thesis by blast
qed

text \<open>The part of a request that its answer repeats.\<close>

fun same_key :: "request_data \<Rightarrow> request_data \<Rightarrow> bool" where
  "same_key (register_process_request n i) d = (get_nonce d = Some n)"
| "same_key (unregister_process_request i) d = (get_unregister_id d = Some i)"
| "same_key d d' = (slot_of d = slot_of d')"

lemma answer_requestI:
  assumes "entered ac k r" "request_objects ac r = Some q"
  shows "\<exists>ac'. answer_request r code (drop_entry k r ac) = Ok ac' \<and> answers k r code ac ac'"
proof -
  have "request_objects (drop_entry k r ac) r = Some q" using assms(2) by (cases k) simp_all
  then obtain ac' where "answer_request r code (drop_entry k r ac) = Ok ac'"
    by (auto simp: answer_request_def modify_request_def)
  with answersI[OF assms(1)] show ?thesis by blast
qed

text \<open>The answer of the server to a request, with the status it carries and what follows it.\<close>

fun reply_message :: "request_data \<Rightarrow> u16 \<Rightarrow> byte list \<Rightarrow> byte list" where
  "reply_message (register_process_request nonce i) code tail =
     message MSG_ID_REG_PROC_RESPONSE (big_endian 4 nonce @ big_endian 2 code @ tail)"
| "reply_message (unregister_process_request i) code tail =
     message MSG_ID_UNREG_PROC_RESPONSE (big_endian 4 i @ big_endian 2 code @ tail)"
| "reply_message (create_lock_request pid path x) code tail =
     message MSG_ID_CREATE_LOCK_UPDATE (lock_fields pid path (big_endian 2 code @ tail))"
| "reply_message (acquire_lock_request pid path m) code tail =
     message MSG_ID_ACQUIRE_LOCK_UPDATE (lock_fields pid path (m # big_endian 2 code @ tail))"
| "reply_message (release_lock_request pid path m) code tail =
     message MSG_ID_RELEASE_LOCK_RESPONSE (lock_fields pid path (m # big_endian 2 code @ tail))"

text \<open>The requests that the server may answer with \<open>QUEUED\<close>.\<close>

fun may_wait :: "request_data \<Rightarrow> bool" where
  "may_wait (create_lock_request pid path x) = True"
| "may_wait (acquire_lock_request pid path m) = True"
| "may_wait _ = False"

text \<open>
  No other call in the table has the nonce or the process id of this one; for the calls that have a
  key of their own in a map this is always so.
\<close>

definition alone_with_key :: "access_concentrator \<Rightarrow> request_data \<Rightarrow> rid \<Rightarrow> bool" where
  "alone_with_key ac d r \<longleftrightarrow>
     (\<forall>r' q'. entered ac (slot_of d) r' \<longrightarrow> request_objects ac r' = Some q' \<longrightarrow> same_key d (request_data q') \<longrightarrow> r' = r)"

lemma lock_request_alone:
  assumes "entered ac (slot_of d) r" "slot_of d \<noteq> Registrations" "slot_of d \<noteq> Unregistrations"
  shows "alone_with_key ac d r"
  using assms unfolding alone_with_key_def by (cases d) auto

lemma unregister_settles:
  assumes "client_inv cl" "entered (concentrator cl) Unregistrations r"
    and "request_objects (concentrator cl) r = Some q" "request_data q = unregister_process_request i"
    and "reading s (message MSG_ID_UNREG_PROC_RESPONSE (big_endian 4 i @ big_endian 2 code)) 0"
  shows "\<exists>ac'. receive_message_tcp Little_Endian s (concentrator cl) = Ok ac' \<and>
    (\<exists>r' q'. answers Unregistrations r' code (concentrator cl) ac' \<and> request_objects (concentrator cl) r' = Some q' \<and>
      get_unregister_id (request_data q') = Some i)"
proof -
  let ?ac = "concentrator cl"
  have "\<forall>r' \<in> set (unregister_process_requests ?ac). request_objects ?ac r' \<noteq> None"
    using entered_exists[OF assms(1), of Unregistrations] by simp
  then obtain r' q' where r': "find_request (\<lambda>d. get_unregister_id d = Some i) ?ac (unregister_process_requests ?ac) = Ok (Some r')"
    "entered ?ac Unregistrations r'" "request_objects ?ac r' = Some q'" "get_unregister_id (request_data q') = Some i"
    using find_request_first[of "unregister_process_requests ?ac" ?ac r q "\<lambda>d. get_unregister_id d = Some i"] assms(2-4)
    by auto
  from answer_requestI[OF r'(2,3), of code] obtain ac' where
    "answer_request r' code (drop_entry Unregistrations r' ?ac) = Ok ac'" "answers Unregistrations r' code ?ac ac'" by blast
  with r' show ?thesis by (auto simp: receive_unregister_response[OF assms(5) refl])
qed

lemma register_settles:
  assumes "client_inv cl" "entered (concentrator cl) Registrations r"
    and "request_objects (concentrator cl) r = Some q" "request_data q = register_process_request nonce j"
    and "reading s (message MSG_ID_REG_PROC_RESPONSE (big_endian 4 nonce @ big_endian 2 code @ rest)) 0"
    and "rest = [] \<or> rest = big_endian 4 i"
  shows "\<exists>ac' r' q' d'. receive_message_tcp Little_Endian s (concentrator cl) = Ok ac' \<and>
    answers Registrations r' code (concentrator cl) ac' \<and>
    request_objects (concentrator cl) r' = Some q' \<and> get_nonce (request_data q') = Some nonce \<and>
    request_objects ac' r' = Some d' \<and>
    (code = RESPONSE_STATUS_SUCCESS \<longrightarrow> rest \<noteq> [] \<longrightarrow> request_data d' = register_process_request nonce i)"
proof -
  let ?ac = "concentrator cl"
  have "\<forall>r' \<in> set (register_process_requests ?ac). request_objects ?ac r' \<noteq> None"
    using entered_exists[OF assms(1), of Registrations] by simp
  then obtain r' q' where r': "find_request (\<lambda>d. get_nonce d = Some nonce) ?ac (register_process_requests ?ac) = Ok (Some r')"
    "entered ?ac Registrations r'" "request_objects ?ac r' = Some q'" "get_nonce (request_data q') = Some nonce"
    using find_request_first[of "register_process_requests ?ac" ?ac r q "\<lambda>d. get_nonce d = Some nonce"] assms(2-4)
    by auto
  let ?d = "if code = RESPONSE_STATUS_SUCCESS \<and> rest \<noteq> [] then set_id i (request_data q') else request_data q'"
  let ?q = "answer code (q'\<lparr>request_data := ?d\<rparr>)"
  let ?ac' = "(drop_entry Registrations r' ?ac)\<lparr>request_objects := (request_objects ?ac)(r' \<mapsto> ?q)\<rparr>"
  have "request_data_update (set_id i) q' = q'\<lparr>request_data := set_id i (request_data q')\<rparr>" by (cases q') simp
  then have "receive_message_tcp Little_Endian s ?ac = Ok ?ac'"
    by (cases "code = RESPONSE_STATUS_SUCCESS \<and> rest \<noteq> []"; cases q')
      (auto simp: receive_register_response[OF assms(5) refl assms(6)] r'(1) answer_request_def modify_request_def r'(3) Let_def)
  moreover have "answers Registrations r' code ?ac ?ac'"
    unfolding answers_def using r'(2,3) by (intro conjI exI[of _ q'] exI[of _ ?d]) simp_all
  moreover have "request_data ?q = register_process_request nonce i" if "code = RESPONSE_STATUS_SUCCESS" "rest \<noteq> []"
    using that r'(4) by (cases "request_data q'") (simp_all add: answer_def)
  ultimately show ?thesis using r'(3,4)
    by (intro exI[of _ ?ac'] exI[of _ r'] exI[of _ q'] exI[of _ ?q]) simp
qed

text \<open>What the server sends first: the answer, with a status that is \<open>QUEUED\<close> only where waiting is possible.\<close>

lemma respond_reply:
  assumes "length (request_path q) < 2 ^ 16" "respond arrange c (request_message q) d = Ok (b', outs)"
  obtains code tail rest where "outs = (c, reply_message q code tail) # rest"
    "code = RESPONSE_STATUS_QUEUED \<longrightarrow> may_wait q"
    "tail = [] \<or> (\<exists>nonce j i. q = register_process_request nonce j \<and> tail = big_endian 4 (i :: u32))"
proof (cases q)
  case (create_lock_request pid path x)
  then have path: "length path < 2 ^ 16" using assms(1) by (simp add: request_path_def)
  from assms(2) create_lock_request obtain res where
    "outs = [(c, message MSG_ID_CREATE_LOCK_UPDATE (lock_fields pid path (big_endian 2 (create_status res))))]"
    by (auto simp: respond_create[OF path] andthen_Ok_iff simp del: request_message.simps)
  then show ?thesis using create_lock_request by (intro that[of "create_status res" "[]" "[]"]) simp_all
next
  case (acquire_lock_request pid path m)
  then have path: "length path < 2 ^ 16" using assms(1) by (simp add: request_path_def)
  from assms(2) acquire_lock_request obtain code where
    "outs = [(c, message MSG_ID_ACQUIRE_LOCK_UPDATE (lock_fields pid path (m # big_endian 2 (code :: u16))))]"
    by (auto simp: respond_acquire[OF path] andthen_Ok_iff simp del: request_message.simps)
  then show ?thesis using acquire_lock_request by (intro that[of code "[]" "[]"]) simp_all
next
  case (release_lock_request pid path m)
  then have path: "length path < 2 ^ 16" using assms(1) by (simp add: request_path_def)
  from assms(2) release_lock_request obtain code ups b2 where
    outs: "outs = (c, message MSG_ID_RELEASE_LOCK_RESPONSE (lock_fields pid path (m # big_endian 2 (code :: u16)))) # ups"
    and rel: "\<exists>ans. release_lock (update_pid_connection (daemon_backend d) pid c) pid path m = Inr (b2, code, ans)"
    by (auto simp: respond_release[OF path] andthen_Ok_iff checked_def simp del: request_message.simps split: sum.splits)
  from rel have "code \<noteq> RESPONSE_STATUS_QUEUED"
    by (auto simp: release_lock_def split: option.splits sum.splits release_code.splits)
  with outs release_lock_request show ?thesis by (intro that[of code "[]" ups]) simp_all
next
  case (unregister_process_request i)
  from assms(2) unregister_process_request obtain code ups where
    "outs = (c, message MSG_ID_UNREG_PROC_RESPONSE (big_endian 4 i @ big_endian 2 (unregister_status code))) # ups"
    by (auto simp: respond_unregister andthen_Ok_iff simp del: request_message.simps)
  moreover have "unregister_status code \<noteq> RESPONSE_STATUS_QUEUED" by (cases code) (simp_all add: unregister_status_def)
  ultimately show ?thesis using unregister_process_request
    by (intro that[of "unregister_status code" "[]" ups]) simp_all
next
  case (register_process_request nonce j)
  show ?thesis
  proof (cases "register_process (daemon_backend d)")
    case (Inl e)
    with assms(2) register_process_request show ?thesis
      by (intro that[of RESPONSE_STATUS_TOO_MANY_PROCESSES "[]" "[]"])
        (auto simp: respond_register simp del: request_message.simps)
  next
    case (Inr bi)
    with assms(2) register_process_request show ?thesis
      by (intro that[of RESPONSE_STATUS_SUCCESS "big_endian 4 (snd bi)" "[]"])
        (auto simp: respond_register simp del: request_message.simps split: prod.splits)
  qed
qed

text \<open>What the client makes of it.\<close>

lemma reply_answers:
  assumes "client_inv cl" "request_objects (concentrator cl) r = Some q"
    and "entered (concentrator cl) (slot_of (request_data q)) r" "length (request_path (request_data q)) < 2 ^ 16"
    and "alone_with_key (concentrator cl) (request_data q) r"
    and "reading s (reply_message (request_data q) code tail) 0" "code = RESPONSE_STATUS_QUEUED \<longrightarrow> may_wait (request_data q)"
    and tail: "tail = [] \<or> (\<exists>nonce j i. request_data q = register_process_request nonce j \<and> tail = big_endian 4 (i :: u32))"
  shows "\<exists>ac'. receive_message_tcp Little_Endian s (concentrator cl) = Ok ac' \<and>
    (if code = RESPONSE_STATUS_QUEUED then ac' = concentrator cl
     else answers (slot_of (request_data q)) r code (concentrator cl) ac')"
proof (cases "request_data q")
  case (create_lock_request pid path x)
  then have path: "length path < 2 ^ 16" using assms(4) by (simp add: request_path_def)
  from create_lock_request tail assms(6) have "reading s (message MSG_ID_CREATE_LOCK_UPDATE (lock_fields pid path (big_endian 2 code))) 0"
    by simp
  from receive_create_update[OF this refl path] answer_requestI[OF assms(3,2), of code] assms(3) create_lock_request
  show ?thesis by simp
next
  case (acquire_lock_request pid path m)
  then have path: "length path < 2 ^ 16" using assms(4) by (simp add: request_path_def)
  from acquire_lock_request tail assms(6) have "reading s (message MSG_ID_ACQUIRE_LOCK_UPDATE (lock_fields pid path (m # big_endian 2 code))) 0"
    by simp
  from receive_acquire_update[OF this refl path] answer_requestI[OF assms(3,2), of code] assms(3) acquire_lock_request
  show ?thesis by simp
next
  case (release_lock_request pid path m)
  then have path: "length path < 2 ^ 16" using assms(4) by (simp add: request_path_def)
  from release_lock_request tail assms(6) have "reading s (message MSG_ID_RELEASE_LOCK_RESPONSE (lock_fields pid path (m # big_endian 2 code))) 0"
    by simp
  from receive_release_response[OF this refl path] answer_requestI[OF assms(3,2), of code] assms(3,7) release_lock_request
  show ?thesis by simp
next
  case (unregister_process_request i)
  with tail assms(6) have rd: "reading s (message MSG_ID_UNREG_PROC_RESPONSE (big_endian 4 i @ big_endian 2 code)) 0" by simp
  have e: "entered (concentrator cl) Unregistrations r" using assms(3) unregister_process_request by simp
  from unregister_settles[OF assms(1) e assms(2) unregister_process_request rd] obtain ac' r' q' where
    a: "receive_message_tcp Little_Endian s (concentrator cl) = Ok ac'" "answers Unregistrations r' code (concentrator cl) ac'"
      "request_objects (concentrator cl) r' = Some q'" "get_unregister_id (request_data q') = Some i" by blast
  moreover have "r' = r" using assms(5) a(2-4) unregister_process_request by (auto simp: alone_with_key_def answers_def)
  ultimately show ?thesis using assms(7) unregister_process_request by auto
next
  case (register_process_request nonce j)
  with assms(6) have rd: "reading s (message MSG_ID_REG_PROC_RESPONSE (big_endian 4 nonce @ big_endian 2 code @ tail)) 0" by simp
  obtain i :: u32 where i: "tail = [] \<or> tail = big_endian 4 i" using tail by blast
  have e: "entered (concentrator cl) Registrations r" using assms(3) register_process_request by simp
  from register_settles[OF assms(1) e assms(2) register_process_request rd i] obtain ac' r' q' where
    a: "receive_message_tcp Little_Endian s (concentrator cl) = Ok ac'" "answers Registrations r' code (concentrator cl) ac'"
      "request_objects (concentrator cl) r' = Some q'" "get_nonce (request_data q') = Some nonce" by blast
  moreover have "r' = r" using assms(5) a(2-4) register_process_request by (auto simp: alone_with_key_def answers_def)
  ultimately show ?thesis using assms(7) register_process_request by auto
qed

subsection \<open>A call and its meaning on the server\<close>

lemma update_pid_forest [simp]: "Forest (update_pid_connection b i c) = Forest b"
  by (simp add: update_pid_connection_def split: option.split)

lemma update_pid_find:
  assumes "backend_inv b"
  shows "find_process (Process_table (update_pid_connection b i c)) j = None \<longleftrightarrow> find_process (Process_table b) j = None"
proof (cases "find_process (Process_table b) i")
  case (Some p)
  with backend_inv_process[OF assms Some] show ?thesis
    by (simp add: update_pid_connection_def find_store update_tcp_conn_def)
qed (simp add: update_pid_connection_def)

text \<open>The answered request as the waiting thread finds it.\<close>

lemma answers_result:
  assumes "answers k r code ac ac'"
  obtains q where "request_objects ac' r = Some q" "answered q" "status_code q = code"
  using assms by (auto simp: answers_def answer_def)

lemma answers_await:
  assumes "answers k r code ac ac'"
  shows "\<exists>ac'' q. await_answer r ac' = Ok (Some (ac'', q)) \<and> status_code q = code"
  by (rule answers_result[OF assms]) (simp add: await_answer_def)

lemma acquire_meaning:
  assumes "client_inv cl" "entered (concentrator cl) (Acquisition (pid, path, m)) r" "length path < 2 ^ 16"
    and "backend_inv (daemon_backend d)"
  obtains b' code reply where
    "respond arrange c (request_message (acquire_lock_request pid path m)) d = Ok (b', [(c, reply)])"
    "backend_inv b'"
    "code = RESPONSE_STATUS_NO_SUCH_PROCESS \<longleftrightarrow> find_process (Process_table (daemon_backend d)) pid = None"
    "forest_granted (Forest b') = forest_granted (Forest (daemon_backend d)) +
       (if code = RESPONSE_STATUS_SUCCESS then {#(split_path path, m, pid)#} else {#})"
    "\<And>s. reading s reply 0 \<Longrightarrow> \<exists>ac'. receive_message_tcp Little_Endian s (concentrator cl) = Ok ac' \<and>
       (if code = RESPONSE_STATUS_QUEUED then ac' = concentrator cl
        else answers (Acquisition (pid, path, m)) r code (concentrator cl) ac')"
proof -
  let ?b = "update_pid_connection (daemon_backend d) pid c"
  obtain b' code where b': "acquire_lock ?b pid path m = Inr (b', code)" "backend_inv b'"
    "code = RESPONSE_STATUS_NO_SUCH_PROCESS \<longleftrightarrow> find_process (Process_table (daemon_backend d)) pid = None"
    "forest_granted (Forest b') = forest_granted (Forest (daemon_backend d)) +
       (if code = RESPONSE_STATUS_SUCCESS then {#(split_path path, m, pid)#} else {#})"
    using acquire_lock_correct[OF update_pid_connection_inv[OF assms(4)], of pid c pid path m]
      update_pid_find[OF assms(4)] by auto
  let ?reply = "message MSG_ID_ACQUIRE_LOCK_UPDATE (lock_fields pid path (m # big_endian 2 code))"
  obtain q where q: "request_objects (concentrator cl) r = Some q"
    using client_invD[OF assms(1,2)] by blast
  have "respond arrange c (request_message (acquire_lock_request pid path m)) d = Ok (b', [(c, ?reply)])"
    using b'(1) by (simp add: respond_acquire[OF assms(3)] del: request_message.simps)
  moreover have "\<exists>ac'. receive_message_tcp Little_Endian s (concentrator cl) = Ok ac' \<and>
       (if code = RESPONSE_STATUS_QUEUED then ac' = concentrator cl
        else answers (Acquisition (pid, path, m)) r code (concentrator cl) ac')" if "reading s ?reply 0" for s
    using answer_requestI[OF assms(2) q, of code] assms(2)
    by (simp add: receive_acquire_update[OF that refl assms(3)])
  ultimately show thesis using that[OF _ b'(2-4)] by blast
qed

subsection \<open>Notifications\<close>

lemma update_status_not_queued: "update_status lr \<noteq> RESPONSE_STATUS_QUEUED"
  by (simp add: update_status_def)

lemma update_message_acquire:
  "\<not> create_missing lr \<Longrightarrow> update_message p lr =
    message MSG_ID_ACQUIRE_LOCK_UPDATE (lock_fields (get_id p) (join_path (req_path lr)) (req_mode lr # big_endian 2 (update_status lr)))"
  by (simp add: update_message_def lock_fields_def)

lemma update_message_create:
  "create_missing lr \<Longrightarrow> update_message p lr =
    message MSG_ID_CREATE_LOCK_UPDATE (lock_fields (get_id p) (join_path (req_path lr)) (big_endian 2 (update_status lr)))"
  by (simp add: update_message_def lock_fields_def)

lemma notification_answers:
  assumes "client_inv cl" "length path < 2 ^ 16" "req_path lr = split_path path"
    and "reading s (update_message p lr) 0"
    and k: "k = (if create_missing lr then Creation (get_id p, path) else Acquisition (get_id p, path, req_mode lr))"
    and "entered (concentrator cl) k r" "canonical path"
  shows "\<exists>ac'. receive_message_tcp Little_Endian s (concentrator cl) = Ok ac' \<and>
    answers k r (update_status lr) (concentrator cl) ac'"
proof -
  obtain q where q: "request_objects (concentrator cl) r = Some q" using client_invD[OF assms(1,6)] by blast
  have j: "join_path (req_path lr) = path" using assms(3,7) join_split by simp
  show ?thesis
  proof (cases "create_missing lr")
    case True
    have m: "update_message p lr = message MSG_ID_CREATE_LOCK_UPDATE (lock_fields (get_id p) path (big_endian 2 (update_status lr)))"
      using update_message_create[OF True] j by simp
    from answer_requestI[OF assms(6) q, of "update_status lr"] assms(6) True show ?thesis
      by (simp add: receive_create_update[OF assms(4) m assms(2)] k update_status_not_queued)
  next
    case False
    have m: "update_message p lr = message MSG_ID_ACQUIRE_LOCK_UPDATE
        (lock_fields (get_id p) path (req_mode lr # big_endian 2 (update_status lr)))"
      using update_message_acquire[OF False] j by simp
    from answer_requestI[OF assms(6) q, of "update_status lr"] assms(6) False show ?thesis
      by (simp add: receive_acquire_update[OF assms(4) m assms(2)] k update_status_not_queued)
  qed
qed

text \<open>
  With a path that is not canonical the notification carries another key: if a call waits under that
  key it is answered, and this one stays in the table as it was.
\<close>

lemma answers_other:
  assumes "client_inv cl" "answers k' r' code (concentrator cl) ac'" "entered (concentrator cl) k r" "k \<noteq> k'"
    and "\<not> (k' = Registrations \<or> k' = Unregistrations)"
  shows "entered ac' k r \<and> request_objects ac' r = request_objects (concentrator cl) r"
proof -
  obtain q d where q: "entered (concentrator cl) k' r'" "request_objects (concentrator cl) r' = Some q"
    "ac' = (drop_entry k' r' (concentrator cl))\<lparr>request_objects := (request_objects (concentrator cl))(r' \<mapsto> answer code (q\<lparr>request_data := d\<rparr>))\<rparr>"
    using assms(2) unfolding answers_def by blast
  have "r \<noteq> r'" using client_invD[OF assms(1,3)] client_invD[OF assms(1) q(1)] assms(4) by (metis option.inject)
  moreover have "entered (drop_entry k' r' (concentrator cl)) k r"
    using assms(1,3,4) entered_drop[of "concentrator cl"] by (simp add: client_inv_def)
  ultimately show ?thesis unfolding q(3) by (cases k) simp_all
qed

lemma notification_elsewhere:
  assumes "client_inv cl" "length path < 2 ^ 16" "req_path lr = split_path path"
    and "reading s (update_message p lr) 0"
    and k: "k = (if create_missing lr then Creation (get_id p, path) else Acquisition (get_id p, path, req_mode lr))"
    and "entered (concentrator cl) k r" "\<not> canonical path"
  shows "\<exists>ac'. receive_message_tcp Little_Endian s (concentrator cl) = Ok ac' \<and>
    entered ac' k r \<and> request_objects ac' r = request_objects (concentrator cl) r"
proof -
  let ?j = "join_path (req_path lr)"
  let ?k = "if create_missing lr then Creation (get_id p, ?j) else Acquisition (get_id p, ?j, req_mode lr)"
  have l: "length ?j < 2 ^ 16" using length_join_split[of path] assms(2,3) by simp
  have ne: "k \<noteq> ?k" using assms(3,7) join_split[of path] by (auto simp: k)
  show ?thesis
  proof (cases "\<exists>r'. entered (concentrator cl) ?k r'")
    case False
    with receive_create_update[OF assms(4) update_message_create l] receive_acquire_update[OF assms(4) update_message_acquire l]
      assms(6) show ?thesis by (cases "create_missing lr") simp_all
  next
    case True
    then obtain r' q' where r': "entered (concentrator cl) ?k r'" "request_objects (concentrator cl) r' = Some q'"
      using client_invD[OF assms(1)] by metis
    from answer_requestI[OF r', of "update_status lr"] obtain ac' where
      ac': "answer_request r' (update_status lr) (drop_entry ?k r' (concentrator cl)) = Ok ac'"
        "answers ?k r' (update_status lr) (concentrator cl) ac'" by blast
    have "receive_message_tcp Little_Endian s (concentrator cl) = Ok ac'"
      using receive_create_update[OF assms(4) update_message_create l] receive_acquire_update[OF assms(4) update_message_acquire l]
        r'(1) ac'(1) by (cases "create_missing lr") (simp_all add: update_status_not_queued)
    moreover have "entered ac' k r \<and> request_objects ac' r = request_objects (concentrator cl) r"
      by (rule answers_other[OF assms(1) ac'(2) assms(6) ne]) (cases "create_missing lr"; simp)
    ultimately show ?thesis by blast
  qed
qed

subsection \<open>Long paths\<close>

text \<open>The length of the path travels in 16 bits while the path itself is copied completely.\<close>

lemma msg_path_long:
  "msg_path (message i (lock_fields pid path rest)) = take (length path mod 2 ^ 16) path"
proof -
  let ?m = "message i (lock_fields pid path rest)"
  have "drop 9 ?m = drop 4 (drop 5 ?m)" "drop 11 ?m = drop 6 (drop 5 ?m)"
    by (simp_all add: drop_drop del: drop_message)
  then have 9: "drop 9 ?m = path_field path @ rest" and 11: "drop 11 ?m = bytes_of_string path @ rest"
    by (simp_all add: lock_fields_def path_field_def)
  have "from_bytes (take 2 (drop 9 ?m)) = (of_nat (length path) :: u16)"
    using from_big_endian[of 2 "of_nat (length path) :: u16"] 9 by (simp add: path_field_def)
  then have "msg_path_length ?m = length path mod 2 ^ 16"
    by (simp add: msg_path_length_def unat_of_nat take_bit_eq_mod)
  moreover have "string_of_bytes (take n (bytes_of_string path)) = take n path" for n
    by (metis string_of_bytes_of_string bytes_of_string_def string_of_bytes_def take_map)
  moreover have "length path mod 2 ^ 16 \<le> length path" by simp
  ultimately show ?thesis using 11 by (simp add: msg_path_def)
qed

end
