(* ===== verification/Unregister.thy ===== *)
theory Unregister
  imports Backend_Correct
begin

text \<open>
  Unregistering a process. The loop in \<open>Process_map::try_destroy\<close> ends when the held-lock
  set of the process says exactly which locks it was granted and none of its requests waits; then
  every lock of the process is free afterwards. The same loop never ends when the set names a
  lock that the process neither holds nor waits for.
\<close>

subsection \<open>Waiting requests of the whole forest\<close>

definition forest_pending :: "lock_forest \<Rightarrow> grant multiset" where
  "forest_pending f = (\<Sum>(k, l)\<leftarrow>roots f. pending l)"

lemma forest_pending_replace_root:
  assumes "forest_inv f" "map_of (roots f) k = Some l" "pending l = pending l' + A"
  shows "forest_pending f = forest_pending (set_root k l' f) + A"
  using sum_smap_put[of "roots f" "\<lambda>k. pending" k l'] assms
  by (simp add: forest_inv_def forest_pending_def set_root_def ac_simps)

lemma forest_release_pending:
  assumes "forest_release f p s m = Inr (f', p', code, ans)" "forest_inv f"
  shows "\<exists>C. forest_pending f = forest_pending f' + mset (map request_grant ans) + C \<and>
    (C = {#} \<or> (\<exists>q. C = {#(q, m, proc_id p)#}))"
proof (cases "map_of (roots f) (split_path s ! 0)")
  case None
  with assms show ?thesis by (simp add: forest_release_def)
next
  case (Some root)
  let ?pth = "split_path s"
  from assms(1) Some obtain root' where
    rel: "release root (proc_id p) m ?pth 0 (length ?pth - 1) = Inr (root', code, ans)"
    and f': "f' = set_root (?pth ! 0) root' f"
    by (auto simp: forest_release_def release_path_def Let_def split: sum.splits)
  have "[?pth ! 0] = take (0 + 1) ?pth" by (cases "?pth") (use split_path_nonempty in auto)
  from release_pending_eq[OF rel forest_inv_root(1)[OF assms(2) Some] this]
  obtain C where "pending root = pending root' + (mset (map request_grant ans) + C)"
    "C = {#} \<or> (\<exists>q. C = {#(q, m, proc_id p)#})" by (auto simp: add.assoc)
  with forest_pending_replace_root[OF assms(2) Some] show ?thesis
    unfolding f' by (auto simp: add.assoc)
qed

subsection \<open>A process whose held-lock set is exact\<close>

abbreviation holder :: "grant \<Rightarrow> proc" where
  "holder g \<equiv> snd (snd g)"

definition grants_of :: "proc \<Rightarrow> lock_forest \<Rightarrow> grant multiset" where
  "grants_of i f = filter_mset (\<lambda>g. holder g = i) (forest_granted f)"

definition held_grants :: "process \<Rightarrow> grant multiset" where
  "held_grants p = mset (map (\<lambda>(s, m). (split_path s, m, proc_id p)) (held_locks p))"

definition held_exact :: "lock_forest \<Rightarrow> process \<Rightarrow> bool" where
  "held_exact f p \<longleftrightarrow> grants_of (proc_id p) f = held_grants p \<and>
     (\<forall>g \<in># forest_pending f. holder g \<noteq> proc_id p)"

lemma filter_answered:
  assumes "\<forall>g \<in># mset (map request_grant ans). holder g \<noteq> i"
  shows "filter_mset (\<lambda>g. holder g = i) (answered_grants ans) = {#}"
  using assms by (induction ans) (auto simp: request_grant_def)

lemma held_grants_remove:
  assumes "process_inv p" "(s, m) \<in> set (held_locks p)"
  shows "held_grants p = add_mset (split_path s, m, proc_id p) (held_grants (remove_held_lock s m p))"
proof -
  have "mset (held_locks p) = add_mset (s, m) (mset (sset_erase (s, m) (held_locks p)))"
    using assms(2) by (simp add: sset_erase_def)
  then show ?thesis by (simp add: held_grants_def remove_held_lock_def mset_map)
qed

text \<open>Releasing one entry of the set succeeds and keeps the set exact.\<close>

lemma release_held:
  assumes inv: "forest_inv f" "process_inv p" and exact: "held_exact f p"
    and held: "(s, m) \<in> set (held_locks p)"
  shows "\<exists>f' ans. forest_release f p s m = Inr (f', remove_held_lock s m p, LOCK_RELEASE_SUCCESS, ans) \<and>
    forest_inv f' \<and> held_exact f' (remove_held_lock s m p)"
proof -
  let ?g = "(split_path s, m, proc_id p)" and ?P = "\<lambda>g. holder g = proc_id p"
  obtain f' p' code ans where rel: "forest_release f p s m = Inr (f', p', code, ans)" "forest_inv f'"
    and gr: "forest_granted f' = forest_granted f - {#?g#} + answered_grants ans"
    and nh: "code = LOCK_RELEASE_NOT_HELD \<longrightarrow> ?g \<notin># forest_granted f"
    using forest_release_correct[OF inv(1), of p s m] by blast
  note eq = held_grants_remove[OF inv(2) held]
  have "?g \<in># grants_of (proc_id p) f" using exact eq by (simp add: held_exact_def)
  then have "?g \<in># forest_granted f" by (simp add: grants_of_def)
  with nh have code: "code = LOCK_RELEASE_SUCCESS" by (cases code) auto
  then have p': "p' = remove_held_lock s m p"
    using rel(1) by (auto simp: forest_release_def Let_def split: option.splits sum.splits)
  obtain C where C: "forest_pending f = forest_pending f' + mset (map request_grant ans) + C"
    using forest_release_pending[OF rel(1) inv(1)] by blast
  with exact have others: "\<forall>g \<in># forest_pending f'. holder g \<noteq> proc_id p"
    "\<forall>g \<in># mset (map request_grant ans). holder g \<noteq> proc_id p"
    by (auto simp: held_exact_def simp del: set_mset_mset mset_map)
  have "grants_of (proc_id p) f' = grants_of (proc_id p) f - {#?g#}"
    using filter_answered[OF others(2)] by (simp add: grants_of_def gr)
  with exact eq have "grants_of (proc_id p) f' = held_grants p'" by (simp add: held_exact_def p')
  with rel code p' others(1) show ?thesis by (auto simp: held_exact_def)
qed

lemma release_all_held:
  assumes "forest_inv f" "process_inv p" "held_exact f p" "distinct ls" "set ls \<subseteq> set (held_locks p)"
  shows "\<exists>f' p' ans. release_all f p ls = Inr (f', p', ans) \<and> forest_inv f' \<and> process_inv p' \<and>
    held_exact f' p' \<and> proc_id p' = proc_id p \<and> set (held_locks p') = set (held_locks p) - set ls"
  using assms
proof (induction ls arbitrary: f p)
  case Nil
  then show ?case by simp
next
  case (Cons sm ls)
  obtain s m where sm: "sm = (s, m)" by fastforce
  with Cons.prems have mem: "(s, m) \<in> set (held_locks p)" by simp
  obtain f1 ans where f1: "forest_release f p s m = Inr (f1, remove_held_lock s m p, LOCK_RELEASE_SUCCESS, ans)"
    "forest_inv f1" "held_exact f1 (remove_held_lock s m p)"
    using release_held[OF Cons.prems(1-3) mem] by blast
  have inv: "process_inv (remove_held_lock s m p)" using Cons.prems(2) by simp
  have "distinct ls" "set ls \<subseteq> set (held_locks (remove_held_lock s m p))"
    using Cons.prems sm by auto
  from Cons.IH[OF f1(2) inv f1(3) this] f1(1) Cons.prems(2) show ?case
    by (auto simp: sm)
qed

theorem release_loop_terminates:
  assumes "forest_inv f" "process_inv p" "held_exact f p" "length (held_locks p) < 2 ^ 32"
  shows "\<exists>f' p' ans. release_loop f p = Some (Inr (f', p', ans)) \<and> forest_inv f' \<and>
    proc_id p' = proc_id p \<and> held_locks p' = [] \<and> grants_of (proc_id p) f' = {#}"
proof (cases "held_locks p = []")
  case True
  with assms show ?thesis
    by (simp add: release_loop_done get_lock_count_def held_exact_def held_grants_def)
next
  case False
  with get_lock_count_zero[OF assms(4)] have pos: "0 < get_lock_count p" by (simp add: word_gt_0)
  have "distinct (held_locks p)" using assms(2) by (simp add: process_inv_def sset_ordered_def)
  from release_all_held[OF assms(1-3) this order_refl] obtain f' p' ans where
    ra: "release_all f p (held_locks p) = Inr (f', p', ans)" "forest_inv f'" "held_exact f' p'"
      "proc_id p' = proc_id p" "held_locks p' = []" by auto
  have "release_loop f' p' = Some (Inr (f', p', []))"
    using ra(5) by (simp add: release_loop_done get_lock_count_def)
  with release_loop_step[OF pos ra(1)] have "release_loop f p = Some (Inr (f', p', ans))"
    by (simp add: add_answered_def)
  with ra show ?thesis by (simp add: held_exact_def held_grants_def)
qed

lemma unregister_releases_all:
  assumes "backend_inv b" "find_process (Process_table b) i = Some p" "held_exact (Forest b) p"
    and "length (held_locks p) < 2 ^ 32"
  shows "\<exists>b' ans. unregister_process b i = Some (Inr (b', PROCESS_UNREGISTER_RESULT_SUCCESS, ans)) \<and>
    backend_inv b' \<and> find_process (Process_table b') i = None \<and> grants_of i (Forest b') = {#}"
proof -
  note p = backend_inv_process[OF assms(1,2)]
  from release_loop_terminates[OF _ _ assms(3,4)] p assms(1) obtain f' p' ans where
    f: "release_loop (Forest b) p = Some (Inr (f', p', ans))" "proc_id p' = i" "grants_of i f' = {#}"
    by (auto simp: backend_inv_def)
  have eq: "unregister_process b i = Some (Inr
      (\<lparr>Forest = mark_destroyed i f',
        Process_table = (Process_table b)\<lparr>Processes := smap_del i (Processes (Process_table b))\<rparr>\<rparr>,
       PROCESS_UNREGISTER_RESULT_SUCCESS, map (mark_request i) ans))"
    using f assms(2)
    by (simp add: unregister_process_def try_destroy_def find_process_def erase_process_def get_id_def)
  from unregister_inv[OF assms(1) eq] eq f(3) show ?thesis
    by (auto simp: grants_of_def forest_granted_mark)
qed

end
