(* ===== verification/Backend_Scenarios.thy ===== *)
theory Backend_Scenarios
  imports Unregister
begin

text \<open>
  Executable runs of the backend from its initial state, and reachable states in which the code
  does not do what it means to do.
\<close>

datatype backend_op =
  Register
| Create proc string bool
| Acquire proc string lock_mode
| Release proc string lock_mode

definition result_state :: "'e + backend \<times> 'r \<Rightarrow> backend option" where
  "result_state res = (case res of Inl e \<Rightarrow> None | Inr (b, r) \<Rightarrow> Some b)"

fun perform :: "backend_op \<Rightarrow> backend \<Rightarrow> backend option" where
  "perform Register b = result_state (register_process b)"
| "perform (Create i s x) b = result_state (create_lock b i s x)"
| "perform (Acquire i s m) b = result_state (acquire_lock b i s m)"
| "perform (Release i s m) b = result_state (release_lock b i s m)"

fun backend_run :: "backend_op list \<Rightarrow> backend \<Rightarrow> backend option" where
  "backend_run [] b = Some b"
| "backend_run (c # cs) b = Option.bind (perform c b) (backend_run cs)"

lemma perform_step: "perform c b = Some b' \<Longrightarrow> backend_step b b'"
  by (cases c) (auto simp: result_state_def split: sum.splits
      intro: step_register step_create step_acquire step_release)

lemma backend_run_reachable:
  "backend_run cs b = Some b' \<Longrightarrow> backend_reachable b \<Longrightarrow> backend_reachable b'"
  by (induction cs arbitrary: b) (auto simp: bind_eq_Some_conv dest!: perform_step intro: reachable_step)

lemma backend_run_new: "backend_run cs backend_new = Some b \<Longrightarrow> backend_reachable b"
  by (erule backend_run_reachable) (rule reachable_init, simp)

lemma unregister_diverges:
  assumes "find_process (Process_table b) i = Some p" "0 < get_lock_count p"
    and "release_all (Forest b) p (held_locks p) = Inr (Forest b, p, ans)"
  shows "unregister_process b i = None"
  using release_loop_diverges[OF assms(2,3)] assms(1)
  by (simp add: unregister_process_def try_destroy_def find_process_def)

text \<open>
  A request for a lock that does not exist waits behind an X lock; when that is released the
  request is answered with \<open>LOCK_ACQUIRE_NON_EXISTENT\<close> but the path stays in the
  held-lock set.
\<close>

definition missing_lock_run :: "backend_op list" where
  "missing_lock_run =
     [Register, Register, Create 0 ''a'' True, Acquire 1 ''a.zzz'' LOCK_REQUEST_MODE_S,
      Release 0 ''a'' LOCK_REQUEST_MODE_X]"

definition missing_lock_process :: process where
  "missing_lock_process = \<lparr>proc_id = 1, held_locks = [(''a.zzz'', LOCK_REQUEST_MODE_S)], tcp_conn = None\<rparr>"

definition missing_lock_state :: backend where
  "missing_lock_state = the (backend_run missing_lock_run backend_new)"

text \<open>The state before the release, and what the release answers.\<close>

definition missing_lock_waiting :: backend where
  "missing_lock_waiting = the (backend_run (butlast missing_lock_run) backend_new)"

definition missing_lock_answer :: lock_request where
  "missing_lock_answer = (Lock_Request_create LOCK_REQUEST_MODE_S 1 [''a'', ''zzz''] False)
     \<lparr>acquire_status := LOCK_ACQUIRE_NON_EXISTENT\<rparr>"

lemma missing_lock_release:
  "backend_run (butlast missing_lock_run) backend_new = Some missing_lock_waiting"
  "release_lock missing_lock_waiting 0 ''a'' LOCK_REQUEST_MODE_X =
     Inr (missing_lock_state, RELEASE_LOCK_RESULT_RELEASED, [missing_lock_answer])"
  "forest_granted (Forest missing_lock_state) = {#}" "forest_pending (Forest missing_lock_state) = {#}"
  by code_simp+

lemma missing_lock_facts:
  "backend_run missing_lock_run backend_new = Some missing_lock_state"
  "find_process (Process_table missing_lock_state) 1 = Some missing_lock_process"
  "release_all (Forest missing_lock_state) missing_lock_process (held_locks missing_lock_process) =
     Inr (Forest missing_lock_state, missing_lock_process, [])"
  by code_simp+

lemma missing_lock_hang:
  "backend_reachable missing_lock_state"
  "unregister_process missing_lock_state 1 = None"
  using missing_lock_facts
  by (auto intro: backend_run_new unregister_diverges simp: missing_lock_process_def get_lock_count_def)

text \<open>Two S locks on one path are one entry of the held-lock set.\<close>

definition double_lock_run :: "backend_op list" where
  "double_lock_run =
     [Register, Register, Create 1 ''a'' True, Release 1 ''a'' LOCK_REQUEST_MODE_X,
      Acquire 0 ''a'' LOCK_REQUEST_MODE_S, Acquire 0 ''a'' LOCK_REQUEST_MODE_S]"

definition double_lock_state :: backend where
  "double_lock_state = the (backend_run double_lock_run backend_new)"

definition stale_grants :: "backend \<Rightarrow> proc \<Rightarrow> grant multiset option" where
  "stale_grants b i =
     (case unregister_process b i of
        Some (Inr (b', code, ans)) \<Rightarrow>
          if code = PROCESS_UNREGISTER_RESULT_SUCCESS then Some (grants_of i (Forest b')) else None
      | _ \<Rightarrow> None)"

lemma double_lock_facts:
  "backend_run double_lock_run backend_new = Some double_lock_state"
  "stale_grants double_lock_state 0 = Some {#([''a''], LOCK_REQUEST_MODE_S, 0)#}"
  by code_simp+

text \<open>
  The held-lock set is keyed by the string the client sent, the lock by its components. A lock
  created as \<open>a..b\<close> and released as \<open>a.b\<close> stays in the set.
\<close>

definition two_names_run :: "backend_op list" where
  "two_names_run = [Register, Create 0 ''a..b'' True, Release 0 ''a.b'' LOCK_REQUEST_MODE_X]"

definition two_names_state :: backend where
  "two_names_state = the (backend_run two_names_run backend_new)"

definition two_names_process :: process where
  "two_names_process = \<lparr>proc_id = 0, held_locks = [(''a..b'', LOCK_REQUEST_MODE_X)], tcp_conn = None\<rparr>"

lemma two_names_facts:
  "backend_run two_names_run backend_new = Some two_names_state"
  "find_process (Process_table two_names_state) 0 = Some two_names_process"
  "release_all (Forest two_names_state) two_names_process (held_locks two_names_process) =
     Inr (Forest two_names_state, two_names_process, [])"
  "forest_granted (Forest two_names_state) = {#}"
  by code_simp+

lemma two_names_hang:
  "backend_reachable two_names_state"
  "unregister_process two_names_state 0 = None"
  using two_names_facts(1-3)
  by (auto intro: backend_run_new unregister_diverges simp: two_names_process_def get_lock_count_def)

text \<open>
  A request that waits behind the X lock of an inner node and is then answered with
  \<open>LOCK_ACQUIRE_NON_EXISTENT\<close> leaves its intent locks on the nodes above.
\<close>

definition leaked_intent_run :: "backend_op list" where
  "leaked_intent_run =
     [Register, Register, Create 0 ''a.b'' True, Acquire 1 ''a.b.zzz'' LOCK_REQUEST_MODE_S,
      Release 0 ''a.b'' LOCK_REQUEST_MODE_X]"

definition leaked_intent_state :: backend where
  "leaked_intent_state = the (backend_run leaked_intent_run backend_new)"

definition acquire_status_of :: "backend \<Rightarrow> proc \<Rightarrow> string \<Rightarrow> lock_mode \<Rightarrow> u16 option" where
  "acquire_status_of b i s m =
     (case acquire_lock b i s m of Inl e \<Rightarrow> None | Inr (b', status) \<Rightarrow> Some status)"

lemma leaked_intent_facts:
  "backend_run leaked_intent_run backend_new = Some leaked_intent_state"
  "forest_granted (Forest leaked_intent_state) = {#}"
  "forest_pending (Forest leaked_intent_state) = {#}"
  "acquire_status_of leaked_intent_state 0 ''a'' LOCK_REQUEST_MODE_X = Some ACQUIRE_LOCK_RESULT_QUEUED"
  by code_simp+

text \<open>
  Withdrawing the request at the front of a queue does not run the grant loop: the next request
  keeps waiting although nothing blocks it.
\<close>

definition lost_wakeup_run :: "backend_op list" where
  "lost_wakeup_run =
     [Register, Register, Register, Register,
      Create 0 ''a'' True, Release 0 ''a'' LOCK_REQUEST_MODE_X,
      Acquire 0 ''a'' LOCK_REQUEST_MODE_S, Acquire 3 ''a'' LOCK_REQUEST_MODE_Splus,
      Acquire 1 ''a'' LOCK_REQUEST_MODE_X, Acquire 2 ''a'' LOCK_REQUEST_MODE_Splus,
      Release 3 ''a'' LOCK_REQUEST_MODE_Splus, Release 1 ''a'' LOCK_REQUEST_MODE_X]"

definition lost_wakeup_state :: backend where
  "lost_wakeup_state = the (backend_run lost_wakeup_run backend_new)"

definition front_ready :: "backend \<Rightarrow> string \<Rightarrow> bool" where
  "front_ready b nm =
     (case map_of (roots (Forest b)) nm of
        None \<Rightarrow> False
      | Some l \<Rightarrow> (case lock_requests (node l) of [] \<Rightarrow> False | r # rs \<Rightarrow> \<not> blocked l r))"

lemma lost_wakeup_facts:
  "backend_run lost_wakeup_run backend_new = Some lost_wakeup_state"
  "front_ready lost_wakeup_state ''a''"
  by code_simp+

text \<open>
  A release looks for a waiting request by mode and process, not by path, and may withdraw
  another request of the process.
\<close>

definition wrong_request_run :: "backend_op list" where
  "wrong_request_run =
     [Register, Register, Create 0 ''a'' True,
      Acquire 1 ''a.x'' LOCK_REQUEST_MODE_S, Acquire 1 ''a.y'' LOCK_REQUEST_MODE_S]"

definition wrong_request_state :: backend where
  "wrong_request_state = the (backend_run wrong_request_run backend_new)"

definition pending_after_release :: "backend \<Rightarrow> proc \<Rightarrow> string \<Rightarrow> lock_mode \<Rightarrow> grant multiset option" where
  "pending_after_release b i s m =
     (case release_lock b i s m of
        Inl e \<Rightarrow> None | Inr (b', status, ans) \<Rightarrow> Some (forest_pending (Forest b')))"

lemma wrong_request_facts:
  "backend_run wrong_request_run backend_new = Some wrong_request_state"
  "forest_pending (Forest wrong_request_state) =
     {#([''a'', ''x''], LOCK_REQUEST_MODE_S, 1), ([''a'', ''y''], LOCK_REQUEST_MODE_S, 1)#}"
  "pending_after_release wrong_request_state 1 ''a.y'' LOCK_REQUEST_MODE_S =
     Some {#([''a'', ''y''], LOCK_REQUEST_MODE_S, 1)#}"
  by code_simp+

end
