(* ===== verification/Server_Properties.thy ===== *)
theory Server_Properties
  imports Backend_Scenarios Path_Names
begin

text \<open>
  The properties of the lock forest, the process table and the backend. The witnesses run the
  backend from its initial state.
\<close>

definition example_run :: "backend_op list" where
  "example_run =
     [Register, Register, Create 0 ''a.b'' True, Acquire 1 ''a'' LOCK_REQUEST_MODE_S]"

definition example_state :: backend where
  "example_state = the (backend_run example_run backend_new)"

definition example_process :: process where
  "example_process = \<lparr>proc_id = 0, held_locks = [(''a.b'', LOCK_REQUEST_MODE_X)], tcp_conn = None\<rparr>"

lemma example_state_facts:
  "backend_run example_run backend_new = Some example_state"
  "find_process (Process_table example_state) 0 = Some example_process"
  "grants_of 0 (Forest example_state) = {#([''a'', ''b''], LOCK_REQUEST_MODE_X, 0)#}"
  "forest_pending (Forest example_state) = {#([''a''], LOCK_REQUEST_MODE_S, 1)#}"
  "find_process (Process_table example_state) 1 \<noteq> None"
  "held_grants example_process = {#([''a'', ''b''], LOCK_REQUEST_MODE_X, 0)#}"
  by code_simp+

lemma example_reachable: "backend_reachable example_state"
  by (rule backend_run_new[OF example_state_facts(1)])

lemma example_state_inv: "backend_inv example_state"
  by (rule backend_sys.inv_reachable[OF example_reachable])

text \<open>
  Mutual exclusion. In every state the server can reach from its start, by any sequence of
  register, unregister, create, acquire and release operations of any processes, no two granted
  locks conflict.
\<close>

theorem reachable_conflict_free:
  assumes "backend_reachable b"
  shows "conflict_free (forest_granted (Forest b))"
  using backend_sys.inv_reachable[OF assms] forest_conflict_free by (simp add: backend_inv_def)

theorem reachable_conflict_free_witness: "conflict_free (forest_granted (Forest example_state))"
  by (rule reachable_conflict_free[OF example_reachable])

text \<open>
  C15: the backend is well-formed after every operation. Well-formed means that the containers are
  ordered, every lock is stored under its name and every process under its id, sibling locks have
  distinct names, the holders of every lock are compatible, the intents of a lock cover the holders
  and intents of its children, and a queued request is queued on its own path. Registering, creating,
  acquiring, releasing, unregistering (when its loop ends) and noting a connection keep all of this,
  whatever their arguments.
\<close>

theorem operations_well_formed:
  assumes "backend_inv b"
  shows "(\<forall>b' j. register_process b = Inr (b', j) \<longrightarrow> backend_inv b') \<and>
    (\<exists>b' res. create_lock b i s x = Inr (b', res) \<and> backend_inv b') \<and>
    (\<exists>b' status. acquire_lock b i s m = Inr (b', status) \<and> backend_inv b') \<and>
    (\<exists>b' status ans. release_lock b i s m = Inr (b', status, ans) \<and> backend_inv b') \<and>
    (\<forall>res. unregister_process b i = Some res \<longrightarrow> (\<exists>b' code ans. res = Inr (b', code, ans) \<and> backend_inv b')) \<and>
    backend_inv (update_pid_connection b i c)"
proof (intro conjI allI impI)
  show "\<exists>b' res. create_lock b i s x = Inr (b', res) \<and> backend_inv b'" using create_lock_correct[OF assms] by blast
  show "\<exists>b' status. acquire_lock b i s m = Inr (b', status) \<and> backend_inv b'" using acquire_lock_correct[OF assms] by blast
  show "\<exists>b' status ans. release_lock b i s m = Inr (b', status, ans) \<and> backend_inv b'"
    using release_lock_correct[OF assms] by blast
  show "backend_inv (update_pid_connection b i c)" by (rule update_pid_connection_inv[OF assms])
qed (use register_inv[OF assms] unregister_inv[OF assms] in blast)+

theorem operations_well_formed_witness:
  "\<exists>b' status. acquire_lock example_state 1 ''a'' LOCK_REQUEST_MODE_X = Inr (b', status) \<and> backend_inv b'"
  using operations_well_formed[OF example_state_inv] by blast

text \<open>
  C17: \<open>acquire_lock\<close> against the abstract lock table: the status is
  \<open>NO_SUCH_PROCESS\<close> exactly for unknown processes, and the granted locks grow by the
  requested lock exactly when the status is \<open>ACQUIRED\<close>.
\<close>

theorem acquire_lock_refines:
  assumes "backend_inv b"
  shows "\<exists>b' status. acquire_lock b i s m = Inr (b', status) \<and> backend_inv b' \<and>
    (status = ACQUIRE_LOCK_RESULT_NO_SUCH_PROCESS \<longleftrightarrow> find_process (Process_table b) i = None) \<and>
    forest_granted (Forest b') = forest_granted (Forest b) +
      (if status = ACQUIRE_LOCK_RESULT_ACQUIRED then {#(split_path s, m, i)#} else {#})"
  by (rule acquire_lock_correct[OF assms])

theorem acquire_lock_refines_witness:
  "\<exists>b' status. acquire_lock example_state 1 ''a'' LOCK_REQUEST_MODE_X = Inr (b', status) \<and> backend_inv b' \<and>
    status \<noteq> ACQUIRE_LOCK_RESULT_NO_SUCH_PROCESS"
  using acquire_lock_refines[OF example_state_inv, of 1 "''a''" LOCK_REQUEST_MODE_X] example_state_facts(5) by auto

text \<open>
  C18: \<open>release_lock\<close> against the abstract lock table: the named lock is taken away from the
  calling process only, the answered requests are granted, nothing else changes; the status is
  \<open>NOT_HELD\<close> only if the process did not hold the lock, and \<open>NO_SUCH_PROCESS\<close>
  exactly for unknown processes.
\<close>

theorem release_lock_refines:
  assumes "backend_inv b"
  shows "\<exists>b' status ans. release_lock b i s m = Inr (b', status, ans) \<and> backend_inv b' \<and>
    (status = RELEASE_LOCK_RESULT_NO_SUCH_PROCESS \<longleftrightarrow> find_process (Process_table b) i = None) \<and>
    (find_process (Process_table b) i \<noteq> None \<longrightarrow>
      forest_granted (Forest b') = forest_granted (Forest b) - {#(split_path s, m, i)#} + answered_grants ans) \<and>
    (status = RELEASE_LOCK_RESULT_NO_SUCH_PROCESS \<longrightarrow> b' = b \<and> ans = []) \<and>
    (status = RELEASE_LOCK_RESULT_NOT_HELD \<longrightarrow> (split_path s, m, i) \<notin># forest_granted (Forest b))"
  by (rule release_lock_correct[OF assms])

theorem release_lock_refines_witness:
  "\<exists>b' status ans. release_lock example_state 0 ''a.b'' LOCK_REQUEST_MODE_X = Inr (b', status, ans) \<and>
    status \<noteq> RELEASE_LOCK_RESULT_NOT_HELD"
proof -
  have "(split_path ''a.b'', LOCK_REQUEST_MODE_X, 0) \<in># forest_granted (Forest example_state)"
    by code_simp
  with release_lock_refines[OF example_state_inv, of 0 "''a.b''" LOCK_REQUEST_MODE_X] show ?thesis by auto
qed

text \<open>
  C19: \<open>create_lock\<close> against the abstract lock table: with \<open>acquire_X\<close> the process
  gets an X lock exactly when the result is \<open>CREATED\<close> or \<open>EXISTS\<close>; without it no
  lock is granted.
\<close>

theorem create_lock_refines:
  assumes "backend_inv b"
  shows "\<exists>b' res. create_lock b i s x = Inr (b', res) \<and> backend_inv b' \<and>
    (res = CREATE_LOCK_RESULT_NO_SUCH_PROCESS \<longleftrightarrow> find_process (Process_table b) i = None) \<and>
    forest_granted (Forest b') = forest_granted (Forest b) +
      (if x \<and> (res = CREATE_LOCK_RESULT_CREATED \<or> res = CREATE_LOCK_RESULT_EXISTS)
       then {#(split_path s, LOCK_REQUEST_MODE_X, i)#} else {#})"
  by (rule create_lock_correct[OF assms])

theorem create_lock_refines_witness:
  "\<exists>b' res. create_lock example_state 7 ''c'' True = Inr (b', res) \<and> res = CREATE_LOCK_RESULT_NO_SUCH_PROCESS"
proof -
  have "find_process (Process_table example_state) 7 = None" by code_simp
  with create_lock_refines[OF example_state_inv, of 7 "''c''" True] show ?thesis by auto
qed

text \<open>
  C20: unregistering ends and frees everything, when the held-lock set of the process lists
  exactly its granted locks and none of its requests waits: the process is gone, and no lock is
  granted to its id.
\<close>

theorem unregister_terminates:
  assumes "backend_inv b" "find_process (Process_table b) i = Some p" "held_exact (Forest b) p"
    and "length (held_locks p) < 2 ^ 32"
  shows "\<exists>b' ans. unregister_process b i = Some (Inr (b', PROCESS_UNREGISTER_RESULT_SUCCESS, ans)) \<and>
    backend_inv b' \<and> find_process (Process_table b') i = None \<and> grants_of i (Forest b') = {#}"
  by (rule unregister_releases_all[OF assms])

theorem unregister_terminates_witness:
  "\<exists>b' ans. unregister_process example_state 0 = Some (Inr (b', PROCESS_UNREGISTER_RESULT_SUCCESS, ans)) \<and>
    grants_of 0 (Forest b') = {#}"
proof -
  have "held_exact (Forest example_state) example_process"
    using example_state_facts(3,4,6) by (simp add: held_exact_def example_process_def)
  from unregister_terminates[OF example_state_inv example_state_facts(2) this]
  show ?thesis by (auto simp: example_process_def)
qed

subsection \<open>Process ids\<close>

fun register_times :: "nat \<Rightarrow> backend \<Rightarrow> backend_exception + backend \<times> proc list" where
  "register_times 0 b = Inr (b, [])"
| "register_times (Suc n) b =
     (case register_times n b of
        Inl e \<Rightarrow> Inl e
      | Inr (b', is) \<Rightarrow>
          (case register_process b' of Inl e \<Rightarrow> Inl e | Inr (b'', i) \<Rightarrow> Inr (b'', is @ [i])))"

definition ids_from :: "proc \<Rightarrow> nat \<Rightarrow> proc list" where
  "ids_from i n = map (\<lambda>k. i + of_nat k) [0..<n]"

lemma ids_from_Suc: "ids_from i (Suc n) = ids_from i n @ [i + of_nat n]"
  by (simp add: ids_from_def)

lemma id_in_range:
  assumes "n < 2 ^ 32"
  shows "i + of_nat n \<notin> set (ids_from i n)"
proof -
  have "(of_nat k :: proc) \<noteq> of_nat n" if "k < n" for k
    using that assms by (simp add: word_unat_eq_iff unat_of_nat)
  then show ?thesis by (fastforce simp: ids_from_def)
qed

lemma distinct_ids: "n \<le> 2 ^ 32 \<Longrightarrow> distinct (ids_from i n)"
proof (induction n)
  case (Suc n)
  then show ?case using id_in_range[of n i] by (simp add: ids_from_Suc)
qed (simp add: ids_from_def)

lemma first_id: "0 < n \<Longrightarrow> i \<in> set (ids_from i n)"
  by (force simp: ids_from_def image_iff)

lemma find_process_put:
  "find_process \<lparr>Processes = smap_put i p ps, next_id = k\<rparr> j = (if j = i then Some p else map_of ps j)"
  by (simp add: find_process_def smap.get_put)

lemma register_times_ids:
  assumes "Processes (Process_table b) = []" "n \<le> 2 ^ 32"
  shows "\<exists>b'. register_times n b = Inr (b', ids_from (next_id (Process_table b)) n) \<and>
    next_id (Process_table b') = next_id (Process_table b) + of_nat n \<and>
    (\<forall>j. find_process (Process_table b') j \<noteq> None \<longleftrightarrow> j \<in> set (ids_from (next_id (Process_table b)) n))"
  using assms(2)
proof (induction n)
  case 0
  then show ?case using assms(1) by (simp add: ids_from_def find_process_def)
next
  case (Suc n)
  let ?i = "next_id (Process_table b)"
  from Suc obtain b' where b': "register_times n b = Inr (b', ids_from ?i n)"
    "next_id (Process_table b') = ?i + of_nat n"
    "\<And>j. find_process (Process_table b') j \<noteq> None \<longleftrightarrow> j \<in> set (ids_from ?i n)" by auto
  from Suc.prems have "?i + of_nat n \<notin> set (ids_from ?i n)" by (intro id_in_range) simp
  with b'(3) have "find_process (Process_table b') (?i + of_nat n) = None" by metis
  with b'(1,2) have "register_times (Suc n) b = Inr (b'\<lparr>Process_table :=
      \<lparr>Processes = smap_put (?i + of_nat n) (Process_new (?i + of_nat n)) (Processes (Process_table b')),
       next_id = ?i + of_nat n + 1\<rparr>\<rparr>, ids_from ?i (Suc n))"
    by (simp add: register_process_def Process_map_create_spec ids_from_Suc)
  then show ?case using b'(3)
    by (simp add: find_process_put ids_from_Suc add_ac del: register_times.simps not_None_eq) (simp add: find_process_def)
qed

text \<open>
  C28: how many processes there can be. Starting without processes, exactly $2^{32}$ registrations in
  a row succeed, with pairwise distinct ids that follow one another from the counter on and wrap from
  $2^{32}-1$ to 0; each further one throws \<open>too_many_processes_exception\<close>.
\<close>

theorem registrations_bounded:
  assumes "Processes (Process_table b) = []" "ids = ids_from (next_id (Process_table b)) n"
  shows "(n \<le> 2 ^ 32 \<longrightarrow> (\<exists>b'. register_times n b = Inr (b', ids)) \<and> distinct ids) \<and>
    (2 ^ 32 < n \<longrightarrow> register_times n b = Inl too_many_processes_exception)"
proof (intro conjI impI)
  assume n: "n \<le> 2 ^ 32"
  show "\<exists>b'. register_times n b = Inr (b', ids)" using register_times_ids[OF assms(1) n] assms(2) by blast
  show "distinct ids" using distinct_ids[OF n] assms(2) by simp
next
  let ?i = "next_id (Process_table b)"
  obtain b' where b': "register_times (2 ^ 32) b = Inr (b', ids_from ?i (2 ^ 32))" "next_id (Process_table b') = ?i"
    "find_process (Process_table b') ?i \<noteq> None"
    using register_times_ids[OF assms(1) order.refl] first_id[of "2 ^ 32" ?i] by auto
  then have full: "register_process b' = Inl too_many_processes_exception"
    by (auto simp: register_process_def Process_map_create_spec)
  have "register_times (Suc (2 ^ 32) + m) b = Inl too_many_processes_exception" for m
  proof (induction m)
    case 0
    show ?case using b'(1) full by (simp only: add_0_right register_times.simps sum.case prod.case)
  next
    case (Suc m)
    then show ?case by (simp only: add_Suc_right register_times.simps sum.case)
  qed
  moreover assume "2 ^ 32 < n"
  then have "n = Suc (2 ^ 32) + (n - Suc (2 ^ 32))" by simp
  ultimately show "register_times n b = Inl too_many_processes_exception" by metis
qed

theorem registrations_bounded_witness:
  "(\<exists>b'. register_times 3 backend_new = Inr (b', [0, 1, 2])) \<and>
   register_times (Suc (2 ^ 32)) backend_new = Inl too_many_processes_exception"
proof -
  have new: "Processes (Process_table backend_new) = []" "next_id (Process_table backend_new) = 0"
    by (simp_all add: backend_new_def Process_map_new_def)
  have "ids_from 0 3 = [0, 1, 2]" by (simp add: ids_from_def numeral_3_eq_3)
  with registrations_bounded[OF new(1) refl, of 3] registrations_bounded[OF new(1) refl, of "Suc (2 ^ 32)"] new(2)
  show ?thesis by (simp del: register_times.simps)
qed

text \<open>
  C29: \<open>split_path\<close>, which scans with \<open>find\<close> and \<open>substr\<close>, computes the
  reference definition: split at every dot and drop the empty components except the last. The
  result is never empty, has no dot in a component, and is short enough for the 32-bit levels.
\<close>

theorem split_path_reference:
  "split_path s = keep_components (split_dots s) \<and> split_path s \<noteq> [] \<and> path_ok (split_path s) \<and>
   length (split_path s) \<le> length s + 1"
  using split_path_length[of s] by (simp add: split_path_eq[symmetric] split_path_ok)

text \<open>
  Round trips of path names. Putting components together, as the daemon does for a
  notification, and splitting again gives the components; the string the client sent comes back
  unchanged exactly when it has no empty component before the last.
\<close>

theorem path_round_trip:
  "(path_ok cs \<longrightarrow> split_path (join_path cs) = cs) \<and> (join_path (split_path s) = s \<longleftrightarrow> canonical s)"
  using split_join join_split by simp

theorem path_round_trip_witness: "split_path (join_path [''a'', ''b'']) = [''a'', ''b'']"
proof -
  have "path_ok [''a'', ''b'']" by code_simp
  with path_round_trip[of "[''a'', ''b'']" "[]"] show ?thesis by blast
qed

text \<open>
  C30: the server can hang. A reachable state in which a process waits for a lock that does not
  exist. When the lock in its way is released, its request is answered with
  \<open>LOCK_ACQUIRE_NON_EXISTENT\<close>; nothing is granted to anyone afterwards and no request waits, and yet
  unregistering the process never returns.
\<close>

theorem unregister_may_hang:
  "\<exists>b0 b q. backend_reachable b0 \<and>
     release_lock b0 0 ''a'' LOCK_REQUEST_MODE_X = Inr (b, RELEASE_LOCK_RESULT_RELEASED, [q]) \<and>
     requester q = 1 \<and> acquire_status q = LOCK_ACQUIRE_NON_EXISTENT \<and>
     find_process (Process_table b) 1 \<noteq> None \<and> forest_granted (Forest b) = {#} \<and> forest_pending (Forest b) = {#} \<and>
     unregister_process b 1 = None"
  using backend_run_new[OF missing_lock_release(1)] missing_lock_release(2-4) missing_lock_facts(2) missing_lock_hang(2)
  by (intro exI[of _ missing_lock_waiting] exI[of _ missing_lock_state] exI[of _ missing_lock_answer])
    (simp add: missing_lock_answer_def Lock_Request_create_def)

text \<open>
  C31: locks of a process can outlive it. A reachable state in which unregistering a process
  succeeds and a lock stays granted to it: the held-lock set has one entry for two S locks.
\<close>

theorem unregister_leaves_lock:
  "\<exists>b i G. backend_reachable b \<and> stale_grants b i = Some G \<and> G \<noteq> {#}"
  using backend_run_new[OF double_lock_facts(1)] double_lock_facts(2)
  by (intro exI[of _ double_lock_state] exI[of _ 0] exI[of _ "{#([''a''], LOCK_REQUEST_MODE_S, 0)#}"]) simp

text \<open>
  A request can be forgotten. A reachable state in which the request at the front of a
  queue is not blocked: the request before it was withdrawn, which does not run the grant loop.
\<close>

theorem withdrawal_loses_wakeup: "\<exists>b nm. backend_reachable b \<and> front_ready b nm"
  using backend_run_new[OF lost_wakeup_facts(1)] lost_wakeup_facts(2) by blast

text \<open>
  C32: intent locks can leak. A reachable state with no granted lock and no waiting request, in
  which a request for an X lock on an existing lock has to wait.
\<close>

theorem intent_lock_leaks:
  "\<exists>b i s. backend_reachable b \<and> forest_granted (Forest b) = {#} \<and> forest_pending (Forest b) = {#} \<and>
     acquire_status_of b i s LOCK_REQUEST_MODE_X = Some ACQUIRE_LOCK_RESULT_QUEUED"
  using backend_run_new[OF leaked_intent_facts(1)] leaked_intent_facts(2-4) by blast

text \<open>
  Releasing may withdraw the wrong request. A reachable state in which a process waits for
  two locks, and releasing the second withdraws the request for the first.
\<close>

theorem release_withdraws_other_request:
  "\<exists>b i s t m. backend_reachable b \<and> split_path s \<noteq> split_path t \<and>
     forest_pending (Forest b) = {#(split_path s, m, i), (split_path t, m, i)#} \<and>
     pending_after_release b i t m = Some {#(split_path t, m, i)#}"
proof -
  have "split_path ''a.x'' = [''a'', ''x'']" "split_path ''a.y'' = [''a'', ''y'']" by code_simp+
  with backend_run_new[OF wrong_request_facts(1)] wrong_request_facts(2,3) show ?thesis
    by (intro exI[of _ wrong_request_state] exI[of _ 1] exI[of _ "''a.x''"] exI[of _ "''a.y''"]
        exI[of _ LOCK_REQUEST_MODE_S]) simp
qed

text \<open>
  Two names of one lock. A reachable state with no granted lock in which unregistering
  never returns: the lock was created as \<open>a..b\<close> and released as \<open>a.b\<close>.
\<close>

theorem two_names_hang_server:
  "\<exists>b i. backend_reachable b \<and> forest_granted (Forest b) = {#} \<and>
     find_process (Process_table b) i \<noteq> None \<and> unregister_process b i = None"
  using two_names_hang two_names_facts(2,4) by blast

end
