(* ===== verification/Framing_Faults.thy ===== *)
theory Framing_Faults
  imports Framing
begin

text \<open>
  Where the receive loop goes wrong: it reports progress although it consumed nothing when the
  memory for a complete message cannot be allocated.
\<close>

lemma receive_loop_diverges:
  assumes "\<And>j. receive_step h mem (k + 3 * j) c = Some (Inr (c, None, True))"
  shows "receive_loop h mem k c = None"
proof -
  have "\<not> (\<forall>j. receive_step h mem (k + 3 * j) c = Some (Inr (c, None, True)))"
    if "receive_loop h mem k c = Some y" for h mem k c y
  proof (rule receive_loop.raw_induct[OF _ that], rule notI)
    fix rl :: "byte_order \<Rightarrow> memory \<Rightarrow> nat \<Rightarrow> connection \<Rightarrow> (fault + connection \<times> stream list) option"
      and h mem k c y
    assume IH: "\<And>h mem k c y. rl h mem k c = Some y \<Longrightarrow>
        \<not> (\<forall>j. receive_step h mem (k + 3 * j) c = Some (Inr (c, None, True)))"
      and body: "Option.bind (receive_step h mem k c)
        (\<lambda>res. case res of
           Inl e \<Rightarrow> Some (Inl e)
         | Inr (c', m, progress) \<Rightarrow>
             if progress then Option.bind (rl h mem (k + 3) c') (add_message m)
             else add_message m (Inr (c', []))) = Some y"
      and all: "\<forall>j. receive_step h mem (k + 3 * j) c = Some (Inr (c, None, True))"
    have "receive_step h mem k c = Some (Inr (c, None, True))" using all[rule_format, of 0] by simp
    with body obtain z where "rl h mem (k + 3) c = Some z" by (auto simp: bind_eq_Some_conv)
    moreover have "receive_step h mem (k + 3 + 3 * j) c = Some (Inr (c, None, True))" for j
      using all[rule_format, of "j + 1"] by (simp add: ac_simps)
    ultimately show False using IH by blast
  qed
  with assms show ?thesis by (cases "receive_loop h mem k c") blast+
qed

text \<open>
  One attempt to receive a message that declares \<open>len\<close> bytes after its header: there is a block for
  the stream and one for the header, and none for the message.
\<close>

definition no_room :: "alloc \<Rightarrow> alloc \<Rightarrow> alloc \<Rightarrow> nat \<Rightarrow> bool" where
  "no_room a1 a2 a3 len \<longleftrightarrow> a1 sizeof_stream \<noteq> None \<and> alloc_ok a2 \<and> a2 8 \<noteq> None \<and> (\<forall>n \<ge> 5 + len. a3 n = None)"

lemma clzl_5: "clzl 5 = 61"
  by code_simp

lemma header_block:
  assumes "no_room a1 a2 a3 len"
  obtains b where "length b = 8"
    "stream_new a1 = Some \<lparr>s_buffer = None, s_pos = 0, s_length = 0, s_capacity = 0\<rparr>"
    "stream_ensure_remaining_capacity a2 5 \<lparr>s_buffer = None, s_pos = 0, s_length = 0, s_capacity = 0\<rparr> =
       Some (\<lparr>s_buffer = Some b, s_pos = 0, s_length = 0, s_capacity = 8\<rparr>, 0)"
proof -
  obtain b where b: "a2 8 = Some b" "length b = 8" using assms by (auto simp: no_room_def alloc_ok_def)
  then show thesis using assms
    by (intro that[of b]) (auto simp: no_room_def stream_new_def stream_ensure_remaining_capacity_def Let_def clzl_5)
qed

lemma no_message_block:
  assumes "no_room a1 a2 a3 len" "length b = 8" "3 < len" "len < 2 ^ 33"
  shows "stream_ensure_remaining_capacity a3 len
      \<lparr>s_buffer = Some b, s_pos = 5, s_length = 5, s_capacity = 8\<rparr> =
    Some (\<lparr>s_buffer = Some b, s_pos = 5, s_length = 5, s_capacity = 8\<rparr>, -1)"
proof -
  obtain nc where nc: "grow (len + 5) 8 = Some nc" using grow_terminates[of 8 "len + 5"] by auto
  have "len + 5 \<le> nc" using grow_bounds(3)[OF nc] assms(4) by auto
  moreover then have "a3 nc = None" using assms(1) by (simp add: no_room_def)
  ultimately show ?thesis using nc assms
    by (simp add: stream_ensure_remaining_capacity_def Let_def)
qed

lemma receive_header_no_memory:
  assumes inv: "rb_inv (receive_buffer c)" and cb: "has_receive_callback c" and w: "wanted_ib_size c = 0"
    and len: "5 \<le> length (received c)"
    and size: "unat (5 + (from_bytes (take 4 (drop 1 (received c))) :: u32)) \<le> length (received c)"
    and big: "3 < unat (from_bytes (take 4 (drop 1 (received c))) :: u32)"
    and room: "no_room (mem k) (mem (k + 1)) (mem (k + 2)) (unat (from_bytes (take 4 (drop 1 (received c))) :: u32))"
  shows "receive_step Little_Endian mem k c = Some (Inr (c, None, True))"
proof -
  let ?bs = "received c" and ?d = "from_bytes (take 4 (drop 1 (received c))) :: u32"
  obtain b0 where b0: "length b0 = 8"
    "stream_new (mem k) = Some \<lparr>s_buffer = None, s_pos = 0, s_length = 0, s_capacity = 0\<rparr>"
    "stream_ensure_remaining_capacity (mem (k + 1)) 5 \<lparr>s_buffer = None, s_pos = 0, s_length = 0, s_capacity = 0\<rparr> =
       Some (\<lparr>s_buffer = Some b0, s_pos = 0, s_length = 0, s_capacity = 8\<rparr>, 0)"
    using header_block[OF room] .
  let ?s1 = "\<lparr>s_buffer = Some b0, s_pos = 0, s_length = 0, s_capacity = 8\<rparr>"
  let ?b = "take 5 ?bs @ drop 5 b0"
  let ?s3 = "\<lparr>s_buffer = Some ?b, s_pos = 0, s_length = 5, s_capacity = 8\<rparr>"
  have copy: "copy_in (take 5 ?bs) ?s1 = Inr \<lparr>s_buffer = Some ?b, s_pos = 0, s_length = 0, s_capacity = 8\<rparr>"
    using len b0(1) by (simp add: copy_in_def)
  have rd: "reading ?s3 (take 5 ?bs) 0"
    using len b0(1) by (simp add: reading_def stream_inv_def stream_contents_def)
  note hd = header_bytes[OF len rd]
  have rest: "stream_ensure_remaining_capacity (mem (k + 2)) (unat ?d)
      \<lparr>s_buffer = Some ?b, s_pos = 5, s_length = 5, s_capacity = 8\<rparr> =
    Some (\<lparr>s_buffer = Some ?b, s_pos = 5, s_length = 5, s_capacity = 8\<rparr>, -1)"
    using big len b0(1) unsigned_less[of ?d, where ?'a = nat] by (intro no_message_block[OF room]) auto
  have "c\<lparr>wanted_ib_size := 0\<rparr> = c" using w by simp
  then show ?thesis using hd copy rest inv cb w len size b0(2,3)
    by (simp add: receive_step_def receive_header_def deliver_rest_def Let_def
        stream_set_length_def rb.qpeek_bytes rb.qsize_bytes)
qed

text \<open>An allocator that can provide small blocks only.\<close>

definition small_alloc :: alloc where
  "small_alloc n = (if n \<le> 64 then Some (replicate n 0) else None)"

lemma small_alloc_no_room: "59 < len \<Longrightarrow> no_room small_alloc small_alloc small_alloc len"
  by (simp add: no_room_def alloc_ok_def small_alloc_def sizeof_stream_def)

end
