(* ===== verification/Wire_Properties.thy ===== *)
theory Wire_Properties
  imports Framing_Faults Sending
begin

text \<open>
  The properties of the byte stream, the ring buffer and the connection, which together turn
  messages into bytes on the wire and back.
\<close>

definition example_alloc :: alloc where
  "example_alloc n = Some (replicate n 0)"

definition example_stream :: stream where
  "example_stream = \<lparr>s_buffer = Some (replicate 16 0), s_pos = 0, s_length = 0, s_capacity = 16\<rparr>"

definition example_ring :: ringbuffer where
  "example_ring = \<lparr>rb_buffer = Some [4, 5, 1, 2, 3], rb_capacity = 5, readpos = 2, writepos = 1\<rparr>"

lemma example_ok:
  "alloc_ok example_alloc" "mem_ok (\<lambda>k. example_alloc)" "writing example_stream [] 16" "stream_inv example_stream"
  "rb_inv example_ring" "rb_bytes example_ring = [1, 2, 3, 4]"
  by (auto simp: alloc_ok_def mem_ok_def example_alloc_def writing_def stream_inv_def stream_contents_def
      example_stream_def rb_inv_def rb_bytes_def example_ring_def)

text \<open>The sum of position and size wraps: the comparison is made with what is left of it.\<close>

lemma ensure_capacity_wrapped:
  assumes inv: "stream_inv s" and alloc: "alloc_ok alloc" and l: "0 < l" "l < 2 ^ 64" "2 ^ 64 \<le> l + s_pos s"
  shows "\<exists>s' ret. stream_ensure_remaining_capacity alloc l s = Some (s', ret) \<and>
    (ret = 0 \<and> (s_pos s' + l) mod 2 ^ 64 \<le> s_capacity s' \<and> s_capacity s \<le> s_capacity s' \<or> ret = -1 \<and> s' = s) \<and>
    stream_inv s' \<and> s_pos s' = s_pos s \<and> s_length s' = s_length s \<and> stream_contents s' = stream_contents s \<and>
    ((s_pos s + l) mod 2 ^ 64 \<le> s_capacity s \<longrightarrow> ret = 0 \<and> s' = s)"
proof -
  let ?w = "(l + s_pos s) mod 2 ^ 64"
  have "0 < s_pos s" using l by (auto intro: ccontr)
  then obtain b where Some: "s_buffer s = Some b" using inv by (auto simp: stream_inv_def split: option.splits)
  then have b: "length b = s_capacity s" "0 < s_capacity s" "s_capacity s < 2 ^ 64" "s_length s \<le> length b"
    using inv by (auto simp: stream_inv_def)
  show ?thesis
  proof (cases "s_capacity s < ?w")
    case False
    with Some l(1) inv show ?thesis by (simp add: stream_ensure_remaining_capacity_def add.commute)
  next
    case grow: True
    obtain nc where nc: "grow ?w (s_capacity s) = Some nc" using grow_terminates[OF b(2,3)] by blast
    note bounds = grow_bounds[OF nc b(3)]
    show ?thesis
      using Some l(1) grow nc bounds inv b alloc
      by (cases "alloc nc")
        (auto simp: stream_ensure_remaining_capacity_def stream_inv_def stream_contents_def alloc_ok_def Let_def add.commute)
  qed
qed

text \<open>
  C33: asking for capacity. For every size and position that an \<open>unsigned long\<close> holds,
  \<open>stream_ensure_remaining_capacity\<close> returns. It answers -1 and leaves the stream as it is, or it
  answers 0, keeps everything that was written and provides the room, as long as position plus size
  is less than $2^{64}$. The sum is not checked for overflow: if it wraps, the answer 0 means room
  for the wrapped sum only, and the stream is left as it is when that fits already.
\<close>

theorem ensure_capacity_spec:
  assumes "stream_inv s" "alloc_ok alloc" "l < 2 ^ 64"
  shows "\<exists>s' ret. stream_ensure_remaining_capacity alloc l s = Some (s', ret) \<and>
    (ret = 0 \<and> (0 < l \<longrightarrow> (s_pos s' + l) mod 2 ^ 64 \<le> s_capacity s') \<and>
       (0 < l \<and> s_pos s + l < 2 ^ 64 \<longrightarrow> s_pos s' + l \<le> s_capacity s') \<and> s_capacity s \<le> s_capacity s' \<or>
     ret = -1 \<and> s' = s) \<and>
    stream_inv s' \<and> s_pos s' = s_pos s \<and> s_length s' = s_length s \<and> stream_contents s' = stream_contents s \<and>
    (2 ^ 64 \<le> s_pos s + l \<and> (s_pos s + l) mod 2 ^ 64 \<le> s_capacity s \<longrightarrow> ret = 0 \<and> s' = s)"
proof (cases "l + s_pos s < 2 ^ 64")
  case True
  then have "(s_pos s + l) mod 2 ^ 64 = s_pos s + l" by (simp add: add.commute)
  with ensure_capacity_correct[OF assms(1,2) True] True show ?thesis by (auto simp: add.commute)
next
  case False
  show ?thesis
  proof (cases "l = 0")
    case True
    with assms(1) show ?thesis by (simp add: stream_ensure_remaining_capacity_def)
  next
    case l: False
    with ensure_capacity_wrapped[OF assms(1,2) _ assms(3)] False show ?thesis by (fastforce simp: add.commute)
  qed
qed

theorem ensure_capacity_spec_witness:
  "\<exists>s' ret. stream_ensure_remaining_capacity example_alloc 20 example_stream = Some (s', ret) \<and> stream_inv s' \<and>
     (ret = 0 \<longrightarrow> s_pos s' + 20 \<le> s_capacity s')"
  using ensure_capacity_spec[OF example_ok(4,1), of 20] by (auto simp: example_stream_def)

lemma write_read_word:
  assumes w: "writing s bs n" and n: "n = LENGTH('a) div 8" "8 * n = LENGTH('a)" "0 < n" "length bs + n < 2 ^ 63"
  shows "\<exists>s' s''. write_bytes (low_bytes n (htobe h (d :: 'a::len word))) s = Inr s' \<and>
    read_word n h (stream_seek (length bs) s') = Inr (d, s'')"
proof -
  let ?ds = "low_bytes n (htobe h d)"
  obtain s' where s': "write_bytes ?ds s = Inr s'" "writing s' (bs @ ?ds) 0"
    using write_bytes_ok[of s bs ?ds 0] w by auto
  have "bs @ ?ds \<noteq> []" using n(3) by (metis append_is_Nil_conv length_0_conv length_low_bytes less_numeral_extra(3))
  from writing_reading[OF s'(2) this, of "length bs"] n(4)
  have "reading (stream_seek (length bs) s') (bs @ ?ds) (length bs)" by simp
  from read_word_ok[OF this n(3), of h, where ?'a = 'a] n s'(1) letoh_htobe[OF n(1,2), of h d] show ?thesis
    by simp
qed

text \<open>
  Integers survive the stream. On a host of either byte order, what the three writers put
  at the end of a stream with enough capacity, the readers get back from there.
\<close>

theorem integer_round_trip:
  assumes "writing s bs 8" "length bs + 8 < 2 ^ 63"
  shows "(\<exists>s' s''. stream_write_uint16_t h d16 s = Inr s' \<and>
      stream_read_uint16_t h (stream_seek (length bs) s') = Inr (d16, s'')) \<and>
    (\<exists>s' s''. stream_write_uint32_t h d32 s = Inr s' \<and>
      stream_read_uint32_t h (stream_seek (length bs) s') = Inr (d32, s'')) \<and>
    (\<exists>s' s''. stream_write_uint64_t h d64 s = Inr s' \<and>
      stream_read_uint64_t h (stream_seek (length bs) s') = Inr (d64, s''))"
proof -
  have w: "writing s bs 2" "writing s bs 4" by (rule writing_weaken[OF assms(1)], simp)+
  have "\<exists>s' s''. write_bytes (low_bytes 2 (htobe h d16)) s = Inr s' \<and>
      read_word 2 h (stream_seek (length bs) s') = Inr (d16, s'')"
    by (rule write_read_word[OF w(1)]) (use assms(2) in simp_all)
  moreover have "\<exists>s' s''. write_bytes (low_bytes 4 (htobe h d32)) s = Inr s' \<and>
      read_word 4 h (stream_seek (length bs) s') = Inr (d32, s'')"
    by (rule write_read_word[OF w(2)]) (use assms(2) in simp_all)
  moreover have "\<exists>s' s''. write_bytes (low_bytes 8 (htobe h d64)) s = Inr s' \<and>
      read_word 8 h (stream_seek (length bs) s') = Inr (d64, s'')"
    by (rule write_read_word[OF assms(1)]) (use assms(2) in simp_all)
  ultimately show ?thesis
    unfolding stream_writes stream_read_uint16_t_def stream_read_uint32_t_def stream_read_uint64_t_def
    by blast
qed

theorem integer_round_trip_witness:
  "\<exists>s' s''. stream_write_uint32_t Little_Endian 258 example_stream = Inr s' \<and>
     stream_read_uint32_t Little_Endian (stream_seek 0 s') = Inr (258, s'')"
  using integer_round_trip[of example_stream "[]" Little_Endian 0 258 0] writing_weaken[OF example_ok(3), of 8]
  by simp

text \<open>
  The bytes on the wire depend on the host. On a little-endian host the writer puts the
  highest byte first, as \<open>stream.h\<close> says; on a big-endian host it puts the lowest byte
  first.
\<close>

theorem wire_byte_order:
  "stream_write_uint32_t Little_Endian d s = write_bytes (rev (low_bytes 4 d)) s \<and>
   stream_write_uint32_t Big_Endian d s = write_bytes (low_bytes 4 d) s \<and>
   low_bytes 4 (1 :: u32) = [1, 0, 0, 0]"
proof -
  have "low_bytes 4 (1 :: u32) = [1, 0, 0, 0]" by code_simp
  then show ?thesis by (simp add: stream_writes htobe_def low_bytes_byte_swap)
qed

text \<open>
  The ring buffer is a byte queue. Writing always returns; without an error the bytes are
  appended, with an error the contents are unchanged; \<open>ENOMEM\<close> only for sizes of $2^{63}$
  bytes.
\<close>

theorem ring_write_appends:
  assumes "rb_inv q" "alloc_ok alloc"
  shows "\<exists>q' e. rb_write alloc data q = Some (Inr (q', e)) \<and> rb_inv q' \<and>
    rb_bytes q' = rb_bytes q @ (if e = None then data else []) \<and>
    (e = Some ENOMEM \<longrightarrow> 2 ^ 63 \<le> rb_size q + length data + 1)"
  using rb_write_correct[OF assms, of data] by blast

theorem ring_write_appends_witness:
  "\<exists>q' e. rb_write example_alloc [9, 8, 7] example_ring = Some (Inr (q', e)) \<and>
     rb_bytes q' = [1, 2, 3, 4] @ (if e = None then [9, 8, 7] else [])"
  using ring_write_appends[OF example_ok(5,1), of "[9, 8, 7]", unfolded example_ok(6)] by blast

text \<open>
  Reading, peeking and removing. They never leave the block; \<open>read\<close> returns the first
  bytes and leaves the rest, in one step or in two, also around the end of the block.
\<close>

theorem ring_reads_in_order:
  assumes "rb_inv q"
  shows "rb_peek n q = Inr (take n (rb_bytes q)) \<and>
    (\<exists>q1 q2. rb_read n q = Inr (take n (rb_bytes q), q1) \<and>
      rb_read k q1 = Inr (take k (drop n (rb_bytes q)), q2) \<and>
      rb_inv q2 \<and> rb_bytes q2 = drop (n + k) (rb_bytes q) \<and> rb_size q2 = rb_size q - (n + k))"
  using assms
  by (simp add: rb.qpeek_bytes rb.qread_bytes rb.qremove_ok rb.qremove_bytes rb.qsize_bytes add.commute)

theorem ring_reads_in_order_witness: "rb_peek 4 example_ring = Inr [1, 2, 3, 4]"
  using ring_reads_in_order[OF example_ok(5), of 4 0] example_ok(6) by simp

text \<open>
  C34: receiving. With memory available and no declared length of $2^{32}$ bytes,
  \<open>data_in\<close> returns, hands exactly the complete messages to the callback, in order, and
  keeps the incomplete rest, whatever the connection had received before.
\<close>

theorem data_in_frames:
  assumes "conn_inv c" "has_receive_callback c" "mem_ok mem" "sane (received c @ bs)"
    and "length (received c @ bs) + 1 < 2 ^ 63"
  shows "\<exists>c' ms. data_in Little_Endian mem (Read_Bytes bs) c = Some (Inr (Inr (c', ms, True))) \<and>
    conn_inv c' \<and> received c' = snd (frames (received c @ bs)) \<and>
    map stream_contents ms = fst (frames (received c @ bs))"
proof -
  have "map stream_contents ms = xs" if "list_all2 (\<lambda>s m. reading s m 0) ms xs" for ms xs
    using that by (induction rule: list_all2_induct) (auto simp: reading_def)
  with data_in_correct[OF assms] show ?thesis by blast
qed

definition example_connection :: connection where
  "example_connection = set_receive_callback connection_new"

lemma example_message:
  "message_length [1, 0, 0, 0, 1] = 6" "message_length [1, 0, 0, 0, 1, 42] = 6"
proof -
  have "(from_bytes [0, 0, 0, 1] :: u32) = 1" by code_simp
  then show "message_length [1, 0, 0, 0, 1] = 6" "message_length [1, 0, 0, 0, 1, 42] = 6"
    by (simp_all add: message_length_def)
qed

lemma example_connection_ok:
  "conn_inv example_connection" "has_receive_callback example_connection" "received example_connection = []"
  "sane [1, 0, 0, 0, 1]" "sane [1, 0, 0, 0, 1, 42]" "frames [1, 0, 0, 0, 1] = ([], [1, 0, 0, 0, 1])"
  by (simp_all add: example_connection_def set_receive_callback_def connection_new_def conn_inv_def
      sane.simps[of "[1, 0, 0, 0, 1]"] sane.simps[of "[1, 0, 0, 0, 1, 42]"]
      frames.simps[of "[1, 0, 0, 0, 1]"] complete_def example_message)

theorem data_in_frames_witness:
  "\<exists>c' ms. data_in Little_Endian (\<lambda>k. example_alloc) (Read_Bytes [1, 0, 0, 0, 1]) example_connection =
     Some (Inr (Inr (c', ms, True))) \<and> received c' = [1, 0, 0, 0, 1] \<and> ms = []"
  using data_in_frames[OF example_connection_ok(1,2) example_ok(2), of "[1, 0, 0, 0, 1]"]
    example_connection_ok(3,4,6) by auto

text \<open>
  How the bytes are cut into reads does not matter. Two calls of \<open>data_in\<close> deliver
  the same messages and leave the same rest as one call with all the bytes.
\<close>

theorem data_in_chunks:
  assumes "conn_inv c" "has_receive_callback c" "mem_ok mem" "sane (received c @ bs @ cs)"
    and "length (received c @ bs @ cs) + 1 < 2 ^ 63"
  shows "\<exists>c1 ms1 c2 ms2 c3 ms3.
    data_in Little_Endian mem (Read_Bytes bs) c = Some (Inr (Inr (c1, ms1, True))) \<and>
    data_in Little_Endian mem (Read_Bytes cs) c1 = Some (Inr (Inr (c2, ms2, True))) \<and>
    data_in Little_Endian mem (Read_Bytes (bs @ cs)) c = Some (Inr (Inr (c3, ms3, True))) \<and>
    map stream_contents (ms1 @ ms2) = map stream_contents ms3 \<and> received c2 = received c3"
proof -
  have eq: "map stream_contents ms = xs" if "list_all2 (\<lambda>s m. reading s m 0) ms xs" for ms xs
    using that by (induction rule: list_all2_induct) (auto simp: reading_def)
  have sane: "sane (received c @ bs)" "sane (snd (frames (received c @ bs)) @ cs)"
    using sane_append[of "received c @ bs" cs] assms(4) by simp_all
  obtain c1 ms1 where 1: "data_in Little_Endian mem (Read_Bytes bs) c = Some (Inr (Inr (c1, ms1, True)))"
    "conn_inv c1" "has_receive_callback c1" "received c1 = snd (frames (received c @ bs))"
    "map stream_contents ms1 = fst (frames (received c @ bs))"
    using data_in_correct[OF assms(1-3) sane(1)] assms(5) eq by fastforce
  have len: "length (received c1 @ cs) + 1 < 2 ^ 63"
    using frames_rest_length[of "received c @ bs"] assms(5) 1(4) by simp
  obtain c2 ms2 where 2: "data_in Little_Endian mem (Read_Bytes cs) c1 = Some (Inr (Inr (c2, ms2, True)))"
    "received c2 = snd (frames (received c1 @ cs))" "map stream_contents ms2 = fst (frames (received c1 @ cs))"
    using data_in_correct[OF 1(2,3) assms(3) _ len] sane(2) 1(4) eq by fastforce
  obtain c3 ms3 where 3: "data_in Little_Endian mem (Read_Bytes (bs @ cs)) c = Some (Inr (Inr (c3, ms3, True)))"
    "received c3 = snd (frames (received c @ bs @ cs))" "map stream_contents ms3 = fst (frames (received c @ bs @ cs))"
    using data_in_correct[OF assms(1-5)] eq by fastforce
  from 1 2 3 frames_append[of "received c @ bs" cs] show ?thesis by (auto split: prod.splits)
qed

theorem data_in_chunks_witness:
  "\<exists>c1 ms1 c2 ms2.
    data_in Little_Endian (\<lambda>k. example_alloc) (Read_Bytes [1, 0, 0, 0, 1]) example_connection =
      Some (Inr (Inr (c1, ms1, True))) \<and>
    data_in Little_Endian (\<lambda>k. example_alloc) (Read_Bytes [42]) c1 = Some (Inr (Inr (c2, ms2, True)))"
  using data_in_chunks[OF example_connection_ok(1,2) example_ok(2), of "[1, 0, 0, 0, 1]" "[42]"]
    example_connection_ok(3,5) by auto

text \<open>
  Sending. Whatever the operating system accepts of each \<open>write\<close>, the bytes that left
  the connection followed by those still queued are the bytes that were queued: nothing is lost,
  repeated or reordered.
\<close>

theorem sending_in_order:
  assumes "\<forall>s \<in> set (send_queue c). sendable s" "write_results_ok ws c"
  shows "\<exists>c' out. write_out ws c = Inr (c', out) \<and> out @ to_send c' = to_send c"
  by (rule write_out_correct[OF assms])

theorem sending_in_order_witness:
  "\<exists>c' out. write_out [Write_Again] example_connection = Inr (c', out) \<and> out @ to_send c' = []"
  using sending_in_order[of example_connection "[Write_Again]"]
  by (simp add: example_connection_def set_receive_callback_def connection_new_def write_result_ok_def
      data_out_def to_send_def)

text \<open>
  C38: the receive loop can spin for ever. If a message counts as complete, that is, 5 plus its
  declared length, computed in 32 bits, is at most the number of bytes received, if it has more
  than three bytes, and if at every attempt the blocks for the stream and for the header can be allocated but not the larger one for
  the message, then the loop reports progress without consuming anything and never ends, and with it
  the event loop of the program.
\<close>

theorem receive_loop_spins:
  assumes "rb_inv (receive_buffer c)" "has_receive_callback c" "wanted_ib_size c = 0"
    and "5 \<le> length (received c)" "len = (from_bytes (take 4 (drop 1 (received c))) :: u32)"
    and "unat (5 + len) \<le> length (received c)" "3 < unat len"
    and "\<And>j. no_room (mem (k + 3 * j)) (mem (k + 3 * j + 1)) (mem (k + 3 * j + 2)) (unat len)"
  shows "receive_loop Little_Endian mem k c = None"
  using assms by (intro receive_loop_diverges receive_header_no_memory) simp_all

theorem receive_loop_spins_witness:
  "receive_loop Little_Endian (\<lambda>k. small_alloc) 0
     (example_connection\<lparr>receive_buffer :=
        \<lparr>rb_buffer = Some ([1, 0, 0, 0, 60] @ replicate 61 0), rb_capacity = 66, readpos = 0, writepos = 65\<rparr>\<rparr>) = None"
proof -
  have "(60 :: u32) = from_bytes [0, 0, 0, 60]" "unat (60 :: u32) = 60" "unat (5 + 60 :: u32) = 65" by code_simp+
  then show ?thesis
    by (intro receive_loop_spins[where len = 60])
      (simp_all add: example_connection_def set_receive_callback_def connection_new_def rb_inv_def rb_bytes_def
        small_alloc_no_room)
qed

end
