(* ===== verification/Daemon_Properties.thy ===== *)
theory Daemon_Properties
  imports Delivery Server_Properties Wire_Properties
begin

text \<open>
  The properties of the daemon and of the whole server: what a message causes, what leaves the
  server, and mutual exclusion for every run of the event loop.
\<close>

subsection \<open>Keeping the invariants\<close>

lemma respond_good:
  assumes "respond arrange c m d = Ok (b', outs)" "backend_good (daemon_backend d)"
  shows "backend_good b'"
proof -
  have len: "length (msg_path m) < 2 ^ 16"
    using msg_path_length_bound[of m] by (auto simp: msg_path_def string_of_bytes_def)
  have b0: "backend_good (update_pid_connection (daemon_backend d) (msg_pid m) c)"
    using assms(2) by (rule backend_good_update)
  show ?thesis
    using assms len b0
    by (auto simp: respond_def Let_def andthen_Ok_iff checked_Ok ended_Ok split: if_splits sum.splits
        intro: backend_good_update backend_good_register
        dest: backend_good_unregister backend_good_create backend_good_acquire backend_good_release)
qed

subsection \<open>An example\<close>

text \<open>
  Process 0 was seen on connection 4 and holds an X lock on \<open>a.b\<close>; process 1 was seen on
  connection 8 and waits for an S lock on \<open>a\<close>. Process 0 sends its release message.
\<close>

definition example_backend :: backend where
  "example_backend = update_pid_connection (update_pid_connection example_state 0 4) 1 8"

definition example_daemon :: daemon where
  "example_daemon =
     \<lparr>daemon_backend = example_backend,
      polled_fds = [(4, TCP_Connection_create 1 2), (8, TCP_Connection_create 3 4)]\<rparr>"

definition release_bytes :: "byte list" where
  "release_bytes = [0x0D, 0, 0, 0, 10, 0, 0, 0, 0, 0, 3, 97, 46, 98, 2]"

definition stream_of :: "byte list \<Rightarrow> stream" where
  "stream_of m = \<lparr>s_buffer = Some m, s_pos = 0, s_length = length m, s_capacity = length m\<rparr>"

definition example_memory :: memory where
  "example_memory k = example_alloc"

lemma backend_run_good:
  "backend_run ops b = Some b' \<Longrightarrow> backend_good b \<Longrightarrow>
   \<forall>p \<in> set ops. (case p of Create i s x \<Rightarrow> length s < 2 ^ 16 | Acquire i s m \<Rightarrow> length s < 2 ^ 16 | _ \<Rightarrow> True) \<Longrightarrow>
   backend_good b'"
proof (induction ops arbitrary: b)
  case (Cons p ops)
  from Cons.prems(1) obtain b1 where b1: "perform p b = Some b1" "backend_run ops b1 = Some b'"
    by (auto simp: bind_eq_Some_conv)
  have "backend_good b1"
    using b1(1) Cons.prems(2,3)
    by (cases p) (auto simp: result_state_def split: sum.splits intro: backend_good_ops)
  with Cons b1(2) show ?case by simp
qed simp

lemma example_backend_good: "backend_good example_backend"
  unfolding example_backend_def
  by (intro backend_good_update backend_run_good[OF example_state_facts(1)]) (simp_all add: example_run_def)

lemma example_message_in:
  "message_in (stream_of release_bytes) release_bytes" "well_formed release_bytes"
proof -
  show "message_in (stream_of release_bytes) release_bytes"
    by (simp add: message_in_def stream_of_def release_bytes_def reading_def stream_inv_def stream_contents_def)
  have "(from_bytes [0, 3] :: u16) = 3" by code_simp
  then show "well_formed release_bytes"
    by (simp add: well_formed_def msg_path_length_def release_bytes_def)
qed

lemma example_table:
  "Processes (Process_table example_backend) =
     [(0, \<lparr>proc_id = 0, held_locks = [(''a.b'', 2)], tcp_conn = Some 4\<rparr>),
      (1, \<lparr>proc_id = 1, held_locks = [(''a'', 0)], tcp_conn = Some 8\<rparr>)]"
  by code_simp

lemma example_locks: "map (\<lambda>(l, k). length (name_of l)) (for_each_lock (Forest example_backend)) = [1, 1]"
  by code_simp

lemma length_concat_entries:
  "(\<forall>x \<in> set xs. length (f x) \<le> k) \<Longrightarrow> length (concat (map f xs)) \<le> k * length xs"
  by (induction xs) auto

lemma example_listings: "listings_small example_daemon"
proof -
  have c: "length (connections_body example_daemon) \<le> 7 * 2"
    using length_concat_entries[of "map snd (polled_fds example_daemon)" connection_entry 7]
    by (simp add: connections_body_def example_daemon_def connection_entry_def)
  have p: "length (processes_body example_daemon) \<le> 8 * 2"
    using length_concat_entries[of "for_each_process (Process_table example_backend)" process_entry 8]
    by (simp add: processes_body_def example_daemon_def process_entry_def for_each_process_def example_table)
  have "\<forall>ll \<in> set (for_each_lock (Forest example_backend)). length (name_of (fst ll)) = 1"
    "length (for_each_lock (Forest example_backend)) = 2"
    using example_locks by (auto simp: map_eq_Cons_conv)
  then have l: "length (locks_body example_daemon) \<le> 8 * 2"
    using length_concat_entries[of "for_each_lock (Forest example_backend)" lock_entry 8]
    by (simp add: locks_body_def example_daemon_def lock_entry_def path_field_def)
  have "length (held_locks_body example_daemon pid) \<le> 12" for pid
    by (simp add: held_locks_body_def example_daemon_def find_process_def example_table get_held_locks_def
        held_lock_entry_def path_field_def)
  then have "length (held_locks_body example_daemon pid) + 5 < 2 ^ 32" for pid
    by (rule order.strict_trans1[OF add_right_mono]) simp
  with c p l show ?thesis by (simp add: listings_small_def)
qed

lemma example_memory_good: "mem_good oom example_memory"
  by (simp add: mem_good_def alloc_good_def alloc_ok_def example_memory_def example_alloc_def)

lemma example_daemon_good: "backend_good (daemon_backend example_daemon)"
  by (simp add: example_daemon_def example_backend_good)

lemmas example_facts = example_message_in example_daemon_good example_listings

subsection \<open>Handling a message\<close>

lemma receive_message_correct:
  assumes "mem_good oom mem" "message_in s m" "well_formed m" "backend_good (daemon_backend d)" "listings_small d"
    and "\<forall>xs. set (arrange xs) = set xs"
  shows "ensures oom (m ! 0 = MSG_ID_UNREG_PROC)
    (\<lambda>d'. \<exists>b0. handled oom (respond arrange c m d) d b0 d' \<and>
       (b0 = daemon_backend d \<or> b0 = update_pid_connection (daemon_backend d) (msg_pid m) c))
    (receive_message Little_Endian mem arrange c s d)"
  using receive_message_rule[of oom mem s m d arrange] assms by (simp add: backend_good_def)

text \<open>
  C2: the daemon implements its specification. With memory available, a well-formed message is
  handled without undefined behaviour and without terminating the server (only unregistering may
  not return); the new backend and the messages queued on every connection are exactly those of
  \<open>respond\<close>.
\<close>

theorem daemon_refines:
  assumes "mem_good False mem" "message_in s m" "well_formed m" "backend_good (daemon_backend d)" "listings_small d"
    and "\<forall>xs. set (arrange xs) = set xs"
  shows "ensures False (m ! 0 = MSG_ID_UNREG_PROC)
    (\<lambda>d'. \<exists>outs. respond arrange c m d = Ok (daemon_backend d', outs) \<and>
       (\<forall>c'. outbox d' c' =
          outbox d c' @ (if is_open d c' then map snd (filter (\<lambda>(x, y). x = c') outs) else [])))
    (receive_message Little_Endian mem arrange c s d)"
  using receive_message_correct[OF assms]
proof (rule ensures_mono)
  fix d'
  assume "\<exists>b0. handled False (respond arrange c m d) d b0 d' \<and>
    (b0 = daemon_backend d \<or> b0 = update_pid_connection (daemon_backend d) (msg_pid m) c)"
  then obtain outs where "respond arrange c m d = Ok (daemon_backend d', outs)" "posted d outs d'"
    by (auto simp: handled_def complete_or_oom_def)
  with outbox_posted(1) show "\<exists>outs. respond arrange c m d = Ok (daemon_backend d', outs) \<and>
      (\<forall>c'. outbox d' c' =
         outbox d c' @ (if is_open d c' then map snd (filter (\<lambda>(x, y). x = c') outs) else []))" by blast
qed

theorem daemon_refines_witness:
  "ensures False False
    (\<lambda>d'. \<exists>outs. respond id 4 release_bytes example_daemon = Ok (daemon_backend d', outs) \<and>
       (\<forall>c'. outbox d' c' = outbox example_daemon c' @
          (if is_open example_daemon c' then map snd (filter (\<lambda>(x, y). x = c') outs) else [])))
    (receive_message Little_Endian example_memory id 4 (stream_of release_bytes) example_daemon)"
  using daemon_refines[OF example_memory_good example_facts, of id 4] by (simp add: release_bytes_def)

text \<open>
  C6: the daemon is safe in every memory situation. However \<open>malloc\<close> fails, a well-formed
  message causes no undefined behaviour; the invariants of the backend hold afterwards, every
  connection keeps what it had queued, and whatever was added is a sequence of complete frames.
\<close>

theorem daemon_safe:
  assumes "mem_good True mem" "message_in s m" "well_formed m" "backend_good (daemon_backend d)" "listings_small d"
    and "\<forall>xs. set (arrange xs) = set xs"
  shows "ensures True (m ! 0 = MSG_ID_UNREG_PROC)
    (\<lambda>d'. backend_good (daemon_backend d') \<and>
       (\<forall>c'. \<exists>new. outbox d' c' = outbox d c' @ new \<and> (\<forall>x \<in> set new. framed x)))
    (receive_message Little_Endian mem arrange c s d)"
  using receive_message_correct[OF assms]
proof (rule ensures_mono)
  fix d'
  assume "\<exists>b0. handled True (respond arrange c m d) d b0 d' \<and>
    (b0 = daemon_backend d \<or> b0 = update_pid_connection (daemon_backend d) (msg_pid m) c)"
  then consider (sent) outs outs' where "respond arrange c m d = Ok (daemon_backend d', outs)" "posted d outs' d'"
      "set outs' \<subseteq> set outs"
    | (dropped) "backend_good (daemon_backend d')" "posted d [] d'"
    using assms(4) backend_good_update[OF assms(4), of "msg_pid m" c]
    by (auto simp: handled_def complete_or_oom_def dest: list_emb_set)
  then show "backend_good (daemon_backend d') \<and>
      (\<forall>c'. \<exists>new. outbox d' c' = outbox d c' @ new \<and> (\<forall>x \<in> set new. framed x))"
  proof cases
    case sent
    have "\<forall>(c', x) \<in> set outs. framed x"
      by (rule respond_framed[OF sent(1) assms(3) _ assms(5) _ _ assms(6)])
        (use assms(2,4) in \<open>auto simp: message_in_def backend_good_def\<close>)
    then have "\<forall>x \<in> set (map snd (filter (\<lambda>(x, y). x = c') outs')). framed x" for c'
      using sent(3) by auto
    then have "\<exists>new. outbox d' c' = outbox d c' @ new \<and> (\<forall>x \<in> set new. framed x)" for c'
      using outbox_posted(1)[OF sent(2), of c']
      by (intro exI[of _ "if is_open d c' then map snd (filter (\<lambda>(x, y). x = c') outs') else []"]) auto
    with respond_good[OF sent(1) assms(4)] show ?thesis by blast
  next
    case dropped
    with outbox_posted(1)[OF dropped(2)] show ?thesis by auto
  qed
qed

theorem daemon_safe_witness:
  "ensures True False
    (\<lambda>d'. backend_good (daemon_backend d') \<and>
       (\<forall>c'. \<exists>new. outbox d' c' = outbox example_daemon c' @ new \<and> (\<forall>x \<in> set new. framed x)))
    (receive_message Little_Endian example_memory id 4 (stream_of release_bytes) example_daemon)"
  using daemon_safe[OF example_memory_good example_facts, of id 4] by (simp add: release_bytes_def)

lemma in_updates:
  assumes "r \<in> set rs" "requester_exists r" "find_process (Process_table (daemon_backend d)) (requester r) = Some p"
    and "get_tcp_conn p = Some uc" "is_open d uc"
  shows "(uc, update_message p r) \<in> set (updates d rs)"
  using assms
proof (induction rs)
  case (Cons a rs)
  show ?case
  proof (cases "a = r")
    case True
    with Cons.prems(2-) show ?thesis by simp
  next
    case False
    with Cons have "(uc, update_message p r) \<in> set (updates d rs)" by simp
    then show ?thesis unfolding updates.simps set_append by (rule UnI2)
  qed
qed simp

text \<open>
  C7: nobody waits in vain. When a release answers a request of a process that still exists and
  whose connection is open, the notification with the outcome is queued on that connection.
\<close>

theorem granted_request_notified:
  assumes "mem_good False mem" "message_in s m" "well_formed m" "backend_good (daemon_backend d)" "listings_small d"
    and "\<forall>xs. set (arrange xs) = set xs" "m ! 0 = MSG_ID_RELEASE_LOCK"
    and "release_lock (update_pid_connection (daemon_backend d) (msg_pid m) c) (msg_pid m) (msg_path m) (msg_byte m) =
      Inr (b', status, ans)"
    and "r \<in> set ans" "requester_exists r" "find_process (Process_table b') (requester r) = Some p"
    and "get_tcp_conn p = Some uc" "is_open d uc"
  shows "ensures False False (\<lambda>d'. update_message p r \<in> set (outbox d' uc))
    (receive_message Little_Endian mem arrange c s d)"
proof -
  have "ensures False False
      (\<lambda>d'. \<exists>b0. handled False (respond arrange c m d) d b0 d' \<and>
         (b0 = daemon_backend d \<or> b0 = update_pid_connection (daemon_backend d) (msg_pid m) c))
      (receive_message Little_Endian mem arrange c s d)"
    using receive_message_correct[OF assms(1-6), of c] assms(7) by simp
  then show ?thesis
  proof (rule ensures_mono)
    fix d'
    assume "\<exists>b0. handled False (respond arrange c m d) d b0 d' \<and>
      (b0 = daemon_backend d \<or> b0 = update_pid_connection (daemon_backend d) (msg_pid m) c)"
    then obtain outs where o: "respond arrange c m d = Ok (daemon_backend d', outs)" "posted d outs d'"
      by (auto simp: handled_def complete_or_oom_def)
    from o(1) have "set (updates (d\<lparr>daemon_backend := b'\<rparr>) (arrange ans)) \<subseteq> set outs"
      using assms(7,8) by (auto simp: respond_def Let_def)
    moreover have "(uc, update_message p r) \<in> set (updates (d\<lparr>daemon_backend := b'\<rparr>) (arrange ans))"
      using assms(6,9-13) by (intro in_updates) simp_all
    ultimately have "(uc, update_message p r) \<in> set outs" by blast
    then have "update_message p r \<in> set (map snd (filter (\<lambda>(x, y). x = uc) outs))" by force
    with outbox_posted(1)[OF o(2), of uc] assms(13) show "update_message p r \<in> set (outbox d' uc)" by simp
  qed
qed

definition example_answer :: lock_request where
  "example_answer =
     (case release_lock (update_pid_connection example_backend 0 4) 0 ''a.b'' 2 of
        Inr (b, status, ans) \<Rightarrow> hd ans | Inl e \<Rightarrow> undefined)"

lemma example_release:
  "\<exists>b' status. release_lock (update_pid_connection example_backend 0 4) 0 ''a.b'' 2 = Inr (b', status, [example_answer]) \<and>
     find_process (Process_table b') 1 = Some \<lparr>proc_id = 1, held_locks = [(''a'', 0)], tcp_conn = Some 8\<rparr>"
  "requester_exists example_answer" "requester example_answer = 1"
proof -
  have c: "case release_lock (update_pid_connection example_backend 0 4) 0 ''a.b'' 2 of
      Inl e \<Rightarrow> False
    | Inr (b', status, ans) \<Rightarrow>
        find_process (Process_table b') 1 = Some \<lparr>proc_id = 1, held_locks = [(''a'', 0)], tcp_conn = Some 8\<rparr> \<and>
        map (\<lambda>r. (requester_exists r, requester r)) ans = [(True, 1)]"
    by code_simp
  then show "\<exists>b' status. release_lock (update_pid_connection example_backend 0 4) 0 ''a.b'' 2 =
       Inr (b', status, [example_answer]) \<and>
     find_process (Process_table b') 1 = Some \<lparr>proc_id = 1, held_locks = [(''a'', 0)], tcp_conn = Some 8\<rparr>"
    and "requester_exists example_answer" and "requester example_answer = 1"
    by (auto simp: example_answer_def split: sum.splits prod.splits)
qed

theorem granted_request_notified_witness:
  "ensures False False
    (\<lambda>d'. update_message \<lparr>proc_id = 1, held_locks = [(''a'', 0)], tcp_conn = Some 8\<rparr> example_answer \<in> set (outbox d' 8))
    (receive_message Little_Endian example_memory id 4 (stream_of release_bytes) example_daemon)"
proof -
  obtain b' status where r: "release_lock (update_pid_connection example_backend 0 4) 0 ''a.b'' 2 =
      Inr (b', status, [example_answer])"
    "find_process (Process_table b') 1 = Some \<lparr>proc_id = 1, held_locks = [(''a'', 0)], tcp_conn = Some 8\<rparr>"
    using example_release(1) by blast
  have "msg_pid release_bytes = 0" "msg_path release_bytes = ''a.b''" "msg_byte release_bytes = 2" by code_simp+
  then have rel: "release_lock (update_pid_connection (daemon_backend example_daemon) (msg_pid release_bytes) 4)
      (msg_pid release_bytes) (msg_path release_bytes) (msg_byte release_bytes) = Inr (b', status, [example_answer])"
    using r(1) by (simp add: example_daemon_def)
  show ?thesis
    by (rule granted_request_notified[OF example_memory_good example_facts _ _ rel, of _ example_answer])
      (use r(2) example_release(2,3) in \<open>simp_all add: release_bytes_def get_tcp_conn_def is_open_def example_daemon_def\<close>)
qed

text \<open>
  C39: a client can make the server read outside its memory. A lock message that declares a longer
  path than the block that holds the message runs into undefined behaviour, whatever the state of
  the server is.
\<close>

theorem path_read_out_of_bounds:
  assumes "message_in s m" "11 \<le> length m" "s_capacity s < 11 + msg_path_length m"
    and "m ! 0 \<in> {MSG_ID_CREATE_LOCK, MSG_ID_RELEASE_LOCK, MSG_ID_ACQUIRE_LOCK}"
  shows "receive_message Little_Endian mem arrange c s d = Undefined Out_Of_Bounds"
proof -
  have r: "reading s m 0" "length m < 2 ^ 63" "m \<noteq> []" using assms(1,2) by (auto simp: message_in_def)
  have r1: "reading (s\<lparr>s_pos := Suc 0\<rparr>) m (Suc 0)" and r5: "reading (s\<lparr>s_pos := 5\<rparr>) m 5"
    and r9: "reading (s\<lparr>s_pos := 9\<rparr>) m 9" and r11: "reading (s\<lparr>s_pos := 11\<rparr>) m 11"
    using r assms(2) by (auto intro: reading_at)
  have "stream_read_uint8_t s = Inr (m ! 0, s\<lparr>s_pos := Suc 0\<rparr>)" using read_uint8_ok[OF r(1)] r(3) by simp
  moreover have "stream_read_uint32_t Little_Endian (s\<lparr>s_pos := Suc 0\<rparr>) = Inr (msg_length m, s\<lparr>s_pos := 5\<rparr>)"
    using read32_eq[OF r1] assms(2) by (simp add: msg_length_def)
  moreover have "stream_read_uint32_t Little_Endian (s\<lparr>s_pos := 5\<rparr>) = Inr (msg_pid m, s\<lparr>s_pos := 9\<rparr>)"
    using read32_eq[OF r5] assms(2) by (simp add: msg_pid_def)
  moreover have "stream_read_uint16_t Little_Endian (s\<lparr>s_pos := 9\<rparr>) =
      Inr (of_nat (msg_path_length m), s\<lparr>s_pos := 11\<rparr>)"
    using read16_eq[OF r9] assms(2) by (simp add: msg_path_length_def)
  moreover have "read_path (msg_path_length m) (s\<lparr>s_pos := 11\<rparr>) = Inl Out_Of_Bounds"
    using r11 assms(2,3) by (auto simp: read_path_def reading_def stream_inv_def split: option.splits)
  ultimately show ?thesis
    using assms(4)
    by (auto simp: receive_message_def receive_message_create_lock_def receive_message_release_lock_def
        receive_message_acquire_lock_def read_lock_message_def small_path_length)
qed

definition overlong_bytes :: "byte list" where
  "overlong_bytes = [0x0F, 0, 0, 0, 6, 0, 0, 0, 0, 255, 255]"

theorem path_read_out_of_bounds_witness:
  "receive_message Little_Endian example_memory id 4 (stream_of overlong_bytes) example_daemon = Undefined Out_Of_Bounds"
proof (rule path_read_out_of_bounds)
  show "message_in (stream_of overlong_bytes) overlong_bytes"
    by (simp add: message_in_def stream_of_def overlong_bytes_def reading_def stream_inv_def stream_contents_def)
  have "(from_bytes [255, 255] :: u16) = 0xFFFF" by code_simp
  then show "s_capacity (stream_of overlong_bytes) < 11 + msg_path_length overlong_bytes"
    by (simp add: stream_of_def overlong_bytes_def msg_path_length_def)
qed (simp_all add: overlong_bytes_def)

subsection \<open>From connection to connection\<close>

text \<open>
  C10: end to end. When all the messages queued on a connection have been written, in pieces of any
  size, the connection at the other end that reads these bytes hands exactly these messages to its
  callback, in order, and has nothing left over.
\<close>

theorem messages_delivered:
  assumes "\<forall>s \<in> set (send_queue c). sendable s \<and> s_pos s = 0 \<and> framed (stream_contents s)"
    and "write_results_ok ws c" "write_out ws c = Inr (c', out)" "send_queue c' = []"
    and "conn_inv r" "has_receive_callback r" "received r = []" "mem_ok mem" "length out + 1 < 2 ^ 63"
  shows "\<exists>r' ms. data_in Little_Endian mem (Read_Bytes out) r = Some (Inr (Inr (r', ms, True))) \<and>
    map stream_contents ms = map stream_contents (send_queue c) \<and> received r' = [] \<and> conn_inv r'"
  by (rule delivered[OF assms])

definition five_bytes :: "byte list" where
  "five_bytes = [9, 0, 0, 0, 0]"

definition sender :: connection where
  "sender = send (stream_of five_bytes) connection_new"

lemma five_bytes_framed: "framed five_bytes"
proof -
  have "message_length five_bytes = 5" unfolding five_bytes_def message_length_def by code_simp
  moreover have "length five_bytes = 5" by (simp add: five_bytes_def)
  ultimately show ?thesis
    by (simp add: framed_def frames.simps[of five_bytes] frames.simps[of "[]"] complete_def)
qed

theorem messages_delivered_witness:
  "\<exists>r' ms. data_in Little_Endian example_memory (Read_Bytes five_bytes) example_connection =
     Some (Inr (Inr (r', ms, True))) \<and> map stream_contents ms = [five_bytes] \<and> received r' = []"
proof -
  have q: "send_queue sender = [stream_of five_bytes]" "stream_contents (stream_of five_bytes) = five_bytes"
    "sendable (stream_of five_bytes)" "s_pos (stream_of five_bytes) = 0"
    by (simp_all add: sender_def send_def connection_new_def stream_of_def stream_seek_def stream_contents_def
        sendable_def stream_inv_def five_bytes_def)
  have w: "write_results_ok [Wrote 2, Wrote 3] sender"
    "write_out [Wrote 2, Wrote 3] sender =
       Inr (sender\<lparr>send_queue := [], out_enabled := False\<rparr>, five_bytes)"
    by (simp_all add: sender_def send_def connection_new_def stream_of_def stream_seek_def five_bytes_def
        write_result_ok_def data_out_def send_bytes_def peek_block_def stream_remaining_length_def unsent_def
        stream_contents_def Let_def)
  have a: "\<forall>s \<in> set (send_queue sender). sendable s \<and> s_pos s = 0 \<and> framed (stream_contents s)"
    using q five_bytes_framed by simp
  have m: "mem_ok example_memory" using example_ok(2) by (simp add: example_memory_def[abs_def])
  have l: "length five_bytes + 1 < 2 ^ 63" by (simp add: five_bytes_def)
  from messages_delivered[OF a w _ example_connection_ok(1-3) m l] q(1,2) show ?thesis by auto
qed

subsection \<open>The server\<close>

text \<open>
  C1: mutual exclusion on the network. Start the server and let it run through any sequence of
  connection attempts, interrupted calls, received bytes (well-formed or not), partial writes,
  failing allocations and closed connections: as long as it runs, no two granted locks conflict.
\<close>

theorem server_conflict_free:
  assumes "daemon_run h listener_ok st polls server_new = Ok (sv, ret)"
  shows "conflict_free (forest_granted (Forest (daemon_backend (the_daemon sv))))"
proof -
  have "backend_reachable (daemon_backend (the_daemon server_new))"
    by (simp add: server_new_def daemon_new_def reachable_init)
  from daemon_run_sound[OF this, of h listener_ok st polls] assms
  have "backend_reachable (daemon_backend (the_daemon sv))" by simp
  then have "backend_inv (daemon_backend (the_daemon sv))" by (rule backend_sys.inv_reachable)
  then show ?thesis by (simp add: backend_inv_def forest_conflict_free)
qed

definition idle_event :: conn_event where
  "idle_event =
     \<lparr>ev_in = True, ev_out = True, ev_err = False, ev_read = Read_Again, ev_write = Write_Again,
      ev_memory = example_memory, ev_message_memory = (\<lambda>k. example_memory), ev_arrange = id\<rparr>"

definition example_polls :: "poll_result list" where
  "example_polls = [Poll_Listener (Accepted 1 2) 4 True, Poll_Connection 4 idle_event, Poll_Interrupted True]"

definition setup_ok :: setup_result where
  "setup_ok = \<lparr>epoll_create_ok = True, epoll_adds_ok = True, eventfd_ok = True\<rparr>"

lemma example_server_run:
  "\<exists>sv. daemon_run Little_Endian True setup_ok example_polls server_new = Ok (sv, Some True)"
  unfolding example_polls_def
  by (simp add: daemon_run_def main_loop_def setup_ok_def poll_loop.simps server_new_def daemon_new_def
      listener_data_in_def add_polled_fd_def Let_def handle_event_def idle_event_def connection_data_in_def data_in_def
      connection_data_out_def data_out_def TCP_Connection_create_def connection_new_def set_receive_callback_def
      set_conn_state_def close_unless_def request_quit_def)

theorem server_conflict_free_witness:
  "\<exists>sv. daemon_run Little_Endian True setup_ok example_polls server_new = Ok (sv, Some True) \<and>
     conflict_free (forest_granted (Forest (daemon_backend (the_daemon sv))))"
  using example_server_run server_conflict_free by blast

lemma poll_loop_returns: "poll_loop h polls sv = Ok (sv', Some r) \<Longrightarrow> r"
proof (induction polls arbitrary: sv)
  case (Cons p polls)
  from Cons.prems show ?case
    by (subst (asm) poll_loop.simps)
      (auto simp: andthen_Ok_iff split: if_splits poll_result.splits dest: Cons.IH)
qed (subst (asm) poll_loop.simps, simp split: if_splits)

text \<open>
  The event loop reports success in any case. Once the descriptors are set up, what
  \<open>main_loop\<close> returns is \<open>true\<close>, also if \<open>epoll_wait\<close> failed; \<open>false\<close>
  means that the preparation failed and no event was handled.
\<close>

theorem main_loop_reports_success:
  assumes "main_loop h st polls sv = Ok (sv', Some r)"
  shows "(r \<longleftrightarrow> epfd_open sv \<or> epoll_create_ok st \<and> epoll_adds_ok st) \<and> (\<not> r \<longrightarrow> sv' = sv)"
  using assms poll_loop_returns[of h polls "sv\<lparr>epfd_open := True\<rparr>" sv' r]
  by (auto simp: main_loop_def Let_def split: if_splits)

theorem main_loop_reports_success_witness:
  "main_loop Little_Endian setup_ok [Poll_Error] server_new =
     Ok (server_new\<lparr>epfd_open := True\<rparr>, Some True)"
proof -
  have "main_loop Little_Endian setup_ok [Poll_Error] server_new =
      Ok (server_new\<lparr>epfd_open := True\<rparr>, Some (\<not> quit_requested server_new))"
    by (simp add: main_loop_def setup_ok_def poll_loop.simps server_new_def)
  with main_loop_reports_success[OF this] show ?thesis by (simp add: setup_ok_def)
qed

end
