(* ===== verification/Client_Properties.thy ===== *)
theory Client_Properties
  imports Client_Server Daemon_Properties
begin

text \<open>
  The properties of the client library: its messages, what becomes of its requests, and calls that
  go to the server and back.
\<close>

subsection \<open>An example\<close>

text \<open>Process 1 acquires an X lock on \<open>a.b\<close>; the thread has entered its request.\<close>

definition example_start :: client where
  "example_start =
     \<lparr>concentrator = access_concentrator_new\<lparr>ac_connection := Some (set_receive_callback connection_new)\<rparr>,
      threads = (\<lambda>_. None), polled = True\<rparr>"

definition example_request :: request_data where
  "example_request = acquire_lock_request 1 ''a.b'' MSG_LOCK_MODE_X"

fun run_actions :: "action list \<Rightarrow> client \<Rightarrow> client option" where
  "run_actions [] cl = Some cl"
| "run_actions (a # as) cl =
     (case act Little_Endian a cl of Some (Ok cl') \<Rightarrow> run_actions as cl' | _ \<Rightarrow> None)"

definition example_client :: client where
  "example_client = the (run_actions [Construct 7 example_request 0, Enter 7] example_start)"

definition crowded_client :: client where
  "crowded_client = the (run_actions [Construct 7 example_request 0, Enter 7, Construct 9 example_request 0] example_start)"

lemma run_actions_reachable: "run_actions as cl = Some cl' \<Longrightarrow> client_reachable cl \<Longrightarrow> client_reachable cl'"
proof (induction as arbitrary: cl)
  case (Cons a as)
  then obtain cl1 where "act Little_Endian a cl = Some (Ok cl1)" "run_actions as cl1 = Some cl'"
    by (auto split: option.splits outcome.splits)
  moreover from this(1) have "client_step cl cl1" by (auto simp: client_step_def)
  ultimately show ?case using Cons.IH Cons.prems(2) by (blast intro: reachable_step)
qed simp

lemma example_start_reachable: "client_reachable example_start"
proof (rule reachable_init)
  have "Access_Concentrator_create (Some [\<lparr>ai_family = AF_INET, socket_fd = 3, connects = True, connection_made = True\<rparr>])
      True ''localhost'' 30001 = Inr (concentrator example_start)"
    by (simp add: Access_Concentrator_create_def create_tcp_connection_def example_start_def access_concentrator_new_def)
  then show "client_start example_start" by (auto simp: client_start_def example_start_def)
qed

lemmas example_run_simps = example_start_def access_concentrator_new_def construct_request_def advance_def
  first_part_def enter_request_def with_request_def enter_acquire_lock_request_def map_insert_def
  request_path_def example_request_def

lemma example_client_run: "run_actions [Construct 7 example_request 0, Enter 7] example_start = Some example_client"
  unfolding example_client_def by (simp add: example_run_simps)

lemma crowded_client_run:
  "run_actions [Construct 7 example_request 0, Enter 7, Construct 9 example_request 0] example_start = Some crowded_client"
  unfolding crowded_client_def by (simp add: example_run_simps)

lemma example_client_reachable: "client_reachable example_client" "client_reachable crowded_client"
  using run_actions_reachable example_client_run crowded_client_run example_start_reachable by blast+

lemma example_client_facts:
  "entered (concentrator example_client) (Acquisition (1, ''a.b'', MSG_LOCK_MODE_X)) 7"
  "unanswered example_client 7"
  "request_objects (concentrator example_client) 7 =
     Some \<lparr>request_data = example_request, answered = False, status_code = 0\<rparr>"
  "entered (concentrator crowded_client) (Acquisition (1, ''a.b'', MSG_LOCK_MODE_X)) 7"
  "threads crowded_client 9 = Some Enters"
  "request_objects (concentrator crowded_client) 9 =
     Some \<lparr>request_data = example_request, answered = False, status_code = 0\<rparr>"
proof -
  have e: "example_client = example_start\<lparr>concentrator := (concentrator example_start)
        \<lparr>acquire_lock_requests := [(1, ''a.b'', MSG_LOCK_MODE_X) \<mapsto> 7],
         request_objects := [7 \<mapsto> \<lparr>request_data = example_request, answered = False, status_code = 0\<rparr>]\<rparr>,
      threads := [7 \<mapsto> Sends]\<rparr>"
    unfolding example_client_def by (simp add: example_run_simps)
  have c: "crowded_client = example_client\<lparr>concentrator := construct_request 9 example_request 0 (concentrator example_client),
      threads := (threads example_client)(9 \<mapsto> Enters)\<rparr>"
    unfolding crowded_client_def e by (simp add: example_run_simps)
  show "entered (concentrator example_client) (Acquisition (1, ''a.b'', MSG_LOCK_MODE_X)) 7"
    "unanswered example_client 7"
    "request_objects (concentrator example_client) 7 =
       Some \<lparr>request_data = example_request, answered = False, status_code = 0\<rparr>"
    by (simp_all add: e unanswered_def)
  show "entered (concentrator crowded_client) (Acquisition (1, ''a.b'', MSG_LOCK_MODE_X)) 7"
    "threads crowded_client 9 = Some Enters"
    "request_objects (concentrator crowded_client) 9 =
       Some \<lparr>request_data = example_request, answered = False, status_code = 0\<rparr>"
    by (simp_all add: c construct_request_def e)
qed

subsection \<open>Messages\<close>

text \<open>
  C12: the client and the server speak the same language. With memory, sending a request puts one
  message at the end of the send queue; it is well-formed for the server and one frame, and the
  server reads from it the process id, the byte and the path of the request. The path is the
  first $n \bmod 2^{16}$ characters of the request's, which is the whole path if it is shorter than
  $2^{16}$.
\<close>

theorem client_messages_understood:
  assumes "client_reachable cl" "threads cl r = Some Sends" "mem_good False mem"
    and "request_objects (concentrator cl) r = Some q"
  shows "(\<exists>ac'. send_request Little_Endian mem r (concentrator cl) = Ok ac' \<and>
      queued_message (request_message (request_data q)) (concentrator cl) ac') \<and>
    (length (request_path (request_data q)) < 2 ^ 16 \<longrightarrow>
      well_formed (request_message (request_data q)) \<and> framed (request_message (request_data q))) \<and>
    (\<forall>pid path m.
      request_data q = acquire_lock_request pid path m \<or> request_data q = release_lock_request pid path m \<longrightarrow>
      msg_path (request_message (request_data q)) = take (length path mod 2 ^ 16) path \<and>
      (length path < 2 ^ 16 \<longrightarrow>
        msg_pid (request_message (request_data q)) = pid \<and> msg_byte (request_message (request_data q)) = m))"
proof (intro conjI allI impI)
  have inv: "client_inv cl" using client.inv_reachable[OF assms(1)] .
  have "thread_ok (Some q) (Some Sends)" using thread_request[OF inv assms(2)] assms(4) by auto
  then have "length (request_path (request_data q)) < 2 ^ 62" by simp
  from send_request_rule[OF assms(3,4) this]
  show "\<exists>ac'. send_request Little_Endian mem r (concentrator cl) = Ok ac' \<and>
      queued_message (request_message (request_data q)) (concentrator cl) ac'"
    by (cases "send_request Little_Endian mem r (concentrator cl)") (auto simp: sends_def)
next
  assume l: "length (request_path (request_data q)) < 2 ^ 16"
  show "well_formed (request_message (request_data q))" by (rule request_message_well_formed[OF l])
  show "framed (request_message (request_data q))" by (rule request_message_framed[OF l])
qed (auto simp: msg_path_long lock_message_fields lock_message_byte)

theorem client_messages_understood_witness:
  "\<exists>ac'. send_request Little_Endian example_memory 7 (concentrator example_client) = Ok ac' \<and>
     queued_message (request_message example_request) (concentrator example_client) ac' \<and>
     msg_path (request_message example_request) = ''a.b''"
proof -
  have t: "threads example_client 7 = Some Sends"
    unfolding example_client_def by (simp add: example_run_simps)
  from client_messages_understood[OF example_client_reachable(1) t example_memory_good example_client_facts(3)]
  show ?thesis by (auto simp: example_request_def)
qed

subsection \<open>Calls\<close>

text \<open>
  C3: a call of \<open>acquire\<close> from end to end. While the request waits in the client, the server
  handles its message: it adds exactly the requested lock to the granted ones if the status is
  \<open>SUCCESS\<close>, and sends one answer. When the answer reaches the client, the call gets this status,
  so it returns normally only if the process holds the lock, and throws
  \<open>no_such_process_exception\<close> exactly if the server does not know the process; with
  \<open>QUEUED\<close> it goes on waiting.
\<close>

theorem client_acquire_end_to_end:
  assumes "client_reachable cl" "entered (concentrator cl) (Acquisition (pid, path, m)) r" "length path < 2 ^ 16"
    and "mem_good False mem" "message_in s (request_message (acquire_lock_request pid path m))"
    and "backend_good (daemon_backend d)" "listings_small d" "\<forall>xs. set (arrange xs) = set xs" "is_open d c"
  shows "ensures False False
    (\<lambda>d'. \<exists>reply code. outbox d' c = outbox d c @ [reply] \<and>
       forest_granted (Forest (daemon_backend d')) = forest_granted (Forest (daemon_backend d)) +
         (if code = RESPONSE_STATUS_SUCCESS then {#(split_path path, m, pid)#} else {#}) \<and>
       (acquire_returns code = Inl no_such_process_exception \<longleftrightarrow>
          find_process (Process_table (daemon_backend d)) pid = None) \<and>
       (acquire_returns code = Inr () \<longleftrightarrow> code = RESPONSE_STATUS_SUCCESS) \<and>
       (\<forall>s'. reading s' reply 0 \<longrightarrow>
          (\<exists>ac'. receive_message_tcp Little_Endian s' (concentrator cl) = Ok ac' \<and>
             (if code = RESPONSE_STATUS_QUEUED then ac' = concentrator cl
              else \<exists>ac'' q. await_answer r ac' = Ok (Some (ac'', q)) \<and> status_code q = code))))
    (receive_message Little_Endian mem arrange c s d)"
proof -
  let ?m = "request_message (acquire_lock_request pid path m)"
  have inv: "client_inv cl" using client.inv_reachable[OF assms(1)] .
  have b: "backend_inv (daemon_backend d)" using assms(6) by (simp add: backend_good_def)
  obtain b' code reply where b': "respond arrange c ?m d = Ok (b', [(c, reply)])"
    "code = RESPONSE_STATUS_NO_SUCH_PROCESS \<longleftrightarrow> find_process (Process_table (daemon_backend d)) pid = None"
    "forest_granted (Forest b') = forest_granted (Forest (daemon_backend d)) +
       (if code = RESPONSE_STATUS_SUCCESS then {#(split_path path, m, pid)#} else {#})"
    "\<And>s. reading s reply 0 \<Longrightarrow> \<exists>ac'. receive_message_tcp Little_Endian s (concentrator cl) = Ok ac' \<and>
       (if code = RESPONSE_STATUS_QUEUED then ac' = concentrator cl
        else answers (Acquisition (pid, path, m)) r code (concentrator cl) ac')"
    by (rule acquire_meaning[OF inv assms(2,3) b, where arrange = arrange and c = c]) (rule that; assumption)
  have wf: "well_formed ?m" using assms(3) by (intro request_message_well_formed) (simp add: request_path_def)
  have "?m ! 0 \<noteq> MSG_ID_UNREG_PROC" by simp
  then have "ensures False False (\<lambda>d'. \<exists>b0. handled False (respond arrange c ?m d) d b0 d' \<and>
       (b0 = daemon_backend d \<or> b0 = update_pid_connection (daemon_backend d) (msg_pid ?m) c))
      (receive_message Little_Endian mem arrange c s d)"
    using receive_message_correct[OF assms(4,5) wf assms(6-8), of c] by (simp only: simp_thms)
  then have "ensures False False (\<lambda>d'. daemon_backend d' = b' \<and> posted d [(c, reply)] d')
      (receive_message Little_Endian mem arrange c s d)"
    by (rule ensures_mono) (auto simp: handled_def complete_or_oom_def b'(1) simp del: request_message.simps)
  then show ?thesis
  proof (rule ensures_mono)
    fix d' assume d': "daemon_backend d' = b' \<and> posted d [(c, reply)] d'"
    then have "outbox d' c = outbox d c @ [reply]" using outbox_posted(1)[of d _ d' c] assms(9) by auto
    moreover have "\<exists>ac'. receive_message_tcp Little_Endian s' (concentrator cl) = Ok ac' \<and>
        (if code = RESPONSE_STATUS_QUEUED then ac' = concentrator cl
         else \<exists>ac'' q. await_answer r ac' = Ok (Some (ac'', q)) \<and> status_code q = code)"
      if "reading s' reply 0" for s'
      using b'(4)[OF that] answers_await by (metis (full_types))
    moreover have "acquire_returns code = Inl no_such_process_exception \<longleftrightarrow> code = RESPONSE_STATUS_NO_SUCH_PROCESS"
      "acquire_returns code = Inr () \<longleftrightarrow> code = RESPONSE_STATUS_SUCCESS"
      by (simp_all add: acquire_returns_def)
    ultimately show "\<exists>reply code. outbox d' c = outbox d c @ [reply] \<and>
       forest_granted (Forest (daemon_backend d')) = forest_granted (Forest (daemon_backend d)) +
         (if code = RESPONSE_STATUS_SUCCESS then {#(split_path path, m, pid)#} else {#}) \<and>
       (acquire_returns code = Inl no_such_process_exception \<longleftrightarrow>
          find_process (Process_table (daemon_backend d)) pid = None) \<and>
       (acquire_returns code = Inr () \<longleftrightarrow> code = RESPONSE_STATUS_SUCCESS) \<and>
       (\<forall>s'. reading s' reply 0 \<longrightarrow>
          (\<exists>ac'. receive_message_tcp Little_Endian s' (concentrator cl) = Ok ac' \<and>
             (if code = RESPONSE_STATUS_QUEUED then ac' = concentrator cl
              else \<exists>ac'' q. await_answer r ac' = Ok (Some (ac'', q)) \<and> status_code q = code)))"
      using b'(2,3) d' by (intro exI[of _ reply] exI[of _ code]) simp
  qed
qed

lemma stream_of_reading: "m \<noteq> [] \<Longrightarrow> length m < 2 ^ 63 \<Longrightarrow> reading (stream_of m) m 0"
  by (simp add: reading_def stream_of_def stream_inv_def stream_contents_def)

lemma example_request_in: "message_in (stream_of (request_message example_request)) (request_message example_request)"
proof -
  have len: "length (request_message example_request) = 15"
    by (simp add: example_request_def lock_fields_def)
  then have "reading (stream_of (request_message example_request)) (request_message example_request) 0"
    by (intro stream_of_reading) auto
  with len show ?thesis by (simp add: message_in_def) (simp add: stream_of_def len)
qed

theorem client_acquire_end_to_end_witness:
  "ensures False False
    (\<lambda>d'. \<exists>reply code. outbox d' 8 = outbox example_daemon 8 @ [reply] \<and>
       (acquire_returns code = Inr () \<longrightarrow>
          forest_granted (Forest (daemon_backend d')) = forest_granted (Forest example_backend) +
            {#(split_path ''a.b'', MSG_LOCK_MODE_X, 1)#}))
    (receive_message Little_Endian example_memory id 8 (stream_of (request_message example_request)) example_daemon)"
proof -
  note facts = example_client_facts(1) example_request_in[unfolded example_request_def]
  have o: "is_open example_daemon 8" by (simp add: is_open_def example_daemon_def)
  have "ensures False False
    (\<lambda>d'. \<exists>reply code. outbox d' 8 = outbox example_daemon 8 @ [reply] \<and>
       forest_granted (Forest (daemon_backend d')) = forest_granted (Forest (daemon_backend example_daemon)) +
         (if code = RESPONSE_STATUS_SUCCESS then {#(split_path ''a.b'', MSG_LOCK_MODE_X, 1)#} else {#}) \<and>
       (acquire_returns code = Inl no_such_process_exception \<longleftrightarrow>
          find_process (Process_table (daemon_backend example_daemon)) 1 = None) \<and>
       (acquire_returns code = Inr () \<longleftrightarrow> code = RESPONSE_STATUS_SUCCESS) \<and>
       (\<forall>s'. reading s' reply 0 \<longrightarrow>
          (\<exists>ac'. receive_message_tcp Little_Endian s' (concentrator example_client) = Ok ac' \<and>
             (if code = RESPONSE_STATUS_QUEUED then ac' = concentrator example_client
              else \<exists>ac'' q. await_answer 7 ac' = Ok (Some (ac'', q)) \<and> status_code q = code))))
    (receive_message Little_Endian example_memory id 8 (stream_of (request_message example_request)) example_daemon)"
    unfolding example_request_def
    by (rule client_acquire_end_to_end[OF example_client_reachable(1) facts(1) _ example_memory_good facts(2)
          example_daemon_good example_listings _ o]) simp_all
  then show ?thesis
    by (rule ensures_mono) (auto simp: example_daemon_def)
qed

text \<open>
  C4: every request that the server handles is settled. For a request of any kind that is in its
  table, with a path of less than $2^{16}$ characters, the first message the server sends is the reply to it on its connection, which carries a
  status. If the status is \<open>QUEUED\<close>, which only a create or an acquire request can get, the client
  leaves everything as it is; otherwise, when the reply reaches the client, it is accepted without
  undefined behaviour, exactly this request leaves its table with exactly this status, and the
  waiting call gets it. Registrations and unregistrations are found by their nonce or process id, so
  for them it is assumed that no other call in the table has the same one.
\<close>

theorem client_requests_answered:
  assumes "client_reachable cl" "request_objects (concentrator cl) r = Some q"
    and "entered (concentrator cl) (slot_of (request_data q)) r" "length (request_path (request_data q)) < 2 ^ 16"
    and "alone_with_key (concentrator cl) (request_data q) r"
    and "respond arrange c (request_message (request_data q)) d = Ok (b', outs)"
  shows "\<exists>code tail rest. outs = (c, reply_message (request_data q) code tail) # rest \<and>
    (code = RESPONSE_STATUS_QUEUED \<longrightarrow> may_wait (request_data q)) \<and>
    (\<forall>s. reading s (reply_message (request_data q) code tail) 0 \<longrightarrow>
      (\<exists>ac'. receive_message_tcp Little_Endian s (concentrator cl) = Ok ac' \<and>
        (if code = RESPONSE_STATUS_QUEUED then ac' = concentrator cl
         else answers (slot_of (request_data q)) r code (concentrator cl) ac' \<and>
           (\<exists>ac'' q'. await_answer r ac' = Ok (Some (ac'', q')) \<and> status_code q' = code))))"
proof -
  obtain code tail rest where o: "outs = (c, reply_message (request_data q) code tail) # rest"
    "code = RESPONSE_STATUS_QUEUED \<longrightarrow> may_wait (request_data q)"
    "tail = [] \<or> (\<exists>nonce j i. request_data q = register_process_request nonce j \<and> tail = big_endian 4 (i :: u32))"
    using respond_reply[OF assms(4,6)] .
  have "\<exists>ac'. receive_message_tcp Little_Endian s (concentrator cl) = Ok ac' \<and>
      (if code = RESPONSE_STATUS_QUEUED then ac' = concentrator cl
       else answers (slot_of (request_data q)) r code (concentrator cl) ac' \<and>
         (\<exists>ac'' q'. await_answer r ac' = Ok (Some (ac'', q')) \<and> status_code q' = code))"
    if "reading s (reply_message (request_data q) code tail) 0" for s
    using reply_answers[OF client.inv_reachable[OF assms(1)] assms(2-5) that o(2,3)] answers_await by (metis (full_types))
  with o(1,2) show ?thesis by blast
qed

theorem client_requests_answered_witness:
  "\<exists>b' outs code tail rest. respond id 8 (request_message example_request) example_daemon = Ok (b', outs) \<and>
    outs = (8, reply_message example_request code tail) # rest \<and>
    (\<forall>s. reading s (reply_message example_request code tail) 0 \<longrightarrow>
      (\<exists>ac'. receive_message_tcp Little_Endian s (concentrator example_client) = Ok ac' \<and>
        (code = RESPONSE_STATUS_QUEUED \<or> answers (slot_of example_request) 7 code (concentrator example_client) ac')))"
proof -
  have "backend_inv (update_pid_connection (daemon_backend example_daemon) 1 8)"
    using example_daemon_good by (simp add: backend_good_def update_pid_connection_inv)
  from acquire_lock_correct[OF this, of 1 "''a.b''" MSG_LOCK_MODE_X] obtain b' outs where
    r: "respond id 8 (request_message example_request) example_daemon = Ok (b', outs)"
    by (auto simp: example_request_def respond_acquire simp del: request_message.simps)
  have e: "entered (concentrator example_client) (slot_of example_request) 7"
    using example_client_facts(1) by (simp add: example_request_def)
  have "alone_with_key (concentrator example_client) example_request 7"
    by (rule lock_request_alone[OF e]) (simp_all add: example_request_def)
  moreover have "length (request_path example_request) < 2 ^ 16" by (simp add: example_request_def request_path_def)
  ultimately obtain code tail rest where c: "outs = (8, reply_message example_request code tail) # rest"
    "\<And>s. reading s (reply_message example_request code tail) 0 \<Longrightarrow>
      \<exists>ac'. receive_message_tcp Little_Endian s (concentrator example_client) = Ok ac' \<and>
        (if code = RESPONSE_STATUS_QUEUED then ac' = concentrator example_client
         else answers (slot_of example_request) 7 code (concentrator example_client) ac' \<and>
           (\<exists>ac'' q'. await_answer 7 ac' = Ok (Some (ac'', q')) \<and> status_code q' = code))"
    using client_requests_answered[OF example_client_reachable(1) example_client_facts(3), of id 8 example_daemon b' outs] e r
    unfolding request.simps by blast
  have "\<exists>ac'. receive_message_tcp Little_Endian s (concentrator example_client) = Ok ac' \<and>
      (code = RESPONSE_STATUS_QUEUED \<or> answers (slot_of example_request) 7 code (concentrator example_client) ac')"
    if "reading s (reply_message example_request code tail) 0" for s
    using c(2)[OF that] by (auto split: if_splits)
  with r c(1) show ?thesis by blast
qed

text \<open>
  C11: the notification about a request that had to wait, for a path of less than $2^{16}$
  characters. The server sends the path as it re-joins it from its components. If the path the application used is canonical, the notification answers
  exactly the waiting call, with the status of the request and never with \<open>QUEUED\<close>. If it is not
  canonical, the notification does not reach the call: whatever other calls wait, the client accepts
  the message, and the request is in its table afterwards as it was before, unanswered.
\<close>

theorem client_notification:
  assumes "client_reachable cl" "length path < 2 ^ 16" "req_path lr = split_path path"
    and "reading s (update_message p lr) 0"
    and "k = (if create_missing lr then Creation (get_id p, path) else Acquisition (get_id p, path, req_mode lr))"
    and "entered (concentrator cl) k r"
  shows "\<exists>ac'. receive_message_tcp Little_Endian s (concentrator cl) = Ok ac' \<and>
    (if canonical path then answers k r (update_status lr) (concentrator cl) ac' \<and> update_status lr \<noteq> RESPONSE_STATUS_QUEUED
     else entered ac' k r \<and> request_objects ac' r = request_objects (concentrator cl) r \<and>
       await_answer r ac' = Ok None)"
proof (cases "canonical path")
  case True
  with notification_answers[OF client.inv_reachable[OF assms(1)] assms(2-6)] update_status_not_queued show ?thesis by simp
next
  case False
  from notification_elsewhere[OF client.inv_reachable[OF assms(1)] assms(2-6) False] obtain ac' where
    ac': "receive_message_tcp Little_Endian s (concentrator cl) = Ok ac'" "entered ac' k r"
      "request_objects ac' r = request_objects (concentrator cl) r" by blast
  obtain q where "request_objects (concentrator cl) r = Some q" "\<not> answered q"
    using client_invD[OF client.inv_reachable[OF assms(1)] assms(6)] .
  with ac' False show ?thesis by (auto simp: await_answer_def)
qed

definition example_grant :: lock_request where
  "example_grant = Lock_Request_create MSG_LOCK_MODE_X 1 (split_path ''a.b'') False"

theorem client_notification_witness:
  "\<exists>ac'. receive_message_tcp Little_Endian (stream_of (update_message (Process_new 1) example_grant))
      (concentrator example_client) = Ok ac' \<and>
    answers (Acquisition (1, ''a.b'', MSG_LOCK_MODE_X)) 7 RESPONSE_STATUS_SUCCESS (concentrator example_client) ac'"
proof -
  have lr: "req_path example_grant = split_path ''a.b''" "\<not> create_missing example_grant"
    "req_mode example_grant = MSG_LOCK_MODE_X" "update_status example_grant = RESPONSE_STATUS_SUCCESS"
    by (simp_all add: example_grant_def Lock_Request_create_def update_status_def)
  have id: "get_id (Process_new 1) = 1" by (simp add: get_id_def Process_new_def)
  have can: "canonical ''a.b''" by code_simp
  have "length (update_message (Process_new 1) example_grant) = 14 + length (join_path (split_path ''a.b''))"
    using lr by (simp add: length_update_message)
  also have "\<dots> = 17" by code_simp
  finally have "reading (stream_of (update_message (Process_new 1) example_grant)) (update_message (Process_new 1) example_grant) 0"
    by (intro stream_of_reading) auto
  from client_notification[OF example_client_reachable(1) _ lr(1) this refl, of 7] lr id can example_client_facts(1)
  show ?thesis by simp
qed

text \<open>
  C21: a call of \<open>register_process\<close> from end to end. If no other waiting registration has its
  nonce, the answer of the server makes the call return a process object with exactly the id the
  server gave to the new process, or throw \<open>too_many_processes_exception\<close> exactly if the server
  refused.
\<close>

theorem client_register_end_to_end:
  assumes "client_reachable cl" "entered (concentrator cl) Registrations r"
    and "request_objects (concentrator cl) r = Some q" "request_data q = register_process_request nonce j"
    and "\<forall>r' q'. entered (concentrator cl) Registrations r' \<longrightarrow> request_objects (concentrator cl) r' = Some q' \<longrightarrow>
      get_nonce (request_data q') = Some nonce \<longrightarrow> r' = r"
  shows "\<exists>b' reply. respond arrange c (request_message (request_data q)) d = Ok (b', [(c, reply)]) \<and>
    (\<forall>s. reading s reply 0 \<longrightarrow> (\<exists>ac' ac'' q'. receive_message_tcp Little_Endian s (concentrator cl) = Ok ac' \<and>
       await_answer r ac' = Ok (Some (ac'', q')) \<and>
       (case register_process (daemon_backend d) of
          Inl e \<Rightarrow> b' = daemon_backend d \<and> register_process_returns q' = Inl too_many_processes
        | Inr (b, i) \<Rightarrow> b' = update_pid_connection b i c \<and> register_process_returns q' = Inr \<lparr>process_id = i\<rparr>)))"
proof -
  have inv: "client_inv cl" using client.inv_reachable[OF assms(1)] .
  have got: "\<exists>ac' ac'' q'. receive_message_tcp Little_Endian s (concentrator cl) = Ok ac' \<and>
      await_answer r ac' = Ok (Some (ac'', q')) \<and> status_code q' = code \<and>
      (code = RESPONSE_STATUS_SUCCESS \<longrightarrow> rest \<noteq> [] \<longrightarrow> request_data q' = register_process_request nonce i)"
    if rd: "reading s (message MSG_ID_REG_PROC_RESPONSE (big_endian 4 nonce @ big_endian 2 code @ rest)) 0"
      "rest = [] \<or> rest = big_endian 4 (i :: u32)" for s code rest i
  proof -
    obtain ac' r' q1 q' where a: "receive_message_tcp Little_Endian s (concentrator cl) = Ok ac'"
      "answers Registrations r' code (concentrator cl) ac'" "request_objects (concentrator cl) r' = Some q1"
      "get_nonce (request_data q1) = Some nonce" "request_objects ac' r' = Some q'"
      "code = RESPONSE_STATUS_SUCCESS \<longrightarrow> rest \<noteq> [] \<longrightarrow> request_data q' = register_process_request nonce i"
      using register_settles[OF inv assms(2-4) rd] by blast
    have "entered (concentrator cl) Registrations r'" using a(2) by (simp add: answers_def)
    then have "r' = r" using assms(5) a(3,4) by blast
    with a(1,5,6) answers_result[OF a(2)] show ?thesis by (auto simp: await_answer_def)
  qed
  have ret: "register_process_returns q' = Inl too_many_processes" if "status_code q' = RESPONSE_STATUS_TOO_MANY_PROCESSES" for q'
    using that by (simp add: register_process_returns_def)
  have ret': "register_process_returns q' = Inr \<lparr>process_id = i\<rparr>"
    if "status_code q' = RESPONSE_STATUS_SUCCESS" "request_data q' = register_process_request nonce i" for q' i
    using that by (simp add: register_process_returns_def)
  show ?thesis
  proof (cases "register_process (daemon_backend d)")
    case (Inl e)
    with got[of _ RESPONSE_STATUS_TOO_MANY_PROCESSES "[]"] ret show ?thesis
      unfolding assms(4) respond_register by (simp del: request_message.simps) blast
  next
    case (Inr bi)
    obtain b i where bi: "bi = (b, i)" by fastforce
    have "length (big_endian 4 i) \<noteq> 0" by simp
    then have "big_endian 4 i \<noteq> []" by (simp only: length_0_conv not_False_eq_True)
    with Inr bi got[of _ RESPONSE_STATUS_SUCCESS "big_endian 4 i" i] ret' show ?thesis
      unfolding assms(4) respond_register by (simp del: request_message.simps) blast
  qed
qed

definition registering_client :: client where
  "registering_client = the (run_actions [Construct 5 (register_process_request 77 78) 0, Take_Nonce 5, Enter 5] example_start)"

theorem client_register_end_to_end_witness:
  "\<exists>b' reply. respond id 4 (request_message (register_process_request 0 78)) example_daemon = Ok (b', [(4, reply)]) \<and>
    (\<forall>s. reading s reply 0 \<longrightarrow> (\<exists>ac' ac'' q'. receive_message_tcp Little_Endian s (concentrator registering_client) = Ok ac' \<and>
       await_answer 5 ac' = Ok (Some (ac'', q'))))"
proof -
  have run: "run_actions [Construct 5 (register_process_request 77 78) 0, Take_Nonce 5, Enter 5] example_start = Some registering_client"
    unfolding registering_client_def
    by (simp add: example_run_simps take_nonce_def modify_request_def enter_register_process_request_def)
  then have cl: "client_reachable registering_client" using run_actions_reachable example_start_reachable by blast
  have facts: "register_process_requests (concentrator registering_client) = [5]"
    "request_objects (concentrator registering_client) 5 =
       Some \<lparr>request_data = register_process_request 0 78, answered = False, status_code = 0\<rparr>"
    unfolding registering_client_def
    by (simp_all add: example_run_simps take_nonce_def modify_request_def enter_register_process_request_def)
  from client_register_end_to_end[OF cl _ facts(2), of 0 78 id 4 example_daemon] facts(1) show ?thesis by fastforce
qed

subsection \<open>Safety\<close>

text \<open>
  C5: in every interleaving of the calling threads and the thread of the communications manager,
  every step of a client ends normally and keeps the invariant of the client, whatever memory is
  available and whatever bytes the server sends; in particular no destroyed request is ever accessed.
  The only exception is a message with a path whose declared length reaches beyond the block that
  holds the message: the client then reads outside that block. The messages are streams as
  \<open>Connection\<close> hands them over.
\<close>

theorem client_steps_safe:
  assumes "client_reachable cl" "act Little_Endian a cl = Some res" "\<forall>mem r. a = Send mem r \<longrightarrow> mem_good True mem"
    and "\<forall>s. a = Receive s \<longrightarrow> handed_over s"
  shows "(\<exists>cl'. res = Ok cl' \<and> client_inv cl') \<or>
    (\<exists>s. a = Receive s \<and> overlong_path Little_Endian s \<and> res = Undefined Out_Of_Bounds)"
  using step_ends[OF client.inv_reachable[OF assms(1)] assms(2)] assms(3,4)
    step_inv[OF client.inv_reachable[OF assms(1)]] assms(2) by blast

theorem client_steps_safe_witness:
  "\<exists>cl'. act Little_Endian (Send example_memory 7) example_client = Some (Ok cl') \<and> client_inv cl'"
proof -
  have t: "threads example_client 7 = Some Sends"
    unfolding example_client_def by (simp add: example_run_simps)
  then obtain res where "act Little_Endian (Send example_memory 7) example_client = Some res" by simp
  from client_steps_safe[OF example_client_reachable(1) this] this show ?thesis
    by (auto simp: example_memory_good)
qed

subsection \<open>Requests without an answer\<close>

text \<open>
  C40: two calls with the same key. When a thread issues a create, acquire or release request while
  another request with the same process, path and mode is in the table, the insertion does nothing,
  and the second call never returns: it stays unanswered in every later state.
\<close>

theorem duplicate_request_waits_forever:
  assumes "client_reachable cl" "threads cl r = Some Enters" "request_objects (concentrator cl) r = Some q"
    and "slot_of (request_data q) \<noteq> Registrations" "slot_of (request_data q) \<noteq> Unregistrations"
    and "entered (concentrator cl) (slot_of (request_data q)) r0"
    and "act h (Enter r) cl = Some (Ok cl1)" "client_step\<^sup>*\<^sup>* cl1 cl2"
  shows "unanswered cl2 r"
proof -
  have inv: "client_inv cl" using client.inv_reachable[OF assms(1)] .
  have "enter_request r (concentrator cl) = Ok (concentrator cl)"
    using assms(3-6)
    by (cases "request_data q")
      (auto simp: enter_request_def with_request_def enter_create_lock_request_def enter_acquire_lock_request_def
        enter_release_lock_request_def map_insert_def)
  with assms(2,7) have cl1: "cl1 = cl\<lparr>threads := (threads cl)(r := Some Sends)\<rparr>" by (simp add: advance_def)
  have "\<not> answered q" using thread_request[OF inv assms(2)] assms(3) by auto
  then have "unanswered cl1 r" using assms(3) by (simp add: cl1 unanswered_def)
  moreover have "\<not> entered (concentrator cl1) k r" for k
    using entered_thread[OF inv, of k r] assms(2) by (auto simp: cl1)
  ultimately have "lost r cl1" using step_inv[OF inv assms(7)] by (simp add: lost_def)
  from lost.inv_steps[OF assms(8) this] show ?thesis by (simp add: lost_def)
qed

theorem duplicate_request_waits_forever_witness:
  "\<exists>cl1. act Little_Endian (Enter 9) crowded_client = Some (Ok cl1) \<and> unanswered cl1 9"
proof -
  obtain cl1 where cl1: "act Little_Endian (Enter 9) crowded_client = Some (Ok cl1)"
    using example_client_facts(4-6)
    by (simp add: advance_def enter_request_def with_request_def enter_acquire_lock_request_def example_request_def)
  from duplicate_request_waits_forever[OF example_client_reachable(2) example_client_facts(5,6) _ _ _ this, of 7 cl1]
    cl1 example_client_facts(4) show ?thesis by (simp add: example_request_def)
qed



subsection \<open>Connecting\<close>

text \<open>
  Connecting does not lose file descriptors. Among the sockets that were opened up to the
  address that was used (those with a nonzero descriptor), each is closed except the one of the
  connection; the method returns true exactly if there is a connection afterwards.
\<close>

fun tried :: "address list \<Rightarrow> int list" where
  "tried [] = []"
| "tried (ai # ais) =
     (if ai_family ai = AF_Other \<or> socket_fd ai = 0 then tried ais
      else socket_fd ai # (if connects ai then [] else tried ais))"

lemma try_addresses_tried:
  "try_addresses ais = (c, closed) \<Longrightarrow> tried ais = closed @ (case c of None \<Rightarrow> [] | Some fd \<Rightarrow> [fd])"
proof (induction ais arbitrary: c closed)
  case (Cons ai ais)
  then show ?case
    by (cases "ai_family ai") (auto split: if_splits prod.splits)
qed simp

theorem connecting_closes_sockets:
  assumes "create_tcp_connection (Some ais) added access_concentrator_new = (ac, ok, fd, closed)"
  shows "tried ais = closed @ (case fd of None \<Rightarrow> [] | Some x \<Rightarrow> [x]) \<and>
    (ok \<longleftrightarrow> ac_connection ac \<noteq> None) \<and> (ok \<longleftrightarrow> fd \<noteq> None)"
proof -
  obtain c cs where t: "try_addresses ais = (c, cs)" by fastforce
  from try_addresses_tried[OF t] assms t show ?thesis
    by (auto simp: create_tcp_connection_def access_concentrator_new_def split: option.splits if_splits)
qed

theorem connecting_closes_sockets_witness:
  "tried [\<lparr>ai_family = AF_INET6, socket_fd = 3, connects = False, connection_made = True\<rparr>,
          \<lparr>ai_family = AF_INET, socket_fd = 4, connects = True, connection_made = True\<rparr>] = [3] @ [4]"
  using connecting_closes_sockets[of
      "[\<lparr>ai_family = AF_INET6, socket_fd = 3, connects = False, connection_made = True\<rparr>,
        \<lparr>ai_family = AF_INET, socket_fd = 4, connects = True, connection_made = True\<rparr>]" True
      "access_concentrator_new\<lparr>ac_connection := Some (set_receive_callback connection_new)\<rparr>" True "Some 4" "[3]"]
  by (simp add: create_tcp_connection_def access_concentrator_new_def)

end
