(* ===== verification/Manager.thy ===== *)
theory Manager
  imports Client_Api
begin

text \<open>
  The command line tool (\<open>src/src/manager/argument_parser.cpp\<close>, \<open>src/src/manager/main.cpp\<close>):
  it parses its arguments, sends one or more queries to the server and prints the answers. What it
  prints is a list of lines; one call of \<open>printf\<close> for an entry is one line.
\<close>

subsection \<open>Arguments\<close>

record argument_parser =
  program_name :: string
  ap_action :: string
  long_parameters :: "string list"
  short_parameters :: "char list"
  ap_names :: "string list"

definition argument_parser_new :: argument_parser where
  "argument_parser_new =
     \<lparr>program_name = [], ap_action = [], long_parameters = [], short_parameters = [], ap_names = []\<rparr>"

datatype parse_error = Too_Short string | Starts_With_Dash string | Dash_Alone | Too_Long string

text \<open>One round of the loop.\<close>

definition parse_argument :: "string \<Rightarrow> argument_parser \<Rightarrow> parse_error + argument_parser" where
  "parse_argument arg ap =
     (let len = length arg
      in if len = 0 then Inr ap
         else if 1 \<le> len \<and> arg ! 0 = CHR ''-'' then
           (if 2 \<le> len \<and> arg ! 1 = CHR ''-'' then
              (if len < 4 then Inl (Too_Short arg)
               else if arg ! 2 = CHR ''-'' then Inl (Starts_With_Dash arg)
               else Inr (ap\<lparr>long_parameters := long_parameters ap @ [drop 2 arg]\<rparr>))
            else
              (if len < 2 then Inl Dash_Alone
               else if 2 < len then Inl (Too_Long arg)
               else Inr (ap\<lparr>short_parameters := short_parameters ap @ [arg ! 1]\<rparr>)))
         else if length (ap_action ap) = 0 then Inr (ap\<lparr>ap_action := arg\<rparr>)
         else Inr (ap\<lparr>ap_names := ap_names ap @ [arg]\<rparr>))"

fun parse_arguments :: "string list \<Rightarrow> argument_parser \<Rightarrow> parse_error + argument_parser" where
  "parse_arguments [] ap = Inr ap"
| "parse_arguments (arg # args) ap =
     (case parse_argument arg ap of Inl e \<Rightarrow> Inl e | Inr ap \<Rightarrow> parse_arguments args ap)"

definition parse :: "string \<Rightarrow> string list \<Rightarrow> argument_parser \<Rightarrow> parse_error + argument_parser" where
  "parse argv0 args ap = parse_arguments args (ap\<lparr>program_name := argv0\<rparr>)"

subsection \<open>Validation\<close>

datatype manager_exit =
  Bad_Arguments parse_error | Help | Invalid_Pid string | Kill_Needs_One | Invalid_Kill_Pid | No_Action | Unknown_Action string
| Cannot_Connect | Out_Of_Memory | Not_Added

definition is_digit :: "char \<Rightarrow> bool" where
  "is_digit c \<longleftrightarrow> \<not> (of_char c < (of_char (CHR ''0'') :: nat) \<or> of_char (CHR ''9'') < (of_char c :: nat))"

definition help_requested :: "argument_parser \<Rightarrow> bool" where
  "help_requested ap \<longleftrightarrow> ''help'' \<in> set (long_parameters ap) \<or> CHR ''h'' \<in> set (short_parameters ap)"

definition validate :: "argument_parser \<Rightarrow> manager_exit option" where
  "validate ap =
     (if ap_action ap = ''list-connections'' then None
      else if ap_action ap = ''list-processes'' then None
      else if ap_action ap = ''list-locks'' then
        map_option Invalid_Pid (find (\<lambda>name. \<exists>c \<in> set name. \<not> is_digit c) (ap_names ap))
      else if ap_action ap = ''kill'' then
        (if length (ap_names ap) \<noteq> 1 then Some Kill_Needs_One
         else if \<exists>c \<in> set (ap_names ap ! 0). \<not> is_digit c then Some Invalid_Kill_Pid
         else None)
      else if length (ap_action ap) = 0 then Some No_Action
      else Some (Unknown_Action (ap_action ap)))"

text \<open>
  \<open>std::stoi\<close> on a string of digits: it throws \<open>invalid_argument\<close> for the empty string and
  \<open>out_of_range\<close> for a value above the largest \<open>int\<close>; nothing catches these.
\<close>

definition digits_value :: "string \<Rightarrow> nat" where
  "digits_value s = foldl (\<lambda>n c. 10 * n + (of_char c - of_char (CHR ''0''))) 0 s"

definition stoi :: "string \<Rightarrow> int outcome" where
  "stoi s =
     (if s = [] then Terminated
      else if 2 ^ 31 \<le> digits_value s then Terminated
      else Ok (int (digits_value s)))"

subsection \<open>Connecting\<close>

text \<open>The loop in \<open>main\<close>; an exception of \<open>TCP_Connection::create\<close> is not caught.\<close>

fun manager_connect :: "address list \<Rightarrow> (int option \<times> int list) outcome" where
  "manager_connect [] = Ok (None, [])"
| "manager_connect (ai # ais) =
     (if ai_family ai = AF_INET \<or> ai_family ai = AF_INET6 then
        (if socket_fd ai \<noteq> 0 then
           (if connects ai \<and> ai_family ai = AF_INET then
              (if connection_made ai then Ok (Some (socket_fd ai), []) else Terminated)
            else andthen (manager_connect ais) (\<lambda>(c, closed). Ok (c, socket_fd ai # closed)))
         else manager_connect ais)
      else manager_connect ais)"

subsection \<open>Queries\<close>

text \<open>The pid of a query, written behind a header: a shared part of \<open>list-locks\<close> and \<open>kill\<close>.\<close>

definition pid_query ::
    "byte_order \<Rightarrow> memory \<Rightarrow> byte \<Rightarrow> string \<Rightarrow> stream \<Rightarrow> (manager_exit + stream) outcome" where
  "pid_query h mem i name s =
     andthen (andthen (ended (write_message_header (mem 0) h i 4 s)) checked) (\<lambda>(s, ok).
     if \<not> ok then Ok (Inl Out_Of_Memory)
     else
       andthen (ended (stream_ensure_remaining_capacity (mem 1) 4 s)) (\<lambda>(s, ret).
       if ret < 0 then Ok (Inl Out_Of_Memory)
       else
         andthen (stoi name) (\<lambda>pid.
         andthen (checked (stream_write_uint32_t h (of_int pid) s)) (\<lambda>s. Ok (Inr s)))))"

text \<open>The queries for several processes; the result of \<open>stream_new\<close> is not checked here.\<close>

fun list_locks_queries ::
    "byte_order \<Rightarrow> memory \<Rightarrow> string list \<Rightarrow> (manager_exit + stream list) outcome" where
  "list_locks_queries h mem [] = Ok (Inr [])"
| "list_locks_queries h mem (name # names) =
     (case stream_new (mem 0) of
        None \<Rightarrow> Undefined Dangling
      | Some s \<Rightarrow>
          andthen (pid_query h (\<lambda>k. mem (k + 1)) MSG_ID_LIST_LOCKS_PROCESS name s) (\<lambda>res.
          (case res of
             Inl e \<Rightarrow> Ok (Inl e)
           | Inr s \<Rightarrow>
               andthen (list_locks_queries h (\<lambda>k. mem (k + 3)) names) (\<lambda>res.
               Ok (case res of Inl e \<Rightarrow> Inl e | Inr ss \<Rightarrow> Inr (s # ss))))))"

definition header_query ::
    "byte_order \<Rightarrow> alloc \<Rightarrow> byte \<Rightarrow> stream \<Rightarrow> (manager_exit + stream list) outcome" where
  "header_query h alloc i s =
     andthen (andthen (ended (write_message_header alloc h i 0 s)) checked) (\<lambda>(s, ok).
     Ok (if \<not> ok then Inl Out_Of_Memory else Inr [s]))"

definition query ::
    "byte_order \<Rightarrow> memory \<Rightarrow> argument_parser \<Rightarrow> (manager_exit + stream list) outcome" where
  "query h mem ap =
     (case stream_new (mem 0) of
        None \<Rightarrow> Ok (Inl Out_Of_Memory)
      | Some s \<Rightarrow>
          if ap_action ap = ''list-connections'' then
            andthen (ended (stream_ensure_remaining_capacity (mem 1) 5 s)) (\<lambda>(s, ret).
            if ret < 0 then Ok (Inl Out_Of_Memory)
            else
              andthen (checked (stream_write_uint8_t MSG_ID_LIST_CONNS s)) (\<lambda>s.
              andthen (checked (stream_write_uint32_t h 0 s)) (\<lambda>s.
              Ok (Inr [s]))))
          else if ap_action ap = ''list-processes'' then header_query h (mem 1) MSG_ID_LIST_PROCS s
          else if ap_action ap = ''list-locks'' then
            (if ap_names ap = [] then header_query h (mem 1) MSG_ID_LIST_LOCKS s
             else list_locks_queries h (\<lambda>k. mem (k + 1)) (ap_names ap))
          else if ap_action ap = ''kill'' then
            andthen (pid_query h (\<lambda>k. mem (k + 1)) MSG_ID_UNREG_PROC (ap_names ap ! 0) s) (\<lambda>res.
            Ok (case res of Inl e \<Rightarrow> Inl e | Inr s \<Rightarrow> Inr [s]))
          else Ok (Inr []))"

text \<open>
  \<open>main\<close> up to the main loop: the connection with the queries in its send queue, or the reason
  for the exit.
\<close>

definition manager_main ::
    "byte_order \<Rightarrow> memory \<Rightarrow> address list option \<Rightarrow> bool \<Rightarrow> string \<Rightarrow> string list \<Rightarrow>
     (manager_exit + argument_parser \<times> connection) outcome" where
  "manager_main h mem lookup added argv0 args =
     (case parse argv0 args argument_parser_new of
        Inl e \<Rightarrow> Ok (Inl (Bad_Arguments e))
      | Inr ap \<Rightarrow>
          if help_requested ap then Ok (Inl Help)
          else
            (case validate ap of
               Some e \<Rightarrow> Ok (Inl e)
             | None \<Rightarrow>
                 andthen (case lookup of None \<Rightarrow> Ok (None, []) | Some ais \<Rightarrow> manager_connect ais) (\<lambda>(c, closed).
                 (case c of
                    None \<Rightarrow> Ok (Inl Cannot_Connect)
                  | Some fd \<Rightarrow>
                      andthen (query h mem ap) (\<lambda>res.
                      (case res of
                         Inl e \<Rightarrow> Ok (Inl e)
                       | Inr ss \<Rightarrow>
                           if \<not> added then Ok (Inl Not_Added)
                           else Ok (Inr (ap, fold send ss (set_receive_callback connection_new)))))))))"

subsection \<open>Printing numbers and strings\<close>

fun show_nat :: "nat \<Rightarrow> string" where
  "show_nat n = (if n < 10 then [char_of (48 + n)] else show_nat (n div 10) @ [char_of (48 + n mod 10)])"

declare show_nat.simps [simp del]

definition pad :: "nat \<Rightarrow> string \<Rightarrow> string" where
  "pad n s = replicate (n - length s) (CHR '' '') @ s"

text \<open>\<open>PRIu32\<close> prints the unsigned value, \<open>d\<close> the value as a signed \<open>int\<close>.\<close>

definition show_u32 :: "u32 \<Rightarrow> string" where
  "show_u32 w = show_nat (unat w)"

definition show_int :: "u32 \<Rightarrow> string" where
  "show_int w = (if sint w < 0 then ''-'' @ show_nat (nat (- sint w)) else show_nat (nat (sint w)))"

text \<open>What \<open>%s\<close> prints of \<open>s.c_str()\<close>: the characters before the first NUL.\<close>

definition c_str :: "string \<Rightarrow> string" where
  "c_str s = takeWhile (\<lambda>c. c \<noteq> CHR 0x00) s"

definition connection_line :: "byte \<Rightarrow> byte \<Rightarrow> byte \<Rightarrow> byte \<Rightarrow> u16 \<Rightarrow> string" where
  "connection_line a b c d port =
     show_nat (unat a) @ ''.'' @ show_nat (unat b) @ ''.'' @ show_nat (unat c) @ ''.'' @ show_nat (unat d) @
     '':'' @ show_nat (unat port)"

definition process_line :: "u32 \<Rightarrow> u32 \<Rightarrow> string" where
  "process_line i n = pad 9 (show_u32 i) @ ''             '' @ pad 9 (show_u32 n)"

definition status_text :: "byte \<Rightarrow> string" where
  "status_text b =
     (if and b 0x40 \<noteq> 0 then ''IS '' else ''   '') @
     (if and b 0x20 \<noteq> 0 then ''IS+ '' else ''    '') @
     (if and b 0x10 \<noteq> 0 then ''IX '' else ''   '') @
     (if and b 0x4 \<noteq> 0 then ''S '' else ''  '') @
     (if and b 0x2 \<noteq> 0 then ''S+ '' else ''   '') @
     (if and b 0x1 \<noteq> 0 then ''X'' else '' '')"

definition lock_line :: "u32 \<Rightarrow> string \<Rightarrow> byte \<Rightarrow> string" where
  "lock_line level name b = concat (replicate (unat level) ''  '') @ c_str name @ '':'' @ status_text b"

definition mode_text :: "byte \<Rightarrow> string" where
  "mode_text m =
     (if m = MSG_LOCK_MODE_S then ''S ''
      else if m = MSG_LOCK_MODE_Splus then ''S+''
      else if m = MSG_LOCK_MODE_X then ''X ''
      else ''? '')"

definition held_line :: "u32 \<Rightarrow> byte \<Rightarrow> string \<Rightarrow> string" where
  "held_line pid m path = pad 8 (show_int pid) @ '': '' @ mode_text m @ '' '' @ c_str path"

subsection \<open>Receiving answers\<close>

text \<open>
  The state of the tool while it waits: the counter \<open>static unsigned cnt_received\<close>, the lines
  printed so far, and whether the main loop was asked to quit.
\<close>

record manager =
  cnt_received :: u32
  printed :: "string list"
  quit_asked :: bool

definition manager_start :: manager where
  "manager_start = \<lparr>cnt_received = 0, printed = [], quit_asked = False\<rparr>"

definition print :: "string list \<Rightarrow> manager \<Rightarrow> manager" where
  "print ls m = m\<lparr>printed := printed m @ ls\<rparr>"

definition rule_off :: string where
  "rule_off = replicate 80 (CHR ''-'')"

text \<open>The loops over the entries. The last argument are the lines so far.\<close>

partial_function (option) print_connections ::
    "byte_order \<Rightarrow> nat \<Rightarrow> stream \<Rightarrow> string list \<Rightarrow> (fault + string list) option" where
  "print_connections h len s ls =
     (if s_pos s < len then
        (case stream_read_uint8_t s of
           Inl e \<Rightarrow> Some (Inl e)
         | Inr (addr_type, s) \<Rightarrow>
             if addr_type = 0 \<and> (s_pos s + 6) mod 2 ^ 64 \<le> len then
               (case stream_read_uint8_t s of
                  Inl e \<Rightarrow> Some (Inl e)
                | Inr (a, s) \<Rightarrow>
                    (case stream_read_uint8_t s of
                       Inl e \<Rightarrow> Some (Inl e)
                     | Inr (b, s) \<Rightarrow>
                         (case stream_read_uint8_t s of
                            Inl e \<Rightarrow> Some (Inl e)
                          | Inr (c, s) \<Rightarrow>
                              (case stream_read_uint8_t s of
                                 Inl e \<Rightarrow> Some (Inl e)
                               | Inr (d, s) \<Rightarrow>
                                   (case stream_read_uint16_t h s of
                                      Inl e \<Rightarrow> Some (Inl e)
                                    | Inr (port, s) \<Rightarrow>
                                        print_connections h len s (ls @ [connection_line a b c d port]))))))
             else print_connections h len s ls)
      else Some (Inr ls))"

partial_function (option) print_processes ::
    "byte_order \<Rightarrow> nat \<Rightarrow> stream \<Rightarrow> string list \<Rightarrow> (fault + string list) option" where
  "print_processes h len s ls =
     (if s_pos s < len then
        (case stream_read_uint32_t h s of
           Inl e \<Rightarrow> Some (Inl e)
         | Inr (i, s) \<Rightarrow>
             (case stream_read_uint32_t h s of
                Inl e \<Rightarrow> Some (Inl e)
              | Inr (lock_count, s) \<Rightarrow> print_processes h len s (ls @ [process_line i lock_count])))
      else Some (Inr ls))"

partial_function (option) print_locks ::
    "byte_order \<Rightarrow> nat \<Rightarrow> stream \<Rightarrow> string list \<Rightarrow> (fault + string list) option" where
  "print_locks h len s ls =
     (if s_pos s < len then
        (case stream_read_uint32_t h s of
           Inl e \<Rightarrow> Some (Inl e)
         | Inr (level, s) \<Rightarrow>
             (case stream_read_uint16_t h s of
                Inl e \<Rightarrow> Some (Inl e)
              | Inr (strlength, s) \<Rightarrow>
                  (case read_path (unat strlength) s of
                     Inl e \<Rightarrow> Some (Inl e)
                   | Inr (name, s) \<Rightarrow>
                       (case stream_read_uint8_t s of
                          Inl e \<Rightarrow> Some (Inl e)
                        | Inr (status_bits, s) \<Rightarrow>
                            print_locks h len s (ls @ [lock_line level name status_bits])))))
      else Some (Inr ls))"

declare print_connections.simps [code] print_processes.simps [code] print_locks.simps [code]

text \<open>The loop over the locks of a process; \<open>len\<close> is the number of bytes left.\<close>

function print_held ::
    "byte_order \<Rightarrow> u32 \<Rightarrow> nat \<Rightarrow> stream \<Rightarrow> string list \<Rightarrow> fault + string list" where
  "print_held h pid len s ls =
     (if 2 < len then
        (case stream_read_uint16_t h s of
           Inl e \<Rightarrow> Inl e
         | Inr (strlength, s) \<Rightarrow>
             if len < unat strlength + 2 + 1 then Inr ls
             else
               (case read_path (unat strlength) s of
                  Inl e \<Rightarrow> Inl e
                | Inr (path, s) \<Rightarrow>
                    (case stream_read_uint8_t s of
                       Inl e \<Rightarrow> Inl e
                     | Inr (m, s) \<Rightarrow>
                         print_held h pid (len - (unat strlength + 2 + 1)) s (ls @ [held_line pid m path]))))
      else Inr ls)"
  by pat_completeness auto
termination by (relation "measure (\<lambda>(h, pid, len, s, ls). len)") auto

declare print_held.simps [simp del]

definition printing :: "(fault + string list) option \<Rightarrow> (string list \<Rightarrow> manager) \<Rightarrow> manager outcome" where
  "printing res f = andthen (andthen (ended res) checked) (\<lambda>ls. Ok (f ls))"

definition manager_list_conns_response ::
    "byte_order \<Rightarrow> stream \<Rightarrow> argument_parser \<Rightarrow> nat \<Rightarrow> manager \<Rightarrow> manager outcome" where
  "manager_list_conns_response h s ap len m =
     (if ap_action ap = ''list-connections'' then
        printing (print_connections h len s []) (\<lambda>ls.
          (print ([''Connections to tclmd:'', rule_off] @ ls) m)\<lparr>quit_asked := True\<rparr>)
      else Ok m)"

definition manager_list_processes_response ::
    "byte_order \<Rightarrow> stream \<Rightarrow> argument_parser \<Rightarrow> nat \<Rightarrow> manager \<Rightarrow> manager outcome" where
  "manager_list_processes_response h s ap len m =
     (if ap_action ap = ''list-processes'' then
        printing (print_processes h len s []) (\<lambda>ls.
          (print ([''Registered Processes:'', ''    id               lock_count'', rule_off] @ ls) m)
            \<lparr>quit_asked := True\<rparr>)
      else Ok m)"

definition manager_list_locks_response ::
    "byte_order \<Rightarrow> stream \<Rightarrow> argument_parser \<Rightarrow> nat \<Rightarrow> manager \<Rightarrow> manager outcome" where
  "manager_list_locks_response h s ap len m =
     (if ap_action ap = ''list-locks'' then
        printing (print_locks h len s []) (\<lambda>ls.
          (print ([''Created Locks:'', ''name:status'', rule_off] @ ls) m)\<lparr>quit_asked := True\<rparr>)
      else Ok m)"

text \<open>\<open>END:\<close> the answers are counted, and after the last one the tool quits.\<close>

definition quit_when_complete :: "argument_parser \<Rightarrow> manager \<Rightarrow> manager" where
  "quit_when_complete ap m =
     (if unat (cnt_received m) = length (ap_names ap) then m\<lparr>quit_asked := True\<rparr> else m)"

definition manager_list_locks_process_response ::
    "byte_order \<Rightarrow> stream \<Rightarrow> argument_parser \<Rightarrow> nat \<Rightarrow> manager \<Rightarrow> manager outcome" where
  "manager_list_locks_process_response h s ap len m =
     (if ap_action ap = ''list-locks'' then
        let m = (if cnt_received m = 0
                 then print [''Locks of processes:'', ''  pid    mode                    path'', rule_off] m else m);
            m = m\<lparr>cnt_received := cnt_received m + 1\<rparr>;
            len = (len + 2 ^ 32 - s_pos s) mod 2 ^ 32
        in if len < 6 then Ok (quit_when_complete ap m)
           else
             andthen (checked (stream_read_uint32_t h s)) (\<lambda>(pid, s).
             andthen (checked (stream_read_uint16_t h s)) (\<lambda>(status, s).
             if status \<noteq> RESPONSE_STATUS_SUCCESS then
               Ok (quit_when_complete ap (print [pad 8 (show_int pid) @ '': no such process.''] m))
             else
               andthen (checked (print_held h pid (len - 6) s [])) (\<lambda>ls.
               Ok (quit_when_complete ap (print ls m)))))
      else Ok (quit_when_complete ap m))"

definition kill_line :: "u32 \<Rightarrow> u16 \<Rightarrow> string" where
  "kill_line pid status =
     (if status = RESPONSE_STATUS_SUCCESS then ''Process '' @ show_int pid @ '' killed.''
      else if status = RESPONSE_STATUS_NO_SUCH_PROCESS then ''No process '' @ show_int pid @ '' found.''
      else if status = RESPONSE_STATUS_PROCESS_HOLDS_LOCKS then ''Process '' @ show_int pid @ '' holds locks.''
      else ''Unknown status returned by tclm.'')"

definition manager_unregister_process_response ::
    "byte_order \<Rightarrow> stream \<Rightarrow> argument_parser \<Rightarrow> nat \<Rightarrow> manager \<Rightarrow> manager outcome" where
  "manager_unregister_process_response h s ap len m =
     (if ap_action ap \<noteq> ''kill'' then Ok m
      else
        andthen
          (if len = (s_pos s + 6) mod 2 ^ 64 then
             andthen (checked (stream_read_uint32_t h s)) (\<lambda>(pid, s).
             andthen (checked (stream_read_uint16_t h s)) (\<lambda>(status, s).
             Ok (print [kill_line pid status] m)))
           else Ok m)
          (\<lambda>m. Ok (m\<lparr>quit_asked := True\<rparr>)))"

definition manager_receive_message ::
    "byte_order \<Rightarrow> stream \<Rightarrow> argument_parser \<Rightarrow> manager \<Rightarrow> manager outcome" where
  "manager_receive_message h s ap m =
     (let len = s_length s mod 2 ^ 32
      in andthen (checked (stream_read_uint8_t s)) (\<lambda>(i, s).
         andthen (checked (stream_read_uint32_t h s)) (\<lambda>(_, s).
         if i = MSG_ID_LIST_CONNS_RESPONSE then manager_list_conns_response h s ap len m
         else if i = MSG_ID_LIST_PROCS_RESPONSE then manager_list_processes_response h s ap len m
         else if i = MSG_ID_LIST_LOCKS_RESPONSE then manager_list_locks_response h s ap len m
         else if i = MSG_ID_LIST_LOCKS_PROCESS_RESPONSE then
           manager_list_locks_process_response h s ap len m
         else if i = MSG_ID_UNREG_PROC_RESPONSE then manager_unregister_process_response h s ap len m
         else Ok m)))"

end
