(* ===== verification/Manager_Correct.thy ===== *)
theory Manager_Correct
  imports Manager Client_Server
begin

text \<open>
  The command line tool: its argument parser against a reference definition, the queries it sends,
  and the listings it prints, which are read back from the messages of the server.
\<close>

subsection \<open>Arguments\<close>

definition is_word :: "string \<Rightarrow> bool" where
  "is_word a \<longleftrightarrow> a \<noteq> [] \<and> hd a \<noteq> CHR ''-''"

definition is_long :: "string \<Rightarrow> bool" where
  "is_long a \<longleftrightarrow> take 2 a = ''--''"

definition is_short :: "string \<Rightarrow> bool" where
  "is_short a \<longleftrightarrow> a \<noteq> [] \<and> hd a = CHR ''-'' \<and> \<not> is_long a"

text \<open>An empty argument, a word, two dashes and a name of at least two characters, or a dash and a letter.\<close>

definition syntax_ok :: "string \<Rightarrow> bool" where
  "syntax_ok a \<longleftrightarrow>
     (if is_long a then 4 \<le> length a \<and> a ! 2 \<noteq> CHR ''-'' else if is_short a then length a = 2 else True)"

definition first_word :: "string \<Rightarrow> string list \<Rightarrow> string" where
  "first_word w args = (if w \<noteq> [] then w else case filter is_word args of [] \<Rightarrow> [] | v # vs \<Rightarrow> v)"

definition other_words :: "string \<Rightarrow> string list \<Rightarrow> string list" where
  "other_words w args = (if w \<noteq> [] then filter is_word args else tl (filter is_word args))"

lemma parse_argument_ok:
  "syntax_ok a \<Longrightarrow> parse_argument a ap =
     (if is_long a then Inr (ap\<lparr>long_parameters := long_parameters ap @ [drop 2 a]\<rparr>)
      else if is_short a then Inr (ap\<lparr>short_parameters := short_parameters ap @ [a ! 1]\<rparr>)
      else if is_word a then
        (if ap_action ap = [] then Inr (ap\<lparr>ap_action := a\<rparr>) else Inr (ap\<lparr>ap_names := ap_names ap @ [a]\<rparr>))
      else Inr ap)"
  by (cases a; cases "tl a")
    (auto simp: parse_argument_def syntax_ok_def is_long_def is_short_def is_word_def Let_def split: if_splits)

lemma parse_arguments_eq:
  assumes "\<forall>a \<in> set args. syntax_ok a"
  shows "parse_arguments args ap =
    Inr (ap\<lparr>ap_action := first_word (ap_action ap) args,
            long_parameters := long_parameters ap @ map (drop 2) (filter is_long args),
            short_parameters := short_parameters ap @ map (\<lambda>a. a ! 1) (filter is_short args),
            ap_names := ap_names ap @ other_words (ap_action ap) args\<rparr>)"
  using assms
proof (induction args arbitrary: ap)
  case Nil
  then show ?case by (simp add: first_word_def other_words_def)
next
  case (Cons a args)
  have ex: "is_long a \<Longrightarrow> \<not> is_short a \<and> \<not> is_word a" "is_short a \<Longrightarrow> \<not> is_long a \<and> \<not> is_word a"
    "is_word a \<Longrightarrow> a \<noteq> [] \<and> \<not> is_long a \<and> \<not> is_short a"
    by (cases a; auto simp: is_long_def is_short_def is_word_def)+
  have IH: "parse_arguments args ap' =
    Inr (ap'\<lparr>ap_action := first_word (ap_action ap') args,
            long_parameters := long_parameters ap' @ map (drop 2) (filter is_long args),
            short_parameters := short_parameters ap' @ map (\<lambda>a. a ! 1) (filter is_short args),
            ap_names := ap_names ap' @ other_words (ap_action ap') args\<rparr>)" for ap'
    using Cons.IH Cons.prems by simp
  from Cons.prems have ok: "syntax_ok a" by simp
  note simps = parse_argument_ok[OF ok] first_word_def other_words_def
  show ?case
  proof (cases "is_word a")
    case True
    with ex(3) show ?thesis by (cases "ap_action ap = []") (simp_all add: simps IH)
  next
    case False
    with ex(1,2) show ?thesis by (cases "is_long a"; cases "is_short a") (simp_all add: simps IH)
  qed
qed

text \<open>The error for the first argument that is none of these.\<close>

definition syntax_error :: "string \<Rightarrow> parse_error" where
  "syntax_error a =
     (if is_long a then if length a < 4 then Too_Short a else Starts_With_Dash a
      else if length a < 2 then Dash_Alone else Too_Long a)"

lemma parse_argument_bad: "\<not> syntax_ok a \<Longrightarrow> parse_argument a ap = Inl (syntax_error a)"
  by (cases a; cases "tl a")
    (auto simp: parse_argument_def syntax_ok_def syntax_error_def is_long_def is_short_def is_word_def Let_def
      split: if_splits)

lemma parse_arguments_error:
  "find (\<lambda>a. \<not> syntax_ok a) args = Some a \<Longrightarrow> parse_arguments args ap = Inl (syntax_error a)"
proof (induction args arbitrary: ap)
  case (Cons x args)
  then show ?case by (cases "syntax_ok x") (auto simp: parse_argument_ok parse_argument_bad)
qed simp

subsection \<open>Numbers\<close>

lemma digits_value_append: "digits_value (s @ [c]) = 10 * digits_value s + (of_char c - of_char (CHR ''0''))"
  by (simp add: digits_value_def)

lemma of_char_digit: "n < 10 \<Longrightarrow> (of_char (char_of (48 + n) :: char) :: nat) = 48 + n"
  by simp

lemma digits_value_show: "digits_value (show_nat n) = n"
proof (induction n rule: show_nat.induct)
  case (1 n)
  show ?case
  proof (cases "n < 10")
    case True
    then show ?thesis by (simp add: show_nat.simps[of n] digits_value_def)
  next
    case False
    with 1 show ?thesis
      by (subst show_nat.simps) (simp add: digits_value_append)
  qed
qed

lemma show_nat_digits: "\<forall>c \<in> set (show_nat n). is_digit c" "show_nat n \<noteq> []"
proof -
  have d: "is_digit (char_of (48 + k))" if "k < 10" for k :: nat using that by (simp add: is_digit_def)
  show "\<forall>c \<in> set (show_nat n). is_digit c"
  proof (induction n rule: show_nat.induct)
    case (1 n)
    then show ?case using d[of n] d[of "n mod 10"] by (subst show_nat.simps) auto
  qed
  show "show_nat n \<noteq> []" by (subst show_nat.simps) simp
qed

lemma show_int_small: "n < 2 ^ 31 \<Longrightarrow> show_int (of_nat n) = show_nat n"
proof -
  assume n: "n < 2 ^ 31"
  then have "sint (of_nat n :: u32) = int n" by (simp add: signed_of_nat signed_take_bit_int_eq_self)
  then show ?thesis by (simp add: show_int_def)
qed

lemma stoi_show: "stoi (show_nat n) = (if n < 2 ^ 31 then Ok (int n) else Terminated)"
  by (simp add: stoi_def digits_value_show show_nat_digits(2))

subsection \<open>Reading entries\<close>

text \<open>The stream holds a message of which \<open>rest\<close> has not been read.\<close>

definition unread :: "stream \<Rightarrow> byte list \<Rightarrow> byte list \<Rightarrow> bool" where
  "unread s m rest \<longleftrightarrow>
     (\<exists>p. reading s m p \<and> p \<le> length m \<and> drop p m = rest \<and> m \<noteq> [] \<and> length m < 2 ^ 63)"

lemma unreadI:
  "reading s m p \<Longrightarrow> p \<le> length m \<Longrightarrow> m \<noteq> [] \<Longrightarrow> length m < 2 ^ 63 \<Longrightarrow> unread s m (drop p m)"
  by (auto simp: unread_def)

lemma unread_pos: "unread s m rest \<Longrightarrow> s_pos s + length rest = length m"
  by (auto simp: unread_def reading_def)

lemma unread_more: "unread s m rest \<Longrightarrow> s_pos s < length m \<longleftrightarrow> rest \<noteq> []"
  using unread_pos[of s m rest] by (cases rest) auto

lemma unread_advance:
  assumes "unread s m (bs @ rest)"
  shows "unread (s\<lparr>s_pos := s_pos s + length bs\<rparr>) m rest"
proof -
  from assms obtain p where p: "reading s m p" "p \<le> length m" "drop p m = bs @ rest" "m \<noteq> []" "length m < 2 ^ 63"
    by (auto simp: unread_def)
  then have pos: "s_pos s = p" by (simp add: reading_def)
  have "length m - p = length bs + length rest" using p(3) by (metis length_append length_drop)
  with p(2) have le: "p + length bs \<le> length m" by simp
  have "drop (length bs) (drop p m) = rest" using p(3) by simp
  then have "drop (p + length bs) m = rest" by (simp add: add.commute)
  with reading_at[OF p(1,5) le p(4)] le p(4,5) pos show ?thesis unfolding unread_def by metis
qed

lemma unread_word:
  assumes "unread s m (big_endian n (w :: 'a::len word) @ rest)" "0 < n" "n < 2 ^ 63" "n = LENGTH('a) div 8"
    and "8 * n = LENGTH('a)"
  shows "read_word n Little_Endian s = Inr (w, s\<lparr>s_pos := s_pos s + n\<rparr>)"
proof -
  from assms obtain p where p: "reading s m p" "drop p m = big_endian n w @ rest" by (auto simp: unread_def)
  have "p + n \<le> length m" using unread_pos[OF assms(1)] p(1) by (simp add: reading_def)
  moreover have "from_bytes (take n (drop p m)) = w"
    using p(2) from_big_endian[OF assms(4,5), of w] by simp
  ultimately show ?thesis using read_word_ok[OF p(1) assms(2,3), of Little_Endian, where ?'a = 'a] p(1)
    by (simp add: reading_def)
qed

lemma unread_uint32:
  "unread s m (big_endian 4 (w :: u32) @ rest) \<Longrightarrow>
   stream_read_uint32_t Little_Endian s = Inr (w, s\<lparr>s_pos := s_pos s + 4\<rparr>) \<and> unread (s\<lparr>s_pos := s_pos s + 4\<rparr>) m rest"
  unfolding stream_read_uint32_t_def
  by (intro conjI unread_word) (use unread_advance[of s m "big_endian 4 w" rest] in \<open>simp_all only: length_big_endian\<close>, simp_all)

lemma unread_uint16:
  "unread s m (big_endian 2 (w :: u16) @ rest) \<Longrightarrow>
   stream_read_uint16_t Little_Endian s = Inr (w, s\<lparr>s_pos := s_pos s + 2\<rparr>) \<and> unread (s\<lparr>s_pos := s_pos s + 2\<rparr>) m rest"
  unfolding stream_read_uint16_t_def
  by (intro conjI unread_word) (use unread_advance[of s m "big_endian 2 w" rest] in \<open>simp_all only: length_big_endian\<close>, simp_all)

lemma unread_uint8:
  assumes "unread s m (b # rest)"
  shows "stream_read_uint8_t s = Inr (b, s\<lparr>s_pos := s_pos s + 1\<rparr>) \<and> unread (s\<lparr>s_pos := s_pos s + 1\<rparr>) m rest"
proof -
  from assms obtain p where p: "reading s m p" "drop p m = b # rest" by (auto simp: unread_def)
  have "p < length m" using p(2) by (metis drop_all leI list.distinct(1))
  moreover from this p(2) have "m ! p = b" by (metis hd_drop_conv_nth list.sel(1))
  ultimately show ?thesis
    using read_uint8_ok[OF p(1)] unread_advance[of s m "[b]" rest] assms p(1) by (simp add: reading_def)
qed

lemma unread_string:
  assumes "unread s m (bytes_of_string path @ rest)"
  shows "read_path (length path) s = Inr (path, stream_seek (s_pos s + length path) s)
    \<and> unread (stream_seek (s_pos s + length path) s) m rest"
proof -
  from assms obtain p where p: "reading s m p" "drop p m = bytes_of_string path @ rest" "m \<noteq> []"
    by (auto simp: unread_def)
  have "p + length path \<le> length m" using unread_pos[OF assms] p(1) by (simp add: reading_def)
  moreover from this have "(p + length path) mod 2 ^ 64 = p + length path" using assms by (auto simp: unread_def)
  ultimately show ?thesis using read_path_eq[OF p(1) _ p(3), of "length path"] unread_advance[OF assms] p(1,2)
    by (simp add: reading_def stream_seek_def)
qed

text \<open>The state after a read is abstract: only what is unread matters.\<close>

lemmas unread_cases = unread_uint32 unread_uint16 unread_uint8 unread_string

lemma unread_entry32:
  assumes "unread s m (big_endian 4 (w :: u32) @ rest)"
  obtains s' where "stream_read_uint32_t Little_Endian s = Inr (w, s')" "unread s' m rest"
  using unread_uint32[OF assms] that by blast

lemma unread_entry16:
  assumes "unread s m (big_endian 2 (w :: u16) @ rest)"
  obtains s' where "stream_read_uint16_t Little_Endian s = Inr (w, s')" "unread s' m rest"
  using unread_uint16[OF assms] that by blast

lemma unread_entry8:
  assumes "unread s m (b # rest)"
  obtains s' where "stream_read_uint8_t s = Inr (b, s')" "unread s' m rest"
  using unread_uint8[OF assms] that by blast

lemma unread_path:
  assumes "unread s m (path_field path @ rest)" "length path < 2 ^ 16"
  obtains s1 s2 where "stream_read_uint16_t Little_Endian s = Inr (of_nat (length path), s1)"
    "read_path (length path) s1 = Inr (path, s2)" "unread s2 m rest"
  using assms(1) unread_string that unfolding path_field_def append_assoc by (metis unread_uint16)

subsection \<open>Listings\<close>

lemma print_processes_entries:
  assumes "unread s m (concat (map process_entry ps))"
  shows "print_processes Little_Endian (length m) s ls =
    Some (Inr (ls @ map (\<lambda>p. process_line (get_id p) (get_lock_count p)) ps))"
  using assms
proof (induction ps arbitrary: s ls)
  case Nil
  then show ?case using unread_more[OF Nil] by (subst print_processes.simps) simp
next
  case (Cons p ps)
  then have u: "unread s m (big_endian 4 (get_id p) @ big_endian 4 (get_lock_count p) @ concat (map process_entry ps))"
    by (simp add: process_entry_def[of p])
  then obtain s1 where s1: "stream_read_uint32_t Little_Endian s = Inr (get_id p, s1)"
    "unread s1 m (big_endian 4 (get_lock_count p) @ concat (map process_entry ps))" by (rule unread_entry32)
  from s1(2) obtain s2 where s2: "stream_read_uint32_t Little_Endian s1 = Inr (get_lock_count p, s2)"
    "unread s2 m (concat (map process_entry ps))" by (rule unread_entry32)
  have "s_pos s < length m" using unread_more[OF u] by (metis append_is_Nil_conv length_big_endian list.size(3) zero_neq_numeral)
  with s1(1) s2(1) Cons.IH[OF s2(2)] show ?case by (subst print_processes.simps) simp
qed

lemma print_locks_entries:
  assumes "unread s m (concat (map lock_entry lls))" "\<forall>ll \<in> set lls. length (name_of (fst ll)) < 2 ^ 16"
  shows "print_locks Little_Endian (length m) s ls =
    Some (Inr (ls @ map (\<lambda>(l, k). lock_line (of_nat k) (name_of l) (lock_status l)) lls))"
  using assms
proof (induction lls arbitrary: s ls)
  case Nil
  then show ?case using unread_more[OF Nil(1)] by (subst print_locks.simps) simp
next
  case (Cons ll lls)
  let ?rest = "concat (map lock_entry lls)" and ?l = "fst ll"
  have n: "length (name_of ?l) < 2 ^ 16" using Cons.prems(2) by simp
  have u: "unread s m (big_endian 4 (of_nat (snd ll) :: u32) @ path_field (name_of ?l) @ lock_status ?l # ?rest)"
    using Cons.prems(1) by (simp add: lock_entry_def[of ll])
  then obtain s1 where s1: "stream_read_uint32_t Little_Endian s = Inr (of_nat (snd ll), s1)"
    "unread s1 m (path_field (name_of ?l) @ lock_status ?l # ?rest)" by (rule unread_entry32)
  from s1(2) n obtain s2 s3 where s2: "stream_read_uint16_t Little_Endian s1 = Inr (of_nat (length (name_of ?l)), s2)"
    "read_path (length (name_of ?l)) s2 = Inr (name_of ?l, s3)" "unread s3 m (lock_status ?l # ?rest)"
    by (rule unread_path)
  from s2(3) obtain s4 where s4: "stream_read_uint8_t s3 = Inr (lock_status ?l, s4)" "unread s4 m ?rest"
    by (rule unread_entry8)
  have "s_pos s < length m" using unread_more[OF u] by (metis append_is_Nil_conv length_big_endian list.size(3) zero_neq_numeral)
  moreover have "unat (of_nat (length (name_of ?l)) :: u16) = length (name_of ?l)" using n by (simp add: unat_of_nat)
  ultimately show ?case using s1(1) s2(1,2) s4(1) Cons.IH[OF s4(2)] Cons.prems(2)
    by (subst print_locks.simps) (simp add: case_prod_unfold)
qed

text \<open>
  The address of a peer is kept as the system has it, with its first byte lowest; the port is in
  network byte order.
\<close>

definition connection_text :: "tcp_connection \<Rightarrow> string" where
  "connection_text t =
     connection_line (ucast (sin_addr t)) (ucast (drop_bit 8 (sin_addr t))) (ucast (drop_bit 16 (sin_addr t)))
       (ucast (drop_bit 24 (sin_addr t))) (byte_swap (sin_port t))"

lemma connection_entry_bytes:
  "connection_entry t =
     0 # ucast (sin_addr t) # ucast (drop_bit 8 (sin_addr t)) # ucast (drop_bit 16 (sin_addr t)) #
     ucast (drop_bit 24 (sin_addr t)) # big_endian 2 (byte_swap (sin_port t))"
proof -
  have low: "ucast (and w 0xff) = (ucast w :: byte)" for w :: u32
    by (rule bit_word_eqI) (auto simp: and_ff bit_simps)
  have four: "low_bytes 4 w =
      [ucast w, ucast (drop_bit 8 w), ucast (drop_bit 16 w), ucast (drop_bit 24 w)]" for w :: u32
  proof -
    have "low_bytes 4 w = low_bytes (Suc (Suc (Suc (Suc 0)))) w"
      by (rule arg_cong[where f = "\<lambda>n. low_bytes n w"]) simp
    then show ?thesis by (simp only: low_bytes.simps low drop_bit_drop_bit) simp
  qed
  have "big_endian 4 (byte_swap (sin_addr t)) = low_bytes 4 (sin_addr t)"
    by (simp add: big_endian_def low_bytes_byte_swap)
  with four show ?thesis by (simp add: connection_entry_def)
qed

lemma print_connections_entries:
  assumes "unread s m (concat (map connection_entry ts))"
  shows "print_connections Little_Endian (length m) s ls = Some (Inr (ls @ map connection_text ts))"
  using assms
proof (induction ts arbitrary: s ls)
  case Nil
  then show ?case using unread_more[OF Nil] by (subst print_connections.simps) simp
next
  case (Cons t ts)
  let ?rest = "concat (map connection_entry ts)"
  from Cons.prems have u: "unread s m (0 # ucast (sin_addr t) # ucast (drop_bit 8 (sin_addr t)) #
      ucast (drop_bit 16 (sin_addr t)) # ucast (drop_bit 24 (sin_addr t)) #
      (big_endian 2 (byte_swap (sin_port t)) @ ?rest))"
    by (simp add: connection_entry_bytes[of t])
  then have pos: "s_pos s < length m" using unread_more by blast
  from u obtain s0 where s0: "stream_read_uint8_t s = Inr (0, s0)"
    "unread s0 m (ucast (sin_addr t) # ucast (drop_bit 8 (sin_addr t)) #
      ucast (drop_bit 16 (sin_addr t)) # ucast (drop_bit 24 (sin_addr t)) #
      (big_endian 2 (byte_swap (sin_port t)) @ ?rest))" by (rule unread_entry8)
  have "s_pos s0 + 6 \<le> length m" "length m < 2 ^ 63"
    using unread_pos[OF s0(2)] s0(2) by (auto simp: unread_def)
  then have room: "(s_pos s0 + 6) mod 2 ^ 64 \<le> length m" by simp
  obtain s1 s2 s3 s4 where a: "stream_read_uint8_t s0 = Inr (ucast (sin_addr t), s1)"
      "stream_read_uint8_t s1 = Inr (ucast (drop_bit 8 (sin_addr t)), s2)"
      "stream_read_uint8_t s2 = Inr (ucast (drop_bit 16 (sin_addr t)), s3)"
      "stream_read_uint8_t s3 = Inr (ucast (drop_bit 24 (sin_addr t)), s4)"
      "unread s4 m (big_endian 2 (byte_swap (sin_port t)) @ ?rest)"
    using s0(2) by (elim unread_entry8) blast
  from a(5) obtain s5 where s5: "stream_read_uint16_t Little_Endian s4 = Inr (byte_swap (sin_port t), s5)"
    "unread s5 m ?rest" by (rule unread_entry16)
  from pos room s0(1) a(1-4) s5(1) Cons.IH[OF s5(2)] show ?case
    by (subst print_connections.simps) (simp add: connection_text_def)
qed

text \<open>The locks of a process; the number of bytes left decides where the loop ends.\<close>

lemma print_held_entries:
  assumes "unread s m (concat (map held_lock_entry pms))" "\<forall>pm \<in> set pms. length (fst pm) < 2 ^ 16"
  shows "print_held Little_Endian pid (length (concat (map held_lock_entry pms))) s ls =
    Inr (ls @ map (\<lambda>(path, k). held_line pid k path) pms)"
  using assms
proof (induction pms arbitrary: s ls)
  case Nil
  then show ?case by (subst print_held.simps) simp
next
  case (Cons pm pms)
  let ?rest = "concat (map held_lock_entry pms)"
  have n: "length (fst pm) < 2 ^ 16" using Cons.prems(2) by simp
  have u: "unread s m (path_field (fst pm) @ snd pm # ?rest)"
    using Cons.prems(1) by (simp add: held_lock_entry_def[of pm])
  from u n obtain s2 s3 where s2: "stream_read_uint16_t Little_Endian s = Inr (of_nat (length (fst pm)), s2)"
    "read_path (length (fst pm)) s2 = Inr (fst pm, s3)" "unread s3 m (snd pm # ?rest)" by (rule unread_path)
  from s2(3) obtain s4 where s4: "stream_read_uint8_t s3 = Inr (snd pm, s4)" "unread s4 m ?rest"
    by (rule unread_entry8)
  have "unat (of_nat (length (fst pm)) :: u16) = length (fst pm)" using n by (simp add: unat_of_nat)
  moreover have "length (concat (map held_lock_entry (pm # pms))) = length (fst pm) + 2 + 1 + length ?rest"
    by (simp add: held_lock_entry_def[of pm])
  ultimately show ?case using s2(1,2) s4(1) Cons.IH[OF s4(2)] Cons.prems(2)
    by (subst print_held.simps) (simp add: case_prod_unfold)
qed

subsection \<open>Termination of the listing of processes\<close>

text \<open>
  A read past the end does not advance the stream. With fewer than four bytes left the loop in
  \<open>receive_list_processes_response\<close> therefore never ends.
\<close>

lemma read32_unread:
  assumes "unread s m rest"
  obtains w s' where "stream_read_uint32_t Little_Endian s = Inr (w, s')"
    "unread s' m (if 4 \<le> length rest then drop 4 rest else rest)" "length rest < 4 \<Longrightarrow> s' = s"
proof (cases "4 \<le> length rest")
  case True
  from assms obtain p where p: "reading s m p" "p \<le> length m" "drop p m = rest" "m \<noteq> []" "length m < 2 ^ 63"
    by (auto simp: unread_def)
  with True have "p + 4 \<le> length m" by auto
  then have "unread (s\<lparr>s_pos := p + 4\<rparr>) m (drop 4 rest)"
    using unreadI[OF reading_at[OF p(1,5) _ p(4)] _ p(4,5), of "p + 4"] p(3) by (auto simp: add.commute)
  with read32_eq[OF p(1) \<open>p + 4 \<le> length m\<close>] that True show ?thesis by simp
next
  case False
  from assms obtain p where p: "reading s m p" "p \<le> length m" "drop p m = rest" by (auto simp: unread_def)
  with False have "\<not> p + 4 \<le> length m" by auto
  with read_word_ok[OF p(1), of 4 Little_Endian, where ?'a = 32] that False assms show ?thesis
    by (auto simp: stream_read_uint32_t_def)
qed

lemma print_processes_stuck:
  assumes "unread s m rest" "rest \<noteq> []" "length rest < 4"
  shows "print_processes Little_Endian (length m) s ls = None"
proof -
  have read: "\<exists>w. stream_read_uint32_t Little_Endian s = Inr (w, s)" "s_pos s < length m"
    using read32_unread[OF assms(1)] assms(3) unread_more[OF assms(1)] assms(2) by metis+
  have "\<not> (h = Little_Endian \<and> len = length m \<and> s' = s)" if "print_processes h len s' ls = Some y" for h len s' ls y
  proof (rule print_processes.raw_induct[OF _ that], rule notI)
    fix pp :: "byte_order \<Rightarrow> nat \<Rightarrow> stream \<Rightarrow> string list \<Rightarrow> (fault + string list) option" and h len s' ls y
    assume IH: "\<And>h len s' ls y. pp h len s' ls = Some y \<Longrightarrow> \<not> (h = Little_Endian \<and> len = length m \<and> s' = s)"
      and body: "(if s_pos s' < len then
          (case stream_read_uint32_t h s' of
             Inl e \<Rightarrow> Some (Inl e)
           | Inr (i, s) \<Rightarrow>
               (case stream_read_uint32_t h s of
                  Inl e \<Rightarrow> Some (Inl e)
                | Inr (lock_count, s) \<Rightarrow> pp h len s (ls @ [process_line i lock_count])))
          else Some (Inr ls)) = Some y"
      and here: "h = Little_Endian \<and> len = length m \<and> s' = s"
    from body here read obtain ls' where "pp Little_Endian (length m) s ls' = Some y" by auto
    from IH[OF this] show False by simp
  qed
  then show ?thesis by (cases "print_processes Little_Endian (length m) s ls") blast+
qed

lemma print_processes_ends:
  assumes "unread s m rest"
  shows "(\<exists>res. print_processes Little_Endian (length m) s ls = Some res) \<longleftrightarrow> 4 dvd length rest"
  using assms
proof (induction "length rest" arbitrary: rest s ls rule: less_induct)
  case less
  consider "rest = []" | "rest \<noteq> []" "length rest < 4" | "4 \<le> length rest" by linarith
  then show ?case
  proof cases
    case 1
    then show ?thesis using unread_more[OF less.prems] by (subst print_processes.simps) simp
  next
    case 2
    then have "\<not> 4 dvd length rest" by (auto dest: dvd_imp_le)
    with print_processes_stuck[OF less.prems 2] show ?thesis by simp
  next
    case 3
    obtain w1 s1 where s1: "stream_read_uint32_t Little_Endian s = Inr (w1, s1)" "unread s1 m (drop 4 rest)"
      using read32_unread[OF less.prems] 3 by (metis (full_types))
    obtain w2 s2 where s2: "stream_read_uint32_t Little_Endian s1 = Inr (w2, s2)"
      "unread s2 m (if 4 \<le> length (drop 4 rest) then drop 4 (drop 4 rest) else drop 4 rest)"
      using read32_unread[OF s1(2)] by metis
    let ?rest = "if 4 \<le> length (drop 4 rest) then drop 4 (drop 4 rest) else drop 4 rest"
    have "s_pos s < length m" using unread_more[OF less.prems] 3 by auto
    then have "print_processes Little_Endian (length m) s ls =
        print_processes Little_Endian (length m) s2 (ls @ [process_line w1 w2])"
      using s1(1) s2(1) by (subst print_processes.simps) simp
    moreover have "length ?rest < length rest" using 3 by auto
    moreover have "4 dvd length ?rest \<longleftrightarrow> 4 dvd length rest" using 3 by (auto simp: dvd_minus_self) presburger+
    ultimately show ?thesis using less.hyps[OF _ s2(2)] by simp
  qed
qed

end
