(* ===== verification/Manager_Server.thy ===== *)
theory Manager_Server
  imports Manager_Correct
begin

text \<open>
  The command line tool and the server: the messages it sends, what the daemon answers to them
  and what is printed of the answers.
\<close>

subsection \<open>Queries\<close>

text \<open>The names that are converted to numbers, and what each action sends.\<close>

definition pid_names :: "argument_parser \<Rightarrow> string list" where
  "pid_names ap =
     (if ap_action ap = ''list-locks'' then ap_names ap
      else if ap_action ap = ''kill'' then [ap_names ap ! 0] else [])"

definition pid_ok :: "string \<Rightarrow> bool" where
  "pid_ok name \<longleftrightarrow> name \<noteq> [] \<and> digits_value name < 2 ^ 31"

definition pid_of :: "string \<Rightarrow> u32" where
  "pid_of name = of_nat (digits_value name)"

definition query_messages :: "argument_parser \<Rightarrow> byte list list" where
  "query_messages ap =
     (if ap_action ap = ''list-connections'' then [message MSG_ID_LIST_CONNS []]
      else if ap_action ap = ''list-processes'' then [message MSG_ID_LIST_PROCS []]
      else if ap_action ap = ''list-locks'' then
        (if ap_names ap = [] then [message MSG_ID_LIST_LOCKS []]
         else map (\<lambda>name. message MSG_ID_LIST_LOCKS_PROCESS (big_endian 4 (pid_of name))) (ap_names ap))
      else [message MSG_ID_UNREG_PROC (big_endian 4 (pid_of (ap_names ap ! 0)))])"

lemma pid_of_show: "pid_of (show_nat n) = of_nat n" "pid_ok (show_nat n) \<longleftrightarrow> n < 2 ^ 31"
  by (simp_all add: pid_of_def pid_ok_def digits_value_show show_nat_digits(2))

lemma stoi_eq: "stoi name = (if pid_ok name then Ok (int (digits_value name)) else Terminated)"
  by (auto simp: stoi_def pid_ok_def)

lemma new_stream:
  assumes "alloc_good False alloc"
  obtains s where "stream_new alloc = Some s" "writing s [] 0"
  using assms by (cases rule: stream_new_good) auto

lemma header_only:
  assumes "writing s [] 0" "alloc_good False alloc"
  obtains s' where "write_message_header alloc Little_Endian i n s = Some (Inr (s', True))"
    "writing s' (header i n) 0"
proof -
  have "ensures False False (\<lambda>(s', ok). ok \<and> writing s' (header i n) 0)
      (andthen (andthen (ended (write_message_header alloc Little_Endian i n s)) checked) Ok)"
    by (rule header_new_rule[OF assms]) auto
  then show ?thesis using that
    by (cases "write_message_header alloc Little_Endian i n s") (auto simp: checked_def split: sum.splits)
qed

lemma message_0: "message i [] = header i 0"
  by (simp add: message_def)

lemma message_4: "message i (big_endian 4 w) = header i 4 @ big_endian 4 w"
  by (simp add: message_def)

lemma header_query_ok:
  assumes "writing s [] 0" "alloc_good False alloc"
  obtains s' where "header_query Little_Endian alloc i s = Ok (Inr [s'])" "ready s' (message i [])"
proof -
  obtain s' where s': "write_message_header alloc Little_Endian i 0 s = Some (Inr (s', True))"
    "writing s' (header i 0) 0" using header_only[OF assms] .
  from s'(2) have "ready s' (message i [])" by (simp add: message_0 header_def writing_ready)
  with s'(1) show ?thesis by (intro that[of s']) (simp_all add: header_query_def)
qed

lemma pid_query_ok:
  assumes "writing s [] 0" "mem_good False mem"
  obtains s' where "pid_query Little_Endian mem i name s = (if pid_ok name then Ok (Inr s') else Terminated)"
    "ready s' (message i (big_endian 4 (pid_of name)))"
proof -
  obtain s1 where s1: "write_message_header (mem 0) Little_Endian i 4 s = Some (Inr (s1, True))"
    "writing s1 (header i 4) 0" using header_only[OF assms(1) mem_good_nth[OF assms(2)]] .
  obtain s2 where s2: "stream_ensure_remaining_capacity (mem 1) 4 s1 = Some (s2, 0)" "writing s2 (header i 4) 4"
    using capacity_rule[OF s1(2) mem_good_nth[OF assms(2)], of 4 1] by auto
  obtain s3 where s3: "stream_write_uint32_t Little_Endian (pid_of name) s2 = Inr s3"
    "writing s3 (header i 4 @ big_endian 4 (pid_of name)) 0" using write_uint32_ok[of s2 "header i 4" 0] s2(2) by auto
  from s3(2) have "ready s3 (message i (big_endian 4 (pid_of name)))"
    by (simp add: message_4 writing_ready header_def)
  with s1(1) s2(1) s3(1) show ?thesis
    by (intro that[of s3]) (simp_all add: pid_query_def stoi_eq pid_of_def)
qed

lemma list_locks_queries_ok:
  assumes "mem_good False mem"
  shows "if list_all pid_ok names
    then \<exists>ss. list_locks_queries Little_Endian mem names = Ok (Inr ss) \<and>
      list_all2 ready ss (map (\<lambda>name. message MSG_ID_LIST_LOCKS_PROCESS (big_endian 4 (pid_of name))) names)
    else list_locks_queries Little_Endian mem names = Terminated"
  using assms
proof (induction names arbitrary: mem)
  case (Cons name names)
  note shift = mem_good_shift[OF Cons.prems]
  obtain s where s: "stream_new (mem 0) = Some s" "writing s [] 0" using new_stream[OF mem_good_nth[OF Cons.prems]] .
  obtain s' where s': "pid_query Little_Endian (\<lambda>k. mem (k + 1)) MSG_ID_LIST_LOCKS_PROCESS name s =
      (if pid_ok name then Ok (Inr s') else Terminated)"
    "ready s' (message MSG_ID_LIST_LOCKS_PROCESS (big_endian 4 (pid_of name)))"
    using pid_query_ok[OF s(2) shift] .
  from Cons.IH[OF shift[of 3]] s s' show ?case by (auto split: if_splits)
qed simp

text \<open>With memory available \<open>query\<close> succeeds unless a pid does not fit into an \<open>int\<close>.\<close>

lemma query_ok:
  assumes "mem_good False mem" "validate ap = None"
  shows "if list_all pid_ok (pid_names ap)
    then \<exists>ss. query Little_Endian mem ap = Ok (Inr ss) \<and> list_all2 ready ss (query_messages ap)
    else query Little_Endian mem ap = Terminated"
proof -
  note shift = mem_good_shift[OF assms(1)] and nth = mem_good_nth[OF assms(1)]
  obtain s where s: "stream_new (mem 0) = Some s" "writing s [] 0" using new_stream[OF nth] .
  consider (conns) "ap_action ap = ''list-connections''" | (procs) "ap_action ap = ''list-processes''"
    | (locks) "ap_action ap = ''list-locks''" "ap_names ap = []"
    | (held) "ap_action ap = ''list-locks''" "ap_names ap \<noteq> []" | (kill) "ap_action ap = ''kill''"
    using assms(2) by (auto simp: validate_def split: if_splits)
  then show ?thesis
  proof cases
    case conns
    obtain s1 where s1: "stream_ensure_remaining_capacity (mem 1) 5 s = Some (s1, 0)" "writing s1 [] 5"
      using capacity_rule[OF s(2) nth, of 5 1] by auto
    obtain s2 where s2: "stream_write_uint8_t MSG_ID_LIST_CONNS s1 = Inr s2" "writing s2 [MSG_ID_LIST_CONNS] 4"
      using write_uint8_ok[of s1 "[]" 4] s1(2) by auto
    obtain s3 where s3: "stream_write_uint32_t Little_Endian 0 s2 = Inr s3"
      "writing s3 (MSG_ID_LIST_CONNS # big_endian 4 (0 :: u32)) 0"
      using write_uint32_ok[of s2 "[MSG_ID_LIST_CONNS]" 0 0] s2(2) by auto
    from s3(2) have "ready s3 (message MSG_ID_LIST_CONNS [])" by (simp add: message_0 header_def writing_ready)
    with conns s(1) s1(1) s2(1) s3(1) show ?thesis by (simp add: query_def query_messages_def pid_names_def)
  next
    case procs
    obtain s' where "header_query Little_Endian (mem 1) MSG_ID_LIST_PROCS s = Ok (Inr [s'])"
      "ready s' (message MSG_ID_LIST_PROCS [])" using header_query_ok[OF s(2) nth] .
    with procs s(1) show ?thesis by (simp add: query_def query_messages_def pid_names_def)
  next
    case locks
    obtain s' where "header_query Little_Endian (mem 1) MSG_ID_LIST_LOCKS s = Ok (Inr [s'])"
      "ready s' (message MSG_ID_LIST_LOCKS [])" using header_query_ok[OF s(2) nth] .
    with locks s(1) show ?thesis by (simp add: query_def query_messages_def pid_names_def)
  next
    case held
    then have "query Little_Endian mem ap = list_locks_queries Little_Endian (\<lambda>k. mem (k + 1)) (ap_names ap)"
      using s(1) by (simp add: query_def)
    with list_locks_queries_ok[OF shift[of 1], of "ap_names ap"] held show ?thesis
      by (simp add: query_messages_def pid_names_def split: if_splits)
  next
    case kill
    obtain s' where "pid_query Little_Endian (\<lambda>k. mem (k + 1)) MSG_ID_UNREG_PROC (ap_names ap ! 0) s =
        (if pid_ok (ap_names ap ! 0) then Ok (Inr s') else Terminated)"
      "ready s' (message MSG_ID_UNREG_PROC (big_endian 4 (pid_of (ap_names ap ! 0))))"
      using pid_query_ok[OF s(2) shift] .
    with kill s(1) show ?thesis by (simp add: query_def query_messages_def pid_names_def)
  qed
qed

lemma send_queue_fold_send: "send_queue (fold send ss c) = send_queue c @ map (stream_seek 0) ss"
  by (induction ss arbitrary: c) (simp_all add: send_def)

lemma ready_contents: "list_all2 ready ss ms \<Longrightarrow> map stream_contents (map (stream_seek 0) ss) = ms"
  by (induction rule: list_all2_induct) (simp_all add: ready_def)

subsection \<open>Answers\<close>

text \<open>What the tool is meant to print of the state of the daemon.\<close>

definition listing_lines :: "argument_parser \<Rightarrow> daemon \<Rightarrow> string list" where
  "listing_lines ap d =
     (if ap_action ap = ''list-connections'' then
        [''Connections to tclmd:'', rule_off] @ map connection_text (map snd (polled_fds d))
      else if ap_action ap = ''list-processes'' then
        [''Registered Processes:'', ''    id               lock_count'', rule_off] @
        map (\<lambda>p. process_line (get_id p) (get_lock_count p)) (for_each_process (Process_table (daemon_backend d)))
      else
        [''Created Locks:'', ''name:status'', rule_off] @
        map (\<lambda>(l, k). lock_line (of_nat k) (name_of l) (lock_status l)) (for_each_lock (Forest (daemon_backend d))))"

definition held_lines :: "daemon \<Rightarrow> proc \<Rightarrow> string list" where
  "held_lines d pid =
     (case find_process (Process_table (daemon_backend d)) pid of
        None \<Rightarrow> [pad 8 (show_int pid) @ '': no such process.'']
      | Some p \<Rightarrow> map (\<lambda>(path, k). held_line pid k path) (get_held_locks p))"

text \<open>Names that fit into the length field of a message.\<close>

definition names_short :: "daemon \<Rightarrow> bool" where
  "names_short d \<longleftrightarrow>
     (\<forall>ll \<in> set (for_each_lock (Forest (daemon_backend d))). length (name_of (fst ll)) < 2 ^ 16) \<and>
     (\<forall>pid p. find_process (Process_table (daemon_backend d)) pid = Some p \<longrightarrow>
        (\<forall>pm \<in> set (get_held_locks p). length (fst pm) < 2 ^ 16))"

definition dispatch :: "byte \<Rightarrow> stream \<Rightarrow> argument_parser \<Rightarrow> nat \<Rightarrow> manager \<Rightarrow> manager outcome" where
  "dispatch i s ap len mg =
     (if i = MSG_ID_LIST_CONNS_RESPONSE then manager_list_conns_response Little_Endian s ap len mg
      else if i = MSG_ID_LIST_PROCS_RESPONSE then manager_list_processes_response Little_Endian s ap len mg
      else if i = MSG_ID_LIST_LOCKS_RESPONSE then manager_list_locks_response Little_Endian s ap len mg
      else if i = MSG_ID_LIST_LOCKS_PROCESS_RESPONSE then
        manager_list_locks_process_response Little_Endian s ap len mg
      else if i = MSG_ID_UNREG_PROC_RESPONSE then manager_unregister_process_response Little_Endian s ap len mg
      else Ok mg)"

lemma manager_receive_eq:
  assumes "message_in s (message i body)"
  obtains s' where "unread s' (message i body) body"
    "manager_receive_message Little_Endian s ap mg =
       dispatch i s' ap (length (message i body)) mg"
proof -
  let ?m = "message i body"
  have r: "reading s ?m 0" "length ?m + 2 < 2 ^ 32" using assms by (simp_all only: message_in_def)
  have "unread s ?m (drop 0 ?m)" by (rule unreadI[OF r(1)]) (use r(2) in \<open>auto simp: message_def header_def\<close>)
  then have "unread s ?m (i # big_endian 4 (of_nat (length body) :: u32) @ body)"
    by (simp add: message_def header_def)
  then obtain s1 where s1: "stream_read_uint8_t s = Inr (i, s1)"
    "unread s1 ?m (big_endian 4 (of_nat (length body) :: u32) @ body)" by (rule unread_entry8)
  from s1(2) obtain s2 where s2: "stream_read_uint32_t Little_Endian s1 = Inr (of_nat (length body), s2)"
    "unread s2 ?m body" by (rule unread_entry32)
  have "s_length s mod 2 ^ 32 = length ?m" using r by (simp add: reading_def)
  with s1(1) s2 show ?thesis by (intro that[of s2]) (simp_all add: manager_receive_message_def Let_def dispatch_def)
qed

lemma listing_printed:
  assumes "message_in s (message i body)" "names_short d"
    and "i = MSG_ID_LIST_CONNS_RESPONSE \<and> body = connections_body d \<and> ap_action ap = ''list-connections'' \<or>
         i = MSG_ID_LIST_PROCS_RESPONSE \<and> body = processes_body d \<and> ap_action ap = ''list-processes'' \<or>
         i = MSG_ID_LIST_LOCKS_RESPONSE \<and> body = locks_body d \<and> ap_action ap = ''list-locks''"
  shows "manager_receive_message Little_Endian s ap mg =
    Ok ((print (listing_lines ap d) mg)\<lparr>quit_asked := True\<rparr>)"
proof -
  obtain s' where s': "unread s' (message i body) body"
    "manager_receive_message Little_Endian s ap mg =
       dispatch i s' ap (length (message i body)) mg"
    using manager_receive_eq[OF assms(1)] .
  from assms(3) consider
      (conns) "i = MSG_ID_LIST_CONNS_RESPONSE" "body = connections_body d" "ap_action ap = ''list-connections''"
    | (procs) "i = MSG_ID_LIST_PROCS_RESPONSE" "body = processes_body d" "ap_action ap = ''list-processes''"
    | (locks) "i = MSG_ID_LIST_LOCKS_RESPONSE" "body = locks_body d" "ap_action ap = ''list-locks''" by blast
  then show ?thesis
  proof cases
    case conns
    with print_connections_entries[of s' "message i body" "map snd (polled_fds d)" "[]"] s' show ?thesis
      by (simp add: dispatch_def manager_list_conns_response_def printing_def connections_body_def listing_lines_def)
  next
    case procs
    with print_processes_entries[of s' "message i body" "for_each_process (Process_table (daemon_backend d))" "[]"] s'
    show ?thesis
      by (simp add: dispatch_def manager_list_processes_response_def printing_def processes_body_def listing_lines_def)
  next
    case locks
    with print_locks_entries[of s' "message i body" "for_each_lock (Forest (daemon_backend d))" "[]"] s' assms(2)
    show ?thesis
      by (simp add: dispatch_def manager_list_locks_response_def printing_def locks_body_def listing_lines_def names_short_def)
  qed
qed

text \<open>The locks of one process; the title is printed with the first answer.\<close>

definition held_title :: "string list" where
  "held_title = [''Locks of processes:'', ''  pid    mode                    path'', rule_off]"

definition titled :: "manager \<Rightarrow> manager" where
  "titled mg = (if cnt_received mg = 0 then print held_title mg else mg)\<lparr>cnt_received := cnt_received mg + 1\<rparr>"

lemma print_fields [simp]:
  "cnt_received (print ls mg) = cnt_received mg" "quit_asked (print ls mg) = quit_asked mg"
  "printed (print ls mg) = printed mg @ ls"
  by (simp_all add: print_def)

lemma held_printed:
  assumes "message_in s (message MSG_ID_LIST_LOCKS_PROCESS_RESPONSE (held_locks_body d pid))" "names_short d"
    and "ap_action ap = ''list-locks''"
  shows "manager_receive_message Little_Endian s ap mg =
    Ok (quit_when_complete ap (print (held_lines d pid) (titled mg)))"
proof -
  let ?b = "held_locks_body d pid" and ?m = "message MSG_ID_LIST_LOCKS_PROCESS_RESPONSE (held_locks_body d pid)"
  obtain s' where s': "unread s' ?m ?b"
    "manager_receive_message Little_Endian s ap mg =
       manager_list_locks_process_response Little_Endian s' ap (length ?m) mg"
    using manager_receive_eq[OF assms(1), of ap mg] by (auto simp: dispatch_def)
  obtain status rest where b: "?b = big_endian 4 pid @ big_endian 2 (status :: u16) @ rest"
    "find_process (Process_table (daemon_backend d)) pid = None \<Longrightarrow> status = RESPONSE_STATUS_NO_SUCH_PROCESS"
    "\<And>p. find_process (Process_table (daemon_backend d)) pid = Some p \<Longrightarrow> status = RESPONSE_STATUS_SUCCESS \<and>
       rest = concat (map held_lock_entry (get_held_locks p))"
    by (cases "find_process (Process_table (daemon_backend d)) pid") (auto simp: held_locks_body_def)
  obtain s1 where s1: "stream_read_uint32_t Little_Endian s' = Inr (pid, s1)"
    "unread s1 ?m (big_endian 2 status @ rest)" using s'(1)[unfolded b(1)] unread_entry32 b(1) by metis
  obtain s2 where s2: "stream_read_uint16_t Little_Endian s1 = Inr (status, s2)" "unread s2 ?m rest"
    using s1(2) by (rule unread_entry16)
  have "length ?m < 2 ^ 32" using assms(1) by (simp add: message_in_def)
  then have len: "(length ?m + 2 ^ 32 - s_pos s') mod 2 ^ 32 = 6 + length rest"
    using unread_pos[OF s'(1)] b(1) mod_add_self2[of "6 + length rest" "2 ^ 32"] by simp
  show ?thesis
  proof (cases "find_process (Process_table (daemon_backend d)) pid")
    case None
    with s'(2) s1(1) s2(1) len b(2) assms(3) show ?thesis
      by (simp add: manager_list_locks_process_response_def titled_def held_lines_def Let_def held_title_def)
  next
    case (Some p)
    with b(3) have st: "status = RESPONSE_STATUS_SUCCESS" "rest = concat (map held_lock_entry (get_held_locks p))"
      by auto
    have "print_held Little_Endian pid (length rest) s2 [] = Inr (held_lines d pid)"
      using print_held_entries[of s2 ?m "get_held_locks p" pid "[]"] s2(2) st(2) Some assms(2)
      by (auto simp: held_lines_def names_short_def)
    with s'(2) s1(1) s2(1) len st(1) assms(3) show ?thesis
      by (simp add: manager_list_locks_process_response_def titled_def Let_def held_title_def)
  qed
qed

lemma kill_printed:
  assumes "message_in s (message MSG_ID_UNREG_PROC_RESPONSE (big_endian 4 pid @ big_endian 2 status))"
    and "ap_action ap = ''kill''"
  shows "manager_receive_message Little_Endian s ap mg =
    Ok ((print [kill_line pid status] mg)\<lparr>quit_asked := True\<rparr>)"
proof -
  let ?m = "message MSG_ID_UNREG_PROC_RESPONSE (big_endian 4 pid @ big_endian 2 status)"
  obtain s' where s': "unread s' ?m (big_endian 4 pid @ big_endian 2 status)"
    "manager_receive_message Little_Endian s ap mg =
       manager_unregister_process_response Little_Endian s' ap (length ?m) mg"
    using manager_receive_eq[OF assms(1), of ap mg] by (auto simp: dispatch_def)
  obtain s1 where s1: "stream_read_uint32_t Little_Endian s' = Inr (pid, s1)" "unread s1 ?m (big_endian 2 status)"
    using s'(1) by (rule unread_entry32)
  obtain s2 where s2: "stream_read_uint16_t Little_Endian s1 = Inr (status, s2)"
    using s1(2) unread_entry16[of s1 ?m status "[]"] by auto
  have "s_pos s' = 5" using unread_pos[OF s'(1)] by simp
  with s'(2) s1(1) s2 assms(2) show ?thesis by (simp add: manager_unregister_process_response_def)
qed

end
