(* ===== verification/Manager_Properties.thy ===== *)
theory Manager_Properties
  imports Manager_Server Client_Properties
begin

text \<open>
  The properties of the command line tool: its command line, the queries it sends, and what it
  prints of the state of the server.
\<close>

subsection \<open>Examples\<close>

definition example_addresses :: "address list" where
  "example_addresses = [\<lparr>ai_family = AF_INET, socket_fd = 3, connects = True, connection_made = True\<rparr>]"

definition processes_arguments :: argument_parser where
  "processes_arguments = argument_parser_new\<lparr>ap_action := ''list-processes''\<rparr>"

definition held_arguments :: argument_parser where
  "held_arguments = argument_parser_new\<lparr>ap_action := ''list-locks'', ap_names := [''0'']\<rparr>"

definition kill_arguments :: argument_parser where
  "kill_arguments = argument_parser_new\<lparr>ap_action := ''kill'', ap_names := [''0'']\<rparr>"

definition held_reply :: "byte list" where
  "held_reply = message MSG_ID_LIST_LOCKS_PROCESS_RESPONSE (held_locks_body example_daemon 0)"

lemma reply_in: "length body + 7 < 2 ^ 32 \<Longrightarrow> message_in (stream_of (message i body)) (message i body)"
  by (simp add: message_in_def reading_def stream_inv_def stream_contents_def)
    (simp add: stream_of_def stream_inv_def stream_contents_def)

lemma example_lengths:
  "length (processes_body example_daemon) = 16" "length (held_locks_body example_daemon 0) = 12"
  by code_simp+

lemma show_nat_0: "show_nat 0 = ''0''"
  by code_simp

lemma example_names_short: "names_short example_daemon"
proof -
  have "\<forall>ll \<in> set (for_each_lock (Forest example_backend)). length (name_of (fst ll)) = 1"
    using example_locks by (auto simp: map_eq_Cons_conv)
  moreover have "\<forall>pid p. find_process (Process_table example_backend) pid = Some p \<longrightarrow>
      (\<forall>pm \<in> set (get_held_locks p). length (fst pm) \<le> 3)"
    by (auto simp: find_process_def example_table get_held_locks_def split: if_splits)
  ultimately show ?thesis by (fastforce simp: names_short_def example_daemon_def)
qed

subsection \<open>The command line\<close>

text \<open>
  C26: the argument parser computes what its reference definition says. If every argument is
  empty, a word, two dashes and a name, or a dash and a letter, the first word is the action, the
  other words are the names, in order, and the parameters are collected without their dashes;
  otherwise parsing fails with the error for the first argument that is none of these.
\<close>

theorem manager_parses:
  "parse argv0 args argument_parser_new =
     (case find (\<lambda>a. \<not> syntax_ok a) args of
        Some a \<Rightarrow> Inl (syntax_error a)
      | None \<Rightarrow> Inr \<lparr>program_name = argv0, ap_action = first_word [] args,
          long_parameters = map (drop 2) (filter is_long args),
          short_parameters = map (\<lambda>a. a ! 1) (filter is_short args), ap_names = other_words [] args\<rparr>)"
proof (cases "find (\<lambda>a. \<not> syntax_ok a) args")
  case None
  then have "\<forall>a \<in> set args. syntax_ok a" by (auto simp: find_None_iff)
  with None show ?thesis by (simp add: parse_def parse_arguments_eq argument_parser_new_def)
qed (simp add: parse_def parse_arguments_error)

text \<open>
  C25: what the tool sends. For a command line that is accepted and with memory available, the
  messages in the send queue are those of the action, one for each pid, and each is a well-formed
  frame for the server; but if a pid does not fit into an \<open>int\<close>, \<open>std::stoi\<close> throws and the tool
  is terminated.
\<close>

theorem manager_sends_queries:
  assumes "mem_good False mem" "parse argv0 args argument_parser_new = Inr ap" "\<not> help_requested ap"
    and "validate ap = None" "manager_connect ais = Ok (Some fd, closed)"
  shows "if list_all pid_ok (pid_names ap)
    then \<exists>c. manager_main Little_Endian mem (Some ais) True argv0 args = Ok (Inr (ap, c)) \<and>
      map stream_contents (send_queue c) = query_messages ap \<and>
      (\<forall>m \<in> set (query_messages ap). framed m \<and> well_formed m)
    else manager_main Little_Endian mem (Some ais) True argv0 args = Terminated"
proof -
  have main: "manager_main Little_Endian mem (Some ais) True argv0 args =
      andthen (query Little_Endian mem ap) (\<lambda>res.
        case res of Inl e \<Rightarrow> Ok (Inl e) | Inr ss \<Rightarrow> Ok (Inr (ap, fold send ss (set_receive_callback connection_new))))"
    using assms(2-5) by (simp add: manager_main_def)
  have good: "\<forall>m \<in> set (query_messages ap). framed m \<and> well_formed m"
    by (auto simp: query_messages_def well_formed_def intro!: framed_message)
  show ?thesis
  proof (cases "list_all pid_ok (pid_names ap)")
    case True
    with query_ok[OF assms(1,4)] obtain ss where ss: "query Little_Endian mem ap = Ok (Inr ss)"
      "list_all2 ready ss (query_messages ap)" by auto
    have "map stream_contents (send_queue (fold send ss (set_receive_callback connection_new))) = query_messages ap"
      using ready_contents[OF ss(2)] by (simp add: send_queue_fold_send set_receive_callback_def connection_new_def)
    with True main ss(1) good show ?thesis by simp
  next
    case False
    with query_ok[OF assms(1,4)] main show ?thesis by simp
  qed
qed

theorem manager_sends_queries_witness:
  "(\<exists>ap c. manager_main Little_Endian example_memory (Some example_addresses) True ''tclm'' [''list-locks'', ''7'', ''0''] =
       Ok (Inr (ap, c)) \<and>
     map stream_contents (send_queue c) =
       [message MSG_ID_LIST_LOCKS_PROCESS (big_endian 4 (7 :: u32)),
        message MSG_ID_LIST_LOCKS_PROCESS (big_endian 4 (0 :: u32))]) \<and>
   manager_main Little_Endian example_memory (Some example_addresses) True ''tclm'' [''kill'', ''2147483648''] = Terminated"
proof -
  let ?lap = "argument_parser_new\<lparr>program_name := ''tclm'', ap_action := ''list-locks'', ap_names := [''7'', ''0'']\<rparr>"
    and ?kap = "argument_parser_new\<lparr>program_name := ''tclm'', ap_action := ''kill'', ap_names := [''2147483648'']\<rparr>"
  have parsed: "parse ''tclm'' [''list-locks'', ''7'', ''0''] argument_parser_new = Inr ?lap"
    "parse ''tclm'' [''kill'', ''2147483648''] argument_parser_new = Inr ?kap"
    by (simp_all add: parse_def parse_argument_def argument_parser_new_def)
  have ok: "\<not> help_requested ?lap" "validate ?lap = None" "\<not> help_requested ?kap" "validate ?kap = None"
    by (simp_all add: help_requested_def validate_def argument_parser_new_def is_digit_def)
  have conn: "manager_connect example_addresses = Ok (Some 3, [])" by (simp add: example_addresses_def)
  have pids: "list_all pid_ok (pid_names ?lap)" "\<not> list_all pid_ok (pid_names ?kap)"
    by (simp_all add: pid_names_def pid_ok_def digits_value_def)
  have "query_messages ?lap = [message MSG_ID_LIST_LOCKS_PROCESS (big_endian 4 (7 :: u32)),
      message MSG_ID_LIST_LOCKS_PROCESS (big_endian 4 (0 :: u32))]"
    by (simp add: query_messages_def pid_of_def digits_value_def)
  with manager_sends_queries[OF example_memory_good parsed(1) ok(1,2) conn]
    manager_sends_queries[OF example_memory_good parsed(2) ok(3,4) conn] pids
  show ?thesis by auto
qed

subsection \<open>Listings\<close>

text \<open>
  C23: listings arrive as they are. The answer of the daemon to a query for its connections, its
  processes or its locks changes nothing on the server, and the tool prints of it exactly one line
  for each connection, process or lock, in the order of the daemon, and quits.
\<close>

theorem manager_listings_printed:
  assumes "ap_action ap \<in> {''list-connections'', ''list-processes'', ''list-locks''}" "ap_names ap = []"
    and "names_short d"
  shows "\<exists>m reply. query_messages ap = [m] \<and>
    respond arrange c m d = Ok (daemon_backend d, [(c, reply)]) \<and>
    (\<forall>s. message_in s reply \<longrightarrow> manager_receive_message Little_Endian s ap mg =
       Ok ((print (listing_lines ap d) mg)\<lparr>quit_asked := True\<rparr>))"
proof -
  note [simp] = respond_def query_messages_def Let_def
  from assms(1) consider "ap_action ap = ''list-connections''" | "ap_action ap = ''list-processes''"
    | "ap_action ap = ''list-locks''" by blast
  then show ?thesis
    by cases (use assms(2) listing_printed[OF _ assms(3)] in simp_all)
qed

theorem manager_listings_printed_witness:
  "\<exists>m reply. query_messages processes_arguments = [m] \<and>
    respond id 8 m example_daemon = Ok (daemon_backend example_daemon, [(8, reply)]) \<and>
    (\<exists>mg. manager_receive_message Little_Endian (stream_of reply) processes_arguments manager_start = Ok mg \<and>
       drop 3 (printed mg) = [''        0                     1'', ''        1                     1''] \<and> quit_asked mg)"
proof -
  have "ap_action processes_arguments \<in> {''list-connections'', ''list-processes'', ''list-locks''}"
    "ap_names processes_arguments = []" by (simp_all add: processes_arguments_def argument_parser_new_def)
  from manager_listings_printed[OF this example_names_short, of id 8 manager_start] obtain m reply where
    r: "query_messages processes_arguments = [m]"
      "respond id 8 m example_daemon = Ok (daemon_backend example_daemon, [(8, reply)])"
      "message_in (stream_of reply) reply \<Longrightarrow>
        manager_receive_message Little_Endian (stream_of reply) processes_arguments manager_start =
        Ok ((print (listing_lines processes_arguments example_daemon) manager_start)\<lparr>quit_asked := True\<rparr>)" by blast
  have "reply = message MSG_ID_LIST_PROCS_RESPONSE (processes_body example_daemon)"
  proof -
    have "m = message MSG_ID_LIST_PROCS []"
      using r(1) by (simp add: processes_arguments_def argument_parser_new_def query_messages_def)
    with r(2) show ?thesis by (simp add: respond_def Let_def)
  qed
  then have "message_in (stream_of reply) reply" using example_lengths by (simp add: reply_in)
  moreover have "drop 3 (listing_lines processes_arguments example_daemon) =
      [''        0                     1'', ''        1                     1'']" by code_simp
  ultimately show ?thesis using r by (simp add: manager_start_def)
qed

text \<open>
  The answers are received one after the other.
\<close>

fun receive_all :: "argument_parser \<Rightarrow> stream list \<Rightarrow> manager \<Rightarrow> manager outcome" where
  "receive_all ap [] mg = Ok mg"
| "receive_all ap (s # ss) mg = andthen (manager_receive_message Little_Endian s ap mg) (receive_all ap ss)"

lemma quit_fields [simp]:
  "cnt_received (quit_when_complete ap mg) = cnt_received mg" "printed (quit_when_complete ap mg) = printed mg"
  "quit_asked (quit_when_complete ap mg) \<longleftrightarrow>
     quit_asked mg \<or> unat (cnt_received mg) = length (ap_names ap)"
  by (simp_all add: quit_when_complete_def)

lemma titled_fields [simp]:
  "cnt_received (titled mg) = cnt_received mg + 1" "quit_asked (titled mg) = quit_asked mg"
  "printed (titled mg) = printed mg @ (if cnt_received mg = 0 then held_title else [])"
  by (simp_all add: titled_def)

lemma receive_held:
  assumes "list_all2 (\<lambda>s (d, pid). names_short d \<and>
      message_in s (message MSG_ID_LIST_LOCKS_PROCESS_RESPONSE (held_locks_body d pid))) ss dps"
    and "ap_action ap = ''list-locks''" "unat (cnt_received mg) + length ss < 2 ^ 32"
  shows "\<exists>mg'. receive_all ap ss mg = Ok mg' \<and> unat (cnt_received mg') = unat (cnt_received mg) + length ss \<and>
    printed mg' = printed mg @ (if cnt_received mg = 0 \<and> ss \<noteq> [] then held_title else []) @
      concat (map (\<lambda>(d, pid). held_lines d pid) dps) \<and>
    (quit_asked mg' \<longleftrightarrow> quit_asked mg \<or> unat (cnt_received mg) < length (ap_names ap) \<and>
       length (ap_names ap) \<le> unat (cnt_received mg) + length ss)"
  using assms
proof (induction arbitrary: mg rule: list_all2_induct)
  case (Cons s ss dp dps)
  obtain d pid where dp: "dp = (d, pid)" by fastforce
  let ?mg = "quit_when_complete ap (print (held_lines d pid) (titled mg))"
  have step: "manager_receive_message Little_Endian s ap mg = Ok ?mg"
    using held_printed[of s d pid ap mg] Cons dp by simp
  have cnt: "unat (cnt_received mg + 1) = unat (cnt_received mg) + 1"
    using Cons.prems(2) by (simp add: unat_word_ariths)
  then have nz: "cnt_received mg + 1 \<noteq> 0" by (metis add_is_0 unat_eq_zero zero_neq_one)
  from Cons.IH[of ?mg] Cons.prems cnt nz obtain mg' where "receive_all ap ss ?mg = Ok mg'"
    "unat (cnt_received mg') = unat (cnt_received mg) + 1 + length ss"
    "printed mg' = printed ?mg @ concat (map (\<lambda>(d, pid). held_lines d pid) dps)"
    "quit_asked mg' \<longleftrightarrow> quit_asked ?mg \<or> unat (cnt_received mg) + 1 < length (ap_names ap) \<and>
       length (ap_names ap) \<le> unat (cnt_received mg) + 1 + length ss" by auto
  with step cnt dp show ?case by auto
qed auto

lemma respond_held:
  "respond arrange c (message MSG_ID_LIST_LOCKS_PROCESS (big_endian 4 pid)) d =
     Ok (daemon_backend d, [(c, message MSG_ID_LIST_LOCKS_PROCESS_RESPONSE (held_locks_body d pid))])"
proof -
  have "msg_length (message MSG_ID_LIST_LOCKS_PROCESS (big_endian 4 pid)) = 4"
    using from_big_endian[of 4 "4 :: u32"] by (simp add: msg_length_def message_4 header_def)
  with msg_pid_id[of MSG_ID_LIST_LOCKS_PROCESS pid "[]"] show ?thesis by (simp add: respond_def Let_def)
qed

text \<open>
  C24: the locks of several processes. For \<open>list-locks\<close> with pids there is one query for each;
  after any number of answers, each from the state \<open>ds ! i\<close> the daemon had at that time, the tool
  has printed its title once and the locks of those processes in the order of the answers, and it
  quits with the answer to the last query and not before.
\<close>

theorem manager_held_locks_printed:
  assumes "ap_action ap = ''list-locks''" "ap_names ap = map show_nat ns" "length ns < 2 ^ 32" "ns \<noteq> []"
    and "length ss \<le> length ns" "length ds = length ss" "\<forall>d \<in> set ds. names_short d"
    and "\<forall>i < length ss. \<exists>reply. message_in (ss ! i) reply \<and>
      respond arrange c (query_messages ap ! i) (ds ! i) = Ok (daemon_backend (ds ! i), [(c, reply)])"
  shows "\<exists>mg. receive_all ap ss manager_start = Ok mg \<and>
    printed mg = (if ss = [] then [] else held_title) @ concat (map2 held_lines ds (map of_nat (take (length ss) ns))) \<and>
    (quit_asked mg \<longleftrightarrow> length ss = length ns)"
proof -
  let ?dps = "zip ds (map of_nat (take (length ss) ns)) :: (daemon \<times> proc) list"
  have "list_all2 (\<lambda>s (d, pid). names_short d \<and>
      message_in s (message MSG_ID_LIST_LOCKS_PROCESS_RESPONSE (held_locks_body d pid))) ss ?dps"
  proof (rule list_all2_all_nthI)
    fix i
    assume i: "i < length ss"
    then have "query_messages ap ! i = message MSG_ID_LIST_LOCKS_PROCESS (big_endian 4 (of_nat (ns ! i) :: u32))"
      using assms(1,2,4,5) by (simp add: query_messages_def pid_of_show)
    with i assms(5-8) show "case ?dps ! i of (d, pid) \<Rightarrow> names_short d \<and>
        message_in (ss ! i) (message MSG_ID_LIST_LOCKS_PROCESS_RESPONSE (held_locks_body d pid))"
      by (auto simp: respond_held)
  qed (use assms(5,6) in simp)
  from receive_held[OF this assms(1), of manager_start] assms(2-6) obtain mg where
    "receive_all ap ss manager_start = Ok mg"
    "printed mg = (if ss = [] then [] else held_title) @ concat (map (\<lambda>(d, pid). held_lines d pid) ?dps)"
    "quit_asked mg \<longleftrightarrow> 0 < length ns \<and> length ns \<le> length ss"
    by (auto simp: manager_start_def)
  then show ?thesis using assms(4,5) by (intro exI[of _ mg]) auto
qed

theorem manager_held_locks_printed_witness:
  "\<exists>mg. receive_all held_arguments [stream_of held_reply] manager_start = Ok mg \<and>
     printed mg = held_title @ [''       0: X  a.b''] \<and> quit_asked mg"
proof -
  have a: "ap_action held_arguments = ''list-locks''" "ap_names held_arguments = map show_nat [0]"
    by (simp_all add: held_arguments_def argument_parser_new_def show_nat_0)
  then have q: "query_messages held_arguments ! 0 = message MSG_ID_LIST_LOCKS_PROCESS (big_endian 4 (0 :: u32))"
    by (simp add: query_messages_def pid_of_show)
  have "message_in (stream_of held_reply) held_reply"
    using example_lengths unfolding held_reply_def by (simp add: reply_in)
  moreover have "respond id 8 (query_messages held_arguments ! 0) example_daemon =
      Ok (daemon_backend example_daemon, [(8, held_reply)])"
    by (simp only: q respond_held held_reply_def)
  ultimately obtain mg where "receive_all held_arguments [stream_of held_reply] manager_start = Ok mg"
    "printed mg = held_title @ held_lines example_daemon 0" "quit_asked mg"
    using manager_held_locks_printed[OF a, of "[stream_of held_reply]" "[example_daemon]" id 8] example_names_short
    by auto
  moreover have "held_lines example_daemon 0 = [''       0: X  a.b'']" by code_simp
  ultimately show ?thesis by simp
qed

subsection \<open>Killing a process\<close>

text \<open>
  \<open>kill\<close> reports what happened. When the daemon answers, the process is not registered any
  more, and the tool prints that it was killed if it had been registered, and that there is no
  such process otherwise; then it quits.
\<close>

theorem manager_kill_reported:
  assumes "ap_action ap = ''kill''" "ap_names ap = [show_nat n]" "n < 2 ^ 31" "backend_inv (daemon_backend d)"
    and "respond arrange c (query_messages ap ! 0) d = Ok (b', outs)"
  shows "\<exists>reply rest. outs = (c, reply) # rest \<and> find_process (Process_table b') (of_nat n) = None \<and>
    (\<forall>s. message_in s reply \<longrightarrow> manager_receive_message Little_Endian s ap mg =
       Ok ((print [if find_process (Process_table (daemon_backend d)) (of_nat n) = None
                   then ''No process '' @ show_nat n @ '' found.''
                   else ''Process '' @ show_nat n @ '' killed.''] mg)\<lparr>quit_asked := True\<rparr>))"
proof -
  let ?pid = "of_nat n :: proc" and ?b = "update_pid_connection (daemon_backend d) (of_nat n) c"
  have "query_messages ap ! 0 = request_message (unregister_process_request ?pid)"
    using assms(1,2) by (simp add: query_messages_def pid_of_show)
  with assms(5) obtain code ans where u: "unregister_process ?b ?pid = Some (Inr (b', code, ans))"
    "outs = (c, message MSG_ID_UNREG_PROC_RESPONSE (big_endian 4 ?pid @ big_endian 2 (unregister_status code))) #
       updates (d\<lparr>daemon_backend := b'\<rparr>) (arrange ans)"
    by (auto simp: respond_unregister andthen_Ok_iff checked_Ok ended_Ok simp del: request_message.simps)
  have c: "code = PROCESS_UNREGISTER_RESULT_NON_EXISTENT \<longleftrightarrow>
      find_process (Process_table (daemon_backend d)) ?pid = None"
    "code \<noteq> PROCESS_UNREGISTER_RESULT_HOLDS_LOCKS" "find_process (Process_table b') ?pid = None"
    using unregister_inv[OF update_pid_connection_inv[OF assms(4)] u(1)] update_pid_find[OF assms(4)] by auto
  have "kill_line ?pid (unregister_status code) =
      (if find_process (Process_table (daemon_backend d)) ?pid = None
       then ''No process '' @ show_nat n @ '' found.'' else ''Process '' @ show_nat n @ '' killed.'')"
    using c(1,2) by (cases code) (simp_all add: kill_line_def unregister_status_def show_int_small[OF assms(3)])
  with kill_printed[OF _ assms(1)] u(2) c(3) show ?thesis by simp
qed

theorem manager_kill_reported_witness:
  "\<exists>b' reply rest. respond id 8 (query_messages kill_arguments ! 0) example_daemon = Ok (b', (8, reply) # rest) \<and>
     find_process (Process_table b') 0 = None \<and>
     (\<forall>s. message_in s reply \<longrightarrow> manager_receive_message Little_Endian s kill_arguments manager_start =
        Ok ((print [''Process 0 killed.''] manager_start)\<lparr>quit_asked := True\<rparr>))"
proof -
  have a: "ap_action kill_arguments = ''kill''" "ap_names kill_arguments = [show_nat 0]"
    by (simp_all add: kill_arguments_def argument_parser_new_def show_nat_0)
  have "(case respond id 8 (query_messages kill_arguments ! 0) example_daemon of Ok _ \<Rightarrow> True | _ \<Rightarrow> False)"
    by code_simp
  then obtain b' outs where "respond id 8 (query_messages kill_arguments ! 0) example_daemon = Ok (b', outs)"
    by (auto split: outcome.splits)
  moreover have "find_process (Process_table (daemon_backend example_daemon)) 0 \<noteq> None" by code_simp
  ultimately show ?thesis
    using manager_kill_reported[OF a _ _ \<open>respond id 8 _ _ = _\<close>, of manager_start] example_daemon_good
    by (auto simp: backend_good_def show_nat_0)
qed

subsection \<open>Termination\<close>

text \<open>
  C27: the loop over a list of processes ends exactly if the length of the list is a multiple of
  four. A read past the end returns 0 without advancing, so with one to three bytes left the
  condition of the loop never changes.
\<close>

theorem manager_listing_terminates:
  assumes "message_in s (message MSG_ID_LIST_PROCS_RESPONSE body)" "ap_action ap = ''list-processes''"
  shows "manager_receive_message Little_Endian s ap mg = Hangs \<longleftrightarrow> \<not> 4 dvd length body"
proof -
  let ?m = "message MSG_ID_LIST_PROCS_RESPONSE body"
  obtain s' where s': "unread s' ?m body"
    "manager_receive_message Little_Endian s ap mg = manager_list_processes_response Little_Endian s' ap (length ?m) mg"
    using manager_receive_eq[OF assms(1), of ap mg] by (auto simp: dispatch_def)
  have "printing r f = Hangs \<longleftrightarrow> r = None" for r f
    by (cases r) (auto simp: printing_def checked_def split: sum.splits)
  with print_processes_ends[OF s'(1), of "[]"] s'(2) assms(2) show ?thesis
    by (auto simp: manager_list_processes_response_def)
qed

theorem manager_listing_terminates_witness:
  "manager_receive_message Little_Endian (stream_of (message MSG_ID_LIST_PROCS_RESPONSE [0])) processes_arguments
     manager_start = Hangs \<and>
   manager_receive_message Little_Endian (stream_of (message MSG_ID_LIST_PROCS_RESPONSE (processes_body example_daemon)))
     processes_arguments manager_start \<noteq> Hangs"
  using manager_listing_terminates[OF reply_in, of "[0]" processes_arguments manager_start]
    manager_listing_terminates[OF reply_in, of "processes_body example_daemon" processes_arguments manager_start]
  by (simp add: processes_arguments_def argument_parser_new_def example_lengths)

end
