(* ===== verification/Connection_Threads.thy ===== *)
theory Connection_Threads
  imports Sending Transition_System
begin

text \<open>
  The output side of a connection that several threads use, at the level of its mutexes:
  \<open>Connection::send\<close> and \<open>Connection::data_out\<close> (\<open>src/src/Connection.cpp\<close>) with
  \<open>Communications_Manager::fd_enable_out\<close>, \<open>fd_disable_out\<close> and the start of \<open>main_loop\<close>
  (\<open>src/src/Communications_Manager.cpp\<close>). In the client library the threads of the application
  send, and one thread runs the communications manager.

  The mutexes are \<open>m_send\<close> and \<open>m\<close> of the connection, \<open>m_epfd\<close> of the manager and
  \<open>m_tcp_connection\<close> of the access concentrator, which \<open>send_message_tcp\<close> holds while it calls
  \<open>send\<close>. A critical section in which nothing is locked is one step that needs its mutex to be
  free; one in which another mutex is locked has a step for each. \<open>m\<close> and \<open>m_epfd\<close> are recursive:
  the thread that holds one may lock it again. \<open>epoll_ctl\<close> may fail; the flag \<open>ctl_failed\<close>
  remembers it. The connection is in the manager before the threads start, so \<open>mgr\<close> is set.
\<close>

subsection \<open>State\<close>

datatype thread = App nat | Manager

text \<open>Where a thread of the application is in \<open>send_message_tcp\<close> and \<open>send\<close>.\<close>

datatype send_pc =
  Idle
| Entering stream      \<comment> \<open>holds \<open>m_tcp_connection\<close>\<close>
| Checking             \<comment> \<open>the message is in the queue\<close>
| Enabling             \<comment> \<open>saw \<open>out_enabled\<close> unset, calls \<open>fd_enable_out\<close>\<close>
| Enabling_Locked      \<comment> \<open>holds \<open>m_epfd\<close>\<close>
| Enabling_Set         \<comment> \<open>has set \<open>out_enabled\<close>, before \<open>epoll_ctl\<close>\<close>
| Leaving

text \<open>Where the thread of the manager is in \<open>main_loop\<close> and \<open>data_out\<close>.\<close>

datatype poll_pc =
  Starting
| Setting_Up           \<comment> \<open>holds \<open>m_epfd\<close>\<close>
| Polling
| Out_Called
| Out_Sending          \<comment> \<open>holds \<open>m_send\<close>\<close>
| Out_Emptied          \<comment> \<open>holds \<open>m_send\<close>, the queue is empty\<close>
| Out_Disabling        \<comment> \<open>holds \<open>m\<close> too, calls \<open>fd_disable_out\<close>\<close>
| Out_Disabling_Locked \<comment> \<open>holds \<open>m_epfd\<close> too\<close>
| Out_Disabling_Set    \<comment> \<open>has cleared \<open>out_enabled\<close>, before \<open>epoll_ctl\<close>\<close>
| Ended                \<comment> \<open>\<open>main_loop\<close> returned or the connection was closed\<close>

record out_state =
  out_conn :: connection
  epfd_there :: bool
  epoll_out :: bool
  ctl_failed :: bool
  m_tcp_connection :: "nat option"
  m_send :: "thread option"
  m_pfd :: "thread option"
  m_epfd :: "thread option"
  senders :: "nat \<Rightarrow> send_pc"
  poller :: poll_pc

definition set_out_enabled :: "bool \<Rightarrow> out_state \<Rightarrow> out_state" where
  "set_out_enabled b st = st\<lparr>out_conn := (out_conn st)\<lparr>out_enabled := b\<rparr>\<rparr>"

text \<open>\<open>EPOLL_CTL_MOD\<close> with \<open>EPOLLOUT\<close> set or not; \<open>ok\<close> is its result.\<close>

definition epoll_mod :: "bool \<Rightarrow> bool \<Rightarrow> out_state \<Rightarrow> out_state" where
  "epoll_mod ok b st =
     (if \<not> epfd_there st then st
      else if ok then st\<lparr>epoll_out := b\<rparr> else st\<lparr>ctl_failed := True\<rparr>)"

text \<open>\<open>fd_enable_out\<close> and \<open>fd_disable_out\<close> when no other thread interferes.\<close>

definition fd_enable_out :: "bool \<Rightarrow> out_state \<Rightarrow> out_state \<times> bool" where
  "fd_enable_out ok st = (epoll_mod ok True (set_out_enabled True st), \<not> epfd_there st \<or> ok)"

definition fd_disable_out :: "bool \<Rightarrow> out_state \<Rightarrow> out_state \<times> bool" where
  "fd_disable_out ok st = (epoll_mod ok False (set_out_enabled False st), \<not> epfd_there st \<or> ok)"

subsection \<open>Steps\<close>

definition available :: "thread option \<Rightarrow> thread \<Rightarrow> bool" where
  "available owner t \<longleftrightarrow> owner = None \<or> owner = Some t"

definition go :: "nat \<Rightarrow> send_pc \<Rightarrow> out_state \<Rightarrow> out_state" where
  "go t pc st = st\<lparr>senders := (senders st)(t := pc)\<rparr>"

text \<open>
  A call of \<open>send_message_tcp\<close> by thread \<open>t\<close>. Without \<open>serialised\<close> the mutex
  \<open>m_tcp_connection\<close> is left out.
\<close>

definition call_send :: "bool \<Rightarrow> nat \<Rightarrow> stream \<Rightarrow> out_state \<Rightarrow> out_state option" where
  "call_send serialised t s st =
     (if senders st t = Idle \<and> (serialised \<longrightarrow> m_tcp_connection st = None)
      then Some (go t (Entering s) (if serialised then st\<lparr>m_tcp_connection := Some t\<rparr> else st)) else None)"

definition send_step :: "bool \<Rightarrow> bool \<Rightarrow> nat \<Rightarrow> out_state \<Rightarrow> out_state option" where
  "send_step serialised ok t st =
     (case senders st t of
        Idle \<Rightarrow> None
      | Entering s \<Rightarrow>
          if available (m_send st) (App t)
          then Some (go t Checking (st\<lparr>out_conn := (out_conn st)\<lparr>send_queue := send_queue (out_conn st) @ [stream_seek 0 s]\<rparr>\<rparr>))
          else None
      | Checking \<Rightarrow>
          if available (m_pfd st) (App t)
          then Some (go t (if out_enabled (out_conn st) then Leaving else Enabling) st) else None
      | Enabling \<Rightarrow>
          if available (m_epfd st) (App t) then Some (go t Enabling_Locked (st\<lparr>m_epfd := Some (App t)\<rparr>)) else None
      | Enabling_Locked \<Rightarrow>
          if available (m_pfd st) (App t) then Some (go t Enabling_Set (set_out_enabled True st)) else None
      | Enabling_Set \<Rightarrow>
          if epfd_there st \<longrightarrow> available (m_pfd st) (App t)
          then Some (go t Leaving ((epoll_mod ok True st)\<lparr>m_epfd := None\<rparr>)) else None
      | Leaving \<Rightarrow> Some (go t Idle (if serialised then st\<lparr>m_tcp_connection := None\<rparr> else st)))"

text \<open>
  The manager's thread; \<open>w\<close> is the result of \<open>write\<close>. If it starts to send, \<open>data_out\<close> of
  \<open>Connection\<close> gives the queue that is left and if the connection is to be closed.
\<close>

definition poll_step :: "bool \<Rightarrow> write_result \<Rightarrow> out_state \<Rightarrow> out_state option" where
  "poll_step ok w st =
     (case poller st of
        Starting \<Rightarrow>
          if available (m_epfd st) Manager then Some (st\<lparr>m_epfd := Some Manager, poller := Setting_Up\<rparr>) else None
      | Setting_Up \<Rightarrow>
          if available (m_pfd st) Manager
          then Some (if ok then st\<lparr>epfd_there := True, epoll_out := out_enabled (out_conn st), m_epfd := None, poller := Polling\<rparr>
                     else st\<lparr>ctl_failed := True, m_epfd := None, poller := Ended\<rparr>)
          else None
      | Polling \<Rightarrow> None
      | Out_Called \<Rightarrow>
          if available (m_send st) Manager
          then Some (st\<lparr>m_send := Some Manager,
                        poller := (if send_queue (out_conn st) = [] then Out_Emptied else Out_Sending)\<rparr>)
          else None
      | Out_Sending \<Rightarrow>
          if available (m_pfd st) Manager
          then (case data_out w (out_conn st) of
                  Inl e \<Rightarrow> None
                | Inr (c, bytes, keep) \<Rightarrow>
                    let st = st\<lparr>out_conn := (out_conn st)\<lparr>send_queue := send_queue c\<rparr>\<rparr>
                    in Some (if \<not> keep then st\<lparr>m_send := None, poller := Ended\<rparr>
                             else if send_queue c = [] then st\<lparr>poller := Out_Emptied\<rparr>
                             else st\<lparr>m_send := None, poller := Polling\<rparr>))
          else None
      | Out_Emptied \<Rightarrow>
          if available (m_pfd st) Manager then Some (st\<lparr>m_pfd := Some Manager, poller := Out_Disabling\<rparr>) else None
      | Out_Disabling \<Rightarrow>
          if available (m_epfd st) Manager
          then Some (st\<lparr>m_epfd := Some Manager, poller := Out_Disabling_Locked\<rparr>) else None
      | Out_Disabling_Locked \<Rightarrow>
          if available (m_pfd st) Manager then Some ((set_out_enabled False st)\<lparr>poller := Out_Disabling_Set\<rparr>) else None
      | Out_Disabling_Set \<Rightarrow>
          if available (m_pfd st) Manager
          then Some ((epoll_mod ok False st)\<lparr>m_epfd := None, m_pfd := None, m_send := None, poller := Polling\<rparr>) else None
      | Ended \<Rightarrow> None)"

text \<open>\<open>epoll_wait\<close> reports that the descriptor can be written.\<close>

definition poll_event :: "out_state \<Rightarrow> out_state option" where
  "poll_event st = (if poller st = Polling \<and> epoll_out st then Some (st\<lparr>poller := Out_Called\<rparr>) else None)"

text \<open>
  Steps that finish what was begun, and all steps. Every thread sends streams that were built by the
  stream operations, and \<open>write\<close> takes at most what it is given; \<open>ok\<close> tells if \<open>epoll_ctl\<close>
  succeeds should it be called.
\<close>

definition continues :: "bool \<Rightarrow> bool \<Rightarrow> out_state \<Rightarrow> out_state \<Rightarrow> bool" where
  "continues serialised ok st st' \<longleftrightarrow>
     (\<exists>t. send_step serialised ok t st = Some st') \<or>
     (\<exists>w. write_result_ok w (out_conn st) \<and> poll_step ok w st = Some st')"

definition output_step :: "bool \<Rightarrow> out_state \<Rightarrow> out_state \<Rightarrow> bool" where
  "output_step serialised st st' \<longleftrightarrow>
     (\<exists>ok. continues serialised ok st st') \<or>
     (\<exists>t s. stream_inv s \<and> call_send serialised t s st = Some st') \<or> poll_event st = Some st'"

definition output_start :: "out_state \<Rightarrow> bool" where
  "output_start st \<longleftrightarrow>
     send_queue (out_conn st) = [] \<and> \<not> out_enabled (out_conn st) \<and> \<not> epfd_there st \<and> \<not> epoll_out st \<and>
     \<not> ctl_failed st \<and> m_tcp_connection st = None \<and> m_send st = None \<and> m_pfd st = None \<and> m_epfd st = None \<and>
     senders st = (\<lambda>_. Idle) \<and> poller st = Starting"

abbreviation output_reachable :: "bool \<Rightarrow> out_state \<Rightarrow> bool" where
  "output_reachable serialised \<equiv> reachable output_start (output_step serialised)"

subsection \<open>The steps of one call together\<close>

text \<open>
  Run without interruption, the steps of a call of \<open>send\<close> and of \<open>data_out\<close> have the effect of
  the definitions \<open>send\<close> and \<open>data_out\<close> on the connection.
\<close>

fun run_sender :: "bool \<Rightarrow> bool \<Rightarrow> nat \<Rightarrow> nat \<Rightarrow> out_state \<Rightarrow> out_state option" where
  "run_sender serialised ok t 0 st = (if senders st t = Idle then Some st else None)"
| "run_sender serialised ok t (Suc n) st =
     (if senders st t = Idle then Some st else Option.bind (send_step serialised ok t st) (run_sender serialised ok t n))"

fun run_poller :: "bool \<Rightarrow> write_result \<Rightarrow> nat \<Rightarrow> out_state \<Rightarrow> out_state option" where
  "run_poller ok w 0 st = (if poller st = Polling \<or> poller st = Ended then Some st else None)"
| "run_poller ok w (Suc n) st =
     (if poller st = Polling \<or> poller st = Ended then Some st else Option.bind (poll_step ok w st) (run_poller ok w n))"

lemma numeral_unfold: "6 = Suc (Suc (Suc (Suc (Suc (Suc 0)))))" "7 = Suc (Suc (Suc (Suc (Suc (Suc (Suc 0))))))"
  by simp_all

lemma send_alone:
  assumes "senders st t = Entering s" "m_send st = None" "m_pfd st = None" "m_epfd st = None"
  shows "\<exists>st'. run_sender serialised ok t 6 st = Some st' \<and> out_conn st' = send s (out_conn st) \<and> senders st' t = Idle \<and>
    m_send st' = None \<and> m_pfd st' = None \<and> m_epfd st' = None"
  using assms
  by (cases "out_enabled (out_conn st)"; cases "epfd_there st"; cases ok)
    (simp_all add: numeral_unfold send_step_def available_def go_def set_out_enabled_def epoll_mod_def send_def)

lemma data_out_result:
  assumes "data_out w c = Inr (c', bytes, keep)"
  shows "send_queue c = [] \<Longrightarrow> keep \<and> c' = c\<lparr>out_enabled := False\<rparr>"
    "send_queue c \<noteq> [] \<Longrightarrow> keep \<Longrightarrow> send_queue c' = [] \<Longrightarrow> c' = c\<lparr>send_queue := [], out_enabled := False\<rparr>"
    "send_queue c \<noteq> [] \<Longrightarrow> \<not> keep \<or> send_queue c' \<noteq> [] \<Longrightarrow> c' = c\<lparr>send_queue := send_queue c'\<rparr>"
  using assms
  by (auto simp: data_out_def Let_def split: list.splits sum.splits write_result.splits if_splits)

lemma data_out_alone:
  assumes "poller st = Out_Called" "m_send st = None" "m_pfd st = None" "m_epfd st = None"
    and "data_out w (out_conn st) = Inr (c, bytes, keep)"
  shows "\<exists>st'. run_poller ok w 7 st = Some st' \<and> out_conn st' = c \<and> poller st' = (if keep then Polling else Ended) \<and>
    m_send st' = None \<and> m_pfd st' = None \<and> m_epfd st' = None"
proof -
  note defs = numeral_unfold poll_step_def available_def set_out_enabled_def epoll_mod_def
  consider "send_queue (out_conn st) = []" | "send_queue (out_conn st) \<noteq> []" "keep" "send_queue c = []"
    | "send_queue (out_conn st) \<noteq> []" "\<not> keep \<or> send_queue c \<noteq> []" by blast
  then show ?thesis
  proof cases
    case 1
    with data_out_result(1)[OF assms(5)] assms(1-4) show ?thesis
      by (cases "epfd_there st"; cases ok) (auto simp: defs)
  next
    case 2
    with data_out_result(2)[OF assms(5)] assms show ?thesis
      by (cases "epfd_there st"; cases ok) (simp_all add: defs Let_def)
  next
    case 3
    with data_out_result(3)[OF assms(5)] assms show ?thesis
      by (cases keep) (simp_all add: defs Let_def)
  qed
qed

text \<open>The part of these steps that belongs to the manager is \<open>fd_enable_out\<close> and \<open>fd_disable_out\<close>.\<close>

lemma enabling_alone:
  assumes "senders st t = Enabling" "m_pfd st = None" "m_epfd st = None"
  shows "\<exists>st'. run_sender serialised ok t 6 st = Some st' \<and> out_conn st' = out_conn (fst (fd_enable_out ok st)) \<and>
    epoll_out st' = epoll_out (fst (fd_enable_out ok st)) \<and> ctl_failed st' = (ctl_failed st \<or> \<not> snd (fd_enable_out ok st))"
  using assms
  by (cases "epfd_there st"; cases ok)
    (simp_all add: numeral_unfold send_step_def available_def go_def fd_enable_out_def set_out_enabled_def epoll_mod_def)

lemma disabling_alone:
  assumes "poller st = Out_Disabling" "m_pfd st = Some Manager" "m_epfd st = None"
  shows "\<exists>st'. run_poller ok w 6 st = Some st' \<and> out_conn st' = out_conn (fst (fd_disable_out ok st)) \<and>
    epoll_out st' = epoll_out (fst (fd_disable_out ok st)) \<and> ctl_failed st' = (ctl_failed st \<or> \<not> snd (fd_disable_out ok st))"
  using assms
  by (cases "epfd_there st"; cases ok)
    (simp_all add: numeral_unfold poll_step_def available_def fd_disable_out_def set_out_enabled_def epoll_mod_def)

end
