(* ===== verification/Output_Safety.thy ===== *)
theory Output_Safety
  imports Connection_Threads
begin

text \<open>
  Invariants of the threads that share the output side of a connection: who holds which mutex,
  when the queue is empty, and how \<open>out_enabled\<close> and the interest of \<open>epoll\<close> follow the queue.
\<close>

subsection \<open>Case analysis\<close>

lemma send_step_cases:
  assumes "send_step serialised ok t st = Some st'"
  obtains
    (push) s where "senders st t = Entering s" "available (m_send st) (App t)"
      "st' = go t Checking (st\<lparr>out_conn := (out_conn st)\<lparr>send_queue := send_queue (out_conn st) @ [stream_seek 0 s]\<rparr>\<rparr>)"
  | (enabled) "senders st t = Checking" "available (m_pfd st) (App t)" "out_enabled (out_conn st)" "st' = go t Leaving st"
  | (unset) "senders st t = Checking" "available (m_pfd st) (App t)" "\<not> out_enabled (out_conn st)" "st' = go t Enabling st"
  | (lock) "senders st t = Enabling" "available (m_epfd st) (App t)"
      "st' = go t Enabling_Locked (st\<lparr>m_epfd := Some (App t)\<rparr>)"
  | (set) "senders st t = Enabling_Locked" "available (m_pfd st) (App t)"
      "st' = go t Enabling_Set (set_out_enabled True st)"
  | (mod) "senders st t = Enabling_Set" "epfd_there st \<longrightarrow> available (m_pfd st) (App t)"
      "st' = go t Leaving ((epoll_mod ok True st)\<lparr>m_epfd := None\<rparr>)"
  | (leave) "senders st t = Leaving" "st' = go t Idle (if serialised then st\<lparr>m_tcp_connection := None\<rparr> else st)"
  using assms unfolding send_step_def
  by (auto split: send_pc.splits if_splits)

lemma poll_step_cases:
  assumes "poll_step ok w st = Some st'"
  obtains
    (start) "poller st = Starting" "available (m_epfd st) Manager" "st' = st\<lparr>m_epfd := Some Manager, poller := Setting_Up\<rparr>"
  | (running) "poller st = Setting_Up" "ok"
      "st' = st\<lparr>epfd_there := True, epoll_out := out_enabled (out_conn st), m_epfd := None, poller := Polling\<rparr>"
  | (failed) "poller st = Setting_Up" "\<not> ok" "st' = st\<lparr>ctl_failed := True, m_epfd := None, poller := Ended\<rparr>"
  | (called) "poller st = Out_Called" "available (m_send st) Manager"
      "st' = st\<lparr>m_send := Some Manager,
         poller := (if send_queue (out_conn st) = [] then Out_Emptied else Out_Sending)\<rparr>"
  | (sent) c bytes keep where "poller st = Out_Sending" "data_out w (out_conn st) = Inr (c, bytes, keep)"
      "st' = (if keep \<and> send_queue c = []
              then st\<lparr>out_conn := (out_conn st)\<lparr>send_queue := []\<rparr>, poller := Out_Emptied\<rparr>
              else st\<lparr>out_conn := (out_conn st)\<lparr>send_queue := send_queue c\<rparr>, m_send := None,
                     poller := (if keep then Polling else Ended)\<rparr>)"
  | (emptied) "poller st = Out_Emptied" "available (m_pfd st) Manager" "st' = st\<lparr>m_pfd := Some Manager, poller := Out_Disabling\<rparr>"
  | (lock) "poller st = Out_Disabling" "available (m_epfd st) Manager"
      "st' = st\<lparr>m_epfd := Some Manager, poller := Out_Disabling_Locked\<rparr>"
  | (clear) "poller st = Out_Disabling_Locked" "st' = (set_out_enabled False st)\<lparr>poller := Out_Disabling_Set\<rparr>"
  | (mod) "poller st = Out_Disabling_Set"
      "st' = (epoll_mod ok False st)\<lparr>m_epfd := None, m_pfd := None, m_send := None, poller := Polling\<rparr>"
  using assms unfolding poll_step_def
  by (auto simp: Let_def split: poll_pc.splits if_splits sum.splits)

subsection \<open>Who holds which mutex\<close>

definition epfd_owner :: "out_state \<Rightarrow> bool" where
  "epfd_owner st \<longleftrightarrow>
     (case m_epfd st of
        None \<Rightarrow> True
      | Some (App t) \<Rightarrow> senders st t \<in> {Enabling_Locked, Enabling_Set}
      | Some Manager \<Rightarrow> poller st \<in> {Setting_Up, Out_Disabling_Locked, Out_Disabling_Set})"

definition locks_inv :: "bool \<Rightarrow> out_state \<Rightarrow> bool" where
  "locks_inv serialised st \<longleftrightarrow>
     (\<forall>t. serialised \<longrightarrow> m_tcp_connection st \<noteq> Some t \<longrightarrow> senders st t = Idle) \<and>
     (\<forall>t. m_epfd st \<noteq> Some (App t) \<longrightarrow> senders st t \<notin> {Enabling_Locked, Enabling_Set}) \<and>
     (m_epfd st \<noteq> Some Manager \<longrightarrow> poller st \<notin> {Setting_Up, Out_Disabling_Locked, Out_Disabling_Set}) \<and>
     epfd_owner st \<and>
     m_pfd st = (if poller st \<in> {Out_Disabling, Out_Disabling_Locked, Out_Disabling_Set} then Some Manager else None) \<and>
     m_send st = (if poller st \<in> {Out_Sending, Out_Emptied, Out_Disabling, Out_Disabling_Locked, Out_Disabling_Set}
                  then Some Manager else None)"

lemma epoll_mod_fields [simp]:
  "out_conn (epoll_mod ok b st) = out_conn st" "epfd_there (epoll_mod ok b st) = epfd_there st"
  "m_tcp_connection (epoll_mod ok b st) = m_tcp_connection st" "m_send (epoll_mod ok b st) = m_send st"
  "m_pfd (epoll_mod ok b st) = m_pfd st" "m_epfd (epoll_mod ok b st) = m_epfd st"
  "senders (epoll_mod ok b st) = senders st" "poller (epoll_mod ok b st) = poller st"
  "ctl_failed (epoll_mod ok b st) = (ctl_failed st \<or> epfd_there st \<and> \<not> ok)"
  "epoll_out (epoll_mod ok b st) = (if epfd_there st \<and> ok then b else epoll_out st)"
  by (simp_all add: epoll_mod_def)

lemma set_out_enabled_fields [simp]:
  "out_conn (set_out_enabled b st) = (out_conn st)\<lparr>out_enabled := b\<rparr>" "epfd_there (set_out_enabled b st) = epfd_there st"
  "m_tcp_connection (set_out_enabled b st) = m_tcp_connection st" "m_send (set_out_enabled b st) = m_send st"
  "m_pfd (set_out_enabled b st) = m_pfd st" "m_epfd (set_out_enabled b st) = m_epfd st"
  "senders (set_out_enabled b st) = senders st" "poller (set_out_enabled b st) = poller st"
  "ctl_failed (set_out_enabled b st) = ctl_failed st" "epoll_out (set_out_enabled b st) = epoll_out st"
  by (simp_all add: set_out_enabled_def)

lemma go_fields [simp]:
  "out_conn (go t pc st) = out_conn st" "epfd_there (go t pc st) = epfd_there st"
  "m_tcp_connection (go t pc st) = m_tcp_connection st" "m_send (go t pc st) = m_send st"
  "m_pfd (go t pc st) = m_pfd st" "m_epfd (go t pc st) = m_epfd st"
  "senders (go t pc st) = (senders st)(t := pc)" "poller (go t pc st) = poller st"
  "ctl_failed (go t pc st) = ctl_failed st" "epoll_out (go t pc st) = epoll_out st"
  by (simp_all add: go_def)

lemma locks_frame:
  assumes "locks_inv serialised st" "senders st' = (senders st)(t := pc)"
    and "\<And>t'. serialised \<Longrightarrow> m_tcp_connection st' \<noteq> Some t' \<Longrightarrow> senders st' t' = Idle"
    and "pc \<in> {Enabling_Locked, Enabling_Set} \<longleftrightarrow> senders st t \<in> {Enabling_Locked, Enabling_Set}"
    and "m_epfd st' = m_epfd st" "m_pfd st' = m_pfd st" "m_send st' = m_send st" "poller st' = poller st"
  shows "locks_inv serialised st'"
proof -
  have "epfd_owner st'" using assms(1,2,4,5,8)
    by (cases "m_epfd st") (auto simp: locks_inv_def epfd_owner_def split: thread.splits)
  with assms show ?thesis unfolding locks_inv_def by auto
qed

lemma serialised_owner:
  "locks_inv serialised st \<Longrightarrow> serialised \<Longrightarrow> senders st t \<noteq> Idle \<Longrightarrow> m_tcp_connection st = Some t"
  unfolding locks_inv_def by blast

lemma serialised_idle:
  assumes "locks_inv serialised st" "serialised" "senders st t \<noteq> Idle" "t' \<noteq> t"
  shows "senders st t' = Idle"
  using serialised_owner[OF assms(1-3)] serialised_owner[OF assms(1,2), of t'] assms(4) by force

lemma send_locks:
  assumes "send_step serialised ok t st = Some st'" "locks_inv serialised st"
  shows "locks_inv serialised st'"
proof -
  have tcp: "senders st t' = Idle" if "serialised" "m_tcp_connection st \<noteq> Some t'" for t'
    using assms(2) that by (simp add: locks_inv_def)
  show ?thesis
    using assms(1)
  proof (cases rule: send_step_cases)
  case (push s)
  then show ?thesis by (intro locks_frame[OF assms(2), where t = t and pc = Checking]) (auto intro: tcp dest: tcp)
next
  case enabled
  then show ?thesis by (intro locks_frame[OF assms(2), where t = t and pc = Leaving]) (auto intro: tcp dest: tcp)
next
  case unset
  then show ?thesis by (intro locks_frame[OF assms(2), where t = t and pc = Enabling]) (auto intro: tcp dest: tcp)
next
  case lock
  with assms(2) show ?thesis by (auto simp: locks_inv_def epfd_owner_def available_def)
next
  case set
  then show ?thesis by (intro locks_frame[OF assms(2), where t = t and pc = Enabling_Set]) (auto intro: tcp dest: tcp)
next
  case mod
  with assms(2) have "m_epfd st = Some (App t)" by (auto simp: locks_inv_def)
  with mod assms(2) show ?thesis by (auto simp: locks_inv_def epfd_owner_def)
next
  case leave
  then have "senders st t' = Idle" if "serialised" "t' \<noteq> t" for t'
    using serialised_idle[OF assms(2) that(1) _ that(2)] by simp
  with leave show ?thesis by (intro locks_frame[OF assms(2), where t = t and pc = Idle]) auto
  qed
qed

lemma poll_locks:
  assumes "poll_step ok w st = Some st'" "locks_inv serialised st"
  shows "locks_inv serialised st'"
  using assms(1)
proof (cases rule: poll_step_cases)
  case (sent c bytes keep)
  with assms(2) show ?thesis by (auto simp: locks_inv_def epfd_owner_def split: option.splits thread.splits)
qed (use assms(2) in \<open>auto simp: locks_inv_def epfd_owner_def available_def split: option.splits thread.splits\<close>)

lemma call_locks:
  assumes "call_send serialised t s st = Some st'" "locks_inv serialised st"
  shows "locks_inv serialised st'"
proof -
  have st': "senders st' = (senders st)(t := Entering s)" "senders st t = Idle" "m_epfd st' = m_epfd st"
      "m_pfd st' = m_pfd st" "m_send st' = m_send st" "poller st' = poller st"
      "serialised \<longrightarrow> m_tcp_connection st = None \<and> m_tcp_connection st' = Some t"
    using assms(1) by (auto simp: call_send_def split: if_splits)
  have "senders st t' = Idle" if "serialised" for t' using assms(2) st'(7) that by (simp add: locks_inv_def)
  with st' show ?thesis by (intro locks_frame[OF assms(2) st'(1)]) auto
qed

lemma event_locks:
  assumes "poll_event st = Some st'" "locks_inv serialised st"
  shows "locks_inv serialised st'"
proof -
  have st': "poller st = Polling" "st' = st\<lparr>poller := Out_Called\<rparr>"
    using assms(1) by (simp_all add: poll_event_def split: if_splits)
  consider "m_epfd st = None" | t where "m_epfd st = Some (App t)" | "m_epfd st = Some Manager"
    by (metis option.exhaust thread.exhaust)
  then show ?thesis using st' assms(2) by cases (simp_all add: locks_inv_def epfd_owner_def)
qed

subsection \<open>The queue and the flags\<close>

text \<open>A thread that will still make sure that the output is enabled.\<close>

definition will_enable :: "out_state \<Rightarrow> bool" where
  "will_enable st \<longleftrightarrow> (\<exists>t. senders st t \<in> {Checking, Enabling, Enabling_Locked})"

definition will_register :: "out_state \<Rightarrow> bool" where
  "will_register st \<longleftrightarrow> (\<exists>t. senders st t = Enabling_Set)"

definition flags_ok :: "bool \<Rightarrow> bool \<Rightarrow> bool \<Rightarrow> bool \<Rightarrow> bool \<Rightarrow> poll_pc \<Rightarrow> bool \<Rightarrow> bool \<Rightarrow> bool" where
  "flags_ok queued enabled there registered failed pc enabling registering \<longleftrightarrow>
     (pc \<in> {Out_Emptied, Out_Disabling, Out_Disabling_Locked, Out_Disabling_Set} \<longrightarrow> \<not> queued) \<and>
     (pc = Out_Sending \<longrightarrow> queued) \<and>
     (queued \<and> \<not> enabled \<longrightarrow> enabling) \<and>
     (pc \<in> {Starting, Setting_Up} \<longrightarrow> \<not> there) \<and>
     (pc \<notin> {Starting, Setting_Up, Ended} \<longrightarrow> there) \<and>
     (registered \<longrightarrow> there) \<and>
     (registering \<longrightarrow> enabled) \<and>
     (pc = Out_Disabling_Set \<longrightarrow> \<not> enabled) \<and>
     (\<not> failed \<longrightarrow>
        (registered \<and> \<not> enabled \<longrightarrow> pc = Out_Disabling_Set) \<and>
        (there \<and> \<not> registered \<and> enabled \<longrightarrow> registering) \<and>
        (pc \<in> {Out_Called, Out_Sending, Out_Emptied, Out_Disabling, Out_Disabling_Locked} \<longrightarrow> enabled \<and> registered))"

definition flags_inv :: "out_state \<Rightarrow> bool" where
  "flags_inv st \<longleftrightarrow>
     flags_ok (send_queue (out_conn st) \<noteq> []) (out_enabled (out_conn st)) (epfd_there st) (epoll_out st) (ctl_failed st)
       (poller st) (will_enable st) (will_register st)"

lemma will_fields:
  "senders st' = senders st \<Longrightarrow> will_enable st' = will_enable st"
  "senders st' = senders st \<Longrightarrow> will_register st' = will_register st"
  by (simp_all add: will_enable_def will_register_def)

lemma will_go:
  "senders st' = (senders st)(t := pc) \<Longrightarrow> pc \<in> {Checking, Enabling, Enabling_Locked} \<Longrightarrow> will_enable st'"
  "senders st' = (senders st)(t := pc) \<Longrightarrow> senders st t \<notin> {Checking, Enabling, Enabling_Locked} \<Longrightarrow>
     pc \<notin> {Checking, Enabling, Enabling_Locked} \<Longrightarrow> will_enable st' = will_enable st"
  "senders st' = (senders st)(t := Enabling_Set) \<Longrightarrow> will_register st'"
  "senders st' = (senders st)(t := pc) \<Longrightarrow> senders st t \<noteq> Enabling_Set \<Longrightarrow> pc \<noteq> Enabling_Set \<Longrightarrow>
     will_register st' = will_register st"
  unfolding will_enable_def will_register_def by (metis fun_upd_apply)+

lemma registering: "senders st t = Enabling_Set \<Longrightarrow> will_register st"
  by (auto simp: will_register_def)

text \<open>Only one thread is between setting the flag and \<open>epoll_ctl\<close>.\<close>

lemma register_last:
  assumes "locks_inv serialised st" "senders st t = Enabling_Set" "senders st' = (senders st)(t := pc)" "pc \<noteq> Enabling_Set"
  shows "\<not> will_register st'"
proof -
  have "m_epfd st = Some (App t)" using assms(1,2) by (auto simp: locks_inv_def)
  then have "senders st t' \<noteq> Enabling_Set" if "t' \<noteq> t" for t' using assms(1) that by (auto simp: locks_inv_def)
  with assms(3,4) show ?thesis by (auto simp: will_register_def)
qed

text \<open>The steps as changes of the flags.\<close>

lemmas flags_ok_pc = flags_ok_def insert_iff empty_iff poll_pc.distinct poll_pc.simps

lemma flags_send:
  "flags_ok q e th r f pc en rg \<Longrightarrow>
     pc \<notin> {Out_Sending, Out_Emptied, Out_Disabling, Out_Disabling_Locked, Out_Disabling_Set} \<Longrightarrow>
     flags_ok True e th r f pc True rg"
  "flags_ok q True th r f pc en rg \<Longrightarrow> flags_ok q True th r f pc en' rg"
  "flags_ok q e th r f pc en rg \<Longrightarrow> flags_ok q e th r f pc True rg"
  "flags_ok q e th r f pc en rg \<Longrightarrow> pc \<noteq> Out_Disabling_Set \<Longrightarrow> flags_ok q True th r f pc en' True"
  "flags_ok q e th r f pc en True \<Longrightarrow>
     flags_ok q e th (if th \<and> ok then True else r) (f \<or> th \<and> \<not> ok) pc en' False"
  by (cases pc; simp only: flags_ok_pc simp_thms split: if_split; blast)+

lemma flags_poll:
  "flags_ok q e th r f Starting en rg \<Longrightarrow> flags_ok q e th r f Setting_Up en rg"
  "flags_ok q e th r f Setting_Up en rg \<Longrightarrow> flags_ok q e True e f Polling en rg"
  "flags_ok q e th r f Setting_Up en rg \<Longrightarrow> flags_ok q e th r True Ended en rg"
  "flags_ok q e th r f Polling en rg \<Longrightarrow> r \<Longrightarrow> flags_ok q e th r f Out_Called en rg"
  "flags_ok q e th r f Out_Called en rg \<Longrightarrow> flags_ok q e th r f (if q then Out_Sending else Out_Emptied) en rg"
  "flags_ok q e th r f Out_Sending en rg \<Longrightarrow> flags_ok False e th r f Out_Emptied en rg"
  "flags_ok q e th r f Out_Sending en rg \<Longrightarrow> pc = Polling \<or> pc = Ended \<Longrightarrow> flags_ok q' e th r f pc en rg"
  "flags_ok q e th r f Out_Emptied en rg \<Longrightarrow> flags_ok q e th r f Out_Disabling en rg"
  "flags_ok q e th r f Out_Disabling en rg \<Longrightarrow> flags_ok q e th r f Out_Disabling_Locked en rg"
  "flags_ok q e th r f Out_Disabling_Locked en False \<Longrightarrow> flags_ok q False th r f Out_Disabling_Set en False"
  "flags_ok q e th r f Out_Disabling_Set en False \<Longrightarrow>
     flags_ok q e th (if th \<and> ok then False else r) (f \<or> th \<and> \<not> ok) Polling en False"
  by (simp only: flags_ok_pc simp_thms split: if_split; blast)+

lemma send_flags:
  assumes "send_step serialised ok t st = Some st'" "locks_inv serialised st" "flags_inv st"
  shows "flags_inv st'"
  using assms(1)
proof (cases rule: send_step_cases)
  case (push s)
  then have w: "will_enable st' \<longleftrightarrow> True" "will_register st' = will_register st"
    using will_go(1)[of st' st t Checking] will_go(4)[of st' st t Checking] by simp_all
  have "poller st \<notin> {Out_Sending, Out_Emptied, Out_Disabling, Out_Disabling_Locked, Out_Disabling_Set}"
    using push(2) assms(2) by (auto simp: available_def locks_inv_def)
  from flags_send(1)[OF assms(3)[unfolded flags_inv_def] this] show ?thesis
    unfolding flags_inv_def w by (simp add: push(3))
next
  case enabled
  then have w: "will_register st' = will_register st" using will_go(4)[of st' st t Leaving] by simp
  from flags_send(2)[of _ _ _ _ _ _ _ "will_enable st'"] assms(3) enabled(3) show ?thesis
    unfolding flags_inv_def w by (simp add: enabled(4))
next
  case unset
  then have w: "will_enable st' \<longleftrightarrow> True" "will_register st' = will_register st"
    using will_go(1)[of st' st t Enabling] will_go(4)[of st' st t Enabling] by simp_all
  from flags_send(3)[OF assms(3)[unfolded flags_inv_def]] show ?thesis
    unfolding flags_inv_def w by (simp add: unset(4))
next
  case lock
  then have w: "will_enable st' \<longleftrightarrow> True" "will_register st' = will_register st"
    using will_go(1)[of st' st t Enabling_Locked] will_go(4)[of st' st t Enabling_Locked] by simp_all
  from flags_send(3)[OF assms(3)[unfolded flags_inv_def]] show ?thesis
    unfolding flags_inv_def w by (simp add: lock(3))
next
  case set
  then have w: "will_register st' \<longleftrightarrow> True" using will_go(3)[of st' st t] by simp
  have "poller st \<noteq> Out_Disabling_Set" using set(2) assms(2) by (auto simp: available_def locks_inv_def)
  from flags_send(4)[OF assms(3)[unfolded flags_inv_def] this, of "will_enable st'"] show ?thesis
    unfolding flags_inv_def w by (simp add: set(3))
next
  case mod
  have w: "will_register st' \<longleftrightarrow> False" using register_last[OF assms(2) mod(1), of st' Leaving] mod(3) by simp
  have "will_register st \<longleftrightarrow> True" using registering[OF mod(1)] by simp
  from flags_send(5)[OF assms(3)[unfolded flags_inv_def this], of ok "will_enable st'"] show ?thesis
    unfolding flags_inv_def w by (simp add: mod(3))
next
  case leave
  then have w: "will_enable st' = will_enable st" "will_register st' = will_register st"
    using will_go(2)[of st' st t Idle] will_go(4)[of st' st t Idle] by simp_all
  show ?thesis using assms(3) unfolding flags_inv_def w by (simp add: leave(2))
qed

lemma poll_step_senders: "poll_step ok w st = Some st' \<Longrightarrow> senders st' = senders st"
  by (erule poll_step_cases) auto

lemma poll_flags:
  assumes "poll_step ok w st = Some st'" "locks_inv serialised st" "flags_inv st"
  shows "flags_inv st'"
proof -
  note w = will_fields[OF poll_step_senders[OF assms(1)]]
  note inv = assms(3)[unfolded flags_inv_def]
  have alone: "will_register st \<longleftrightarrow> False" if "poller st \<in> {Out_Disabling_Locked, Out_Disabling_Set}"
  proof -
    have "m_epfd st = Some Manager" using that assms(2) by (auto simp: locks_inv_def)
    then show ?thesis using assms(2) by (auto simp: locks_inv_def will_register_def)
  qed
  show ?thesis
    using assms(1)
  proof (cases rule: poll_step_cases)
    case start
    with flags_poll(1) inv show ?thesis unfolding flags_inv_def w by simp
  next
    case running
    with flags_poll(2) inv show ?thesis unfolding flags_inv_def w by simp
  next
    case failed
    with flags_poll(3) inv show ?thesis unfolding flags_inv_def w by simp
  next
    case called
    with flags_poll(5)[OF inv[unfolded called(1)]] show ?thesis unfolding flags_inv_def w by (simp split: if_splits)
  next
    case (sent c bytes keep)
    with flags_poll(6)[OF inv[unfolded sent(1)]]
      flags_poll(7)[OF inv[unfolded sent(1)], of "poller st'" "send_queue c \<noteq> []"] show ?thesis
      unfolding flags_inv_def w by (cases "keep \<and> send_queue c = []") auto
  next
    case emptied
    with flags_poll(8) inv show ?thesis unfolding flags_inv_def w by simp
  next
    case lock
    with flags_poll(9) inv show ?thesis unfolding flags_inv_def w by simp
  next
    case clear
    with flags_poll(10) inv alone show ?thesis unfolding flags_inv_def w by simp
  next
    case mod
    with flags_poll(11)[of "send_queue (out_conn st) \<noteq> []" _ _ _ _ _ ok] inv alone show ?thesis
      unfolding flags_inv_def w by simp
  qed
qed

lemma call_flags:
  assumes "call_send serialised t s st = Some st'" "flags_inv st"
  shows "flags_inv st'"
proof -
  have st': "senders st' = (senders st)(t := Entering s)" "senders st t = Idle" "out_conn st' = out_conn st"
      "epfd_there st' = epfd_there st" "epoll_out st' = epoll_out st" "ctl_failed st' = ctl_failed st" "poller st' = poller st"
    using assms(1) by (auto simp: call_send_def split: if_splits)
  have w: "will_enable st' = will_enable st" "will_register st' = will_register st"
    using will_go(2)[OF st'(1)] will_go(4)[OF st'(1)] st'(2) by simp_all
  show ?thesis using assms(2) unfolding flags_inv_def w st'(3-) .
qed

lemma event_flags:
  assumes "poll_event st = Some st'" "flags_inv st"
  shows "flags_inv st'"
proof -
  have st': "st' = st\<lparr>poller := Out_Called\<rparr>" "poller st = Polling" "epoll_out st"
    using assms(1) by (auto simp: poll_event_def split: if_splits)
  have w: "will_enable st' = will_enable st" "will_register st' = will_register st"
    by (rule will_fields, simp add: st'(1))+
  from flags_poll(4)[OF assms(2)[unfolded flags_inv_def st'(2)] st'(3)] show ?thesis
    unfolding flags_inv_def w by (simp add: st'(1))
qed

subsection \<open>The streams in the queue\<close>

definition streams_ok :: "out_state \<Rightarrow> bool" where
  "streams_ok st \<longleftrightarrow> (\<forall>s \<in> set (send_queue (out_conn st)). sendable s) \<and> (\<forall>t s. senders st t = Entering s \<longrightarrow> stream_inv s)"

lemma send_streams: "send_step serialised ok t st = Some st' \<Longrightarrow> streams_ok st \<Longrightarrow> streams_ok st'"
  by (erule send_step_cases) (auto simp: streams_ok_def send_appends(2))

lemma poll_streams:
  assumes "poll_step ok w st = Some st'" "write_result_ok w (out_conn st)" "streams_ok st"
  shows "streams_ok st'"
  using assms(1)
proof (cases rule: poll_step_cases)
  case (sent c bytes keep)
  then have "\<forall>s \<in> set (send_queue c). sendable s"
    using data_out_correct[of "out_conn st" w] assms(2,3) by (auto simp: streams_ok_def)
  with sent assms(3) show ?thesis by (auto simp: streams_ok_def)
qed (use assms(3) in \<open>auto simp: streams_ok_def\<close>)

lemma call_streams: "call_send serialised t s st = Some st' \<Longrightarrow> stream_inv s \<Longrightarrow> streams_ok st \<Longrightarrow> streams_ok st'"
  by (auto simp: call_send_def streams_ok_def split: if_splits)

lemma event_streams: "poll_event st = Some st' \<Longrightarrow> streams_ok st \<Longrightarrow> streams_ok st'"
  by (auto simp: poll_event_def streams_ok_def split: if_splits)

subsection \<open>One sender at a time\<close>

text \<open>
  While a thread is about to enable the output, the manager does nothing with it. This is where
  \<open>m_tcp_connection\<close> matters: it orders \<open>m\<close> before \<open>m_epfd\<close> in \<open>data_out\<close> and the other way
  round in \<open>fd_enable_out\<close>.
\<close>

definition undisturbed :: "bool \<Rightarrow> bool \<Rightarrow> poll_pc \<Rightarrow> send_pc \<Rightarrow> bool" where
  "undisturbed enabled registered ppc pc \<longleftrightarrow>
     (case pc of
        Enabling \<Rightarrow> \<not> enabled \<and> ppc \<in> {Starting, Setting_Up, Polling, Ended}
      | Enabling_Locked \<Rightarrow> \<not> enabled \<and> ppc \<in> {Starting, Setting_Up, Polling, Ended}
      | Enabling_Set \<Rightarrow> \<not> registered \<and> ppc \<in> {Starting, Setting_Up, Polling, Ended}
      | _ \<Rightarrow> True)"

definition order_inv :: "out_state \<Rightarrow> bool" where
  "order_inv st \<longleftrightarrow>
     ctl_failed st \<or> (\<forall>t. undisturbed (out_enabled (out_conn st)) (epoll_out st) (poller st) (senders st t))"

lemma undisturbed_simps [simp]:
  "undisturbed e r ppc Idle" "undisturbed e r ppc (Entering s)" "undisturbed e r ppc Checking" "undisturbed e r ppc Leaving"
  "undisturbed e r ppc Enabling \<longleftrightarrow> \<not> e \<and> ppc \<in> {Starting, Setting_Up, Polling, Ended}"
  "undisturbed e r ppc Enabling_Locked \<longleftrightarrow> \<not> e \<and> ppc \<in> {Starting, Setting_Up, Polling, Ended}"
  "undisturbed e r ppc Enabling_Set \<longleftrightarrow> \<not> r \<and> ppc \<in> {Starting, Setting_Up, Polling, Ended}"
  by (simp_all add: undisturbed_def)

lemma order_send:
  assumes "locks_inv True st" "senders st t \<noteq> Idle" "senders st' = (senders st)(t := pc)"
    and "\<not> ctl_failed st' \<Longrightarrow> undisturbed (out_enabled (out_conn st')) (epoll_out st') (poller st') pc"
  shows "order_inv st'"
  using serialised_idle[OF assms(1) TrueI assms(2)] assms(3,4) by (auto simp: order_inv_def)

lemma order_facts:
  assumes "flags_inv st" "\<not> ctl_failed st"
  shows "\<not> out_enabled (out_conn st) \<Longrightarrow> poller st \<in> {Starting, Setting_Up, Polling, Out_Disabling_Set, Ended}"
    "\<not> out_enabled (out_conn st) \<Longrightarrow> epoll_out st \<Longrightarrow> poller st = Out_Disabling_Set"
  using assms by (cases "poller st"; simp add: flags_inv_def flags_ok_def)+

lemma send_order:
  assumes "send_step True ok t st = Some st'" "locks_inv True st" "flags_inv st" "order_inv st"
  shows "order_inv st'"
  using assms(1)
proof (cases rule: send_step_cases)
  case unset
  have "poller st \<noteq> Out_Disabling_Set" using unset(2) assms(2) by (auto simp: available_def locks_inv_def)
  with unset order_facts(1)[OF assms(3)] show ?thesis
    by (intro order_send[OF assms(2), of t _ Enabling]) auto
next
  case lock
  with assms(4) show ?thesis by (intro order_send[OF assms(2), of t _ Enabling_Locked]) (auto simp: order_inv_def dest: spec[of _ t])
next
  case set
  then have u: "\<not> out_enabled (out_conn st)" "poller st \<in> {Starting, Setting_Up, Polling, Ended}" if "\<not> ctl_failed st"
    using assms(4) that by (auto simp: order_inv_def dest: spec[of _ t])
  then have "\<not> epoll_out st" if "\<not> ctl_failed st" using order_facts(2)[OF assms(3) that] that by auto
  with set u show ?thesis by (intro order_send[OF assms(2), of t _ Enabling_Set]) auto
qed (rule order_send[OF assms(2), of t], auto)+

lemma poll_order:
  assumes "poll_step ok w st = Some st'" "locks_inv True st" "flags_inv st" "order_inv st"
  shows "order_inv st'"
proof (cases "ctl_failed st'")
  case False
  have s: "senders st' = senders st" by (rule poll_step_senders[OF assms(1)])
  have f: "\<not> ctl_failed st" using assms(1) False by (cases rule: poll_step_cases) (auto split: if_splits)
  have "undisturbed (out_enabled (out_conn st')) (epoll_out st') (poller st') (senders st t)" for t
  proof (cases "senders st t \<in> {Enabling, Enabling_Locked, Enabling_Set}")
    case True
    with assms(4) f have "poller st \<in> {Starting, Setting_Up, Polling, Ended}"
      "undisturbed (out_enabled (out_conn st)) (epoll_out st) (poller st) (senders st t)"
      by (auto simp: order_inv_def dest: spec[of _ t])
    note u = this
    have "senders st t \<noteq> Enabling_Set \<and> senders st t \<noteq> Enabling_Locked" if "poller st = Setting_Up"
      using that assms(2) by (auto simp: locks_inv_def)
    with assms(1) show ?thesis using True u f False by (cases rule: poll_step_cases) auto
  qed (cases "senders st t"; simp)
  then show ?thesis by (simp add: order_inv_def s)
qed (simp add: order_inv_def)

lemma call_order: "call_send True t s st = Some st' \<Longrightarrow> order_inv st \<Longrightarrow> order_inv st'"
  by (auto simp: call_send_def order_inv_def split: if_splits)

lemma event_order:
  assumes "poll_event st = Some st'" "flags_inv st" "order_inv st"
  shows "order_inv st'"
proof (cases "ctl_failed st")
  case False
  have st': "st' = st\<lparr>poller := Out_Called\<rparr>" "poller st = Polling" "epoll_out st"
    using assms(1) by (auto simp: poll_event_def split: if_splits)
  with order_facts(2)[OF assms(2) False] have "out_enabled (out_conn st)" by auto
  with st' False assms(3) have "senders st t \<notin> {Enabling, Enabling_Locked, Enabling_Set}" for t
    by (auto simp: order_inv_def dest: spec[of _ t])
  then have "undisturbed e r ppc (senders st t)" for e r ppc t by (cases "senders st t") auto
  then show ?thesis by (simp add: order_inv_def st'(1))
qed (use assms(1) in \<open>auto simp: order_inv_def poll_event_def split: if_splits\<close>)

subsection \<open>All steps\<close>

definition output_inv :: "bool \<Rightarrow> out_state \<Rightarrow> bool" where
  "output_inv serialised st \<longleftrightarrow>
     locks_inv serialised st \<and> flags_inv st \<and> streams_ok st \<and> (serialised \<longrightarrow> order_inv st)"

lemma continues_inv:
  assumes "continues serialised ok st st'" "output_inv serialised st"
  shows "output_inv serialised st'"
  using assms(1) unfolding continues_def
proof (elim disjE exE conjE)
  fix t
  assume s: "send_step serialised ok t st = Some st'"
  show ?thesis
    using assms(2) send_locks[OF s] send_flags[OF s] send_streams[OF s] send_order[of ok t st st'] s
    unfolding output_inv_def by (cases serialised) simp_all
next
  fix w
  assume p: "write_result_ok w (out_conn st)" "poll_step ok w st = Some st'"
  show ?thesis
    using assms(2) poll_locks[OF p(2), of serialised] poll_flags[OF p(2), of serialised] poll_streams[OF p(2,1)] poll_order[OF p(2)]
    unfolding output_inv_def by (cases serialised) simp_all
qed

lemma output_step_inv:
  assumes "output_step serialised st st'" "output_inv serialised st"
  shows "output_inv serialised st'"
  using assms(1) unfolding output_step_def
proof (elim disjE exE conjE)
  fix t s
  assume "stream_inv s" "call_send serialised t s st = Some st'"
  with assms(2) show ?thesis unfolding output_inv_def
    by (cases serialised) (auto intro: call_locks call_flags call_streams call_order)
next
  assume "poll_event st = Some st'"
  with assms(2) show ?thesis unfolding output_inv_def
    by (cases serialised) (auto intro: event_locks event_flags event_streams event_order)
qed (use assms(2) continues_inv in blast)

lemma output_start_inv: "output_start st \<Longrightarrow> output_inv serialised st"
  by (auto simp: output_start_def output_inv_def locks_inv_def epfd_owner_def flags_inv_def flags_ok_def
      will_enable_def will_register_def streams_ok_def order_inv_def)

interpretation output_side: inductive_invariant output_start "output_step serialised" "output_inv serialised" for serialised
  by unfold_locales (auto intro: output_start_inv output_step_inv)

subsection \<open>Progress\<close>

definition settled :: "out_state \<Rightarrow> bool" where
  "settled st \<longleftrightarrow> (\<forall>t. senders st t = Idle) \<and> poller st \<in> {Polling, Ended}"

text \<open>The manager's thread can go on unless it waits for a mutex that a sender holds.\<close>

lemma poller_goes_on:
  assumes "output_inv True st" "poller st \<notin> {Polling, Ended}"
    and "poller st \<in> {Starting, Out_Disabling} \<Longrightarrow> m_epfd st = None"
  shows "\<exists>st'. continues True True st st'"
proof -
  have "\<exists>st'. poll_step True Write_Again st = Some st'"
  proof (cases "poller st = Out_Sending")
    case True
    then have "\<exists>c bytes keep. data_out Write_Again (out_conn st) = Inr (c, bytes, keep)"
      using data_out_correct[of "out_conn st" Write_Again] assms(1)
      by (force simp: output_inv_def streams_ok_def write_result_ok_def)
    with True assms(1) show ?thesis by (auto simp: poll_step_def available_def output_inv_def locks_inv_def Let_def)
  next
    case False
    with assms show ?thesis
      by (cases "poller st") (auto simp: poll_step_def available_def output_inv_def locks_inv_def)
  qed
  moreover have "write_result_ok Write_Again (out_conn st)" by (simp add: write_result_ok_def)
  ultimately show ?thesis unfolding continues_def by blast
qed

lemma sender_goes_on:
  assumes "output_inv True st" "senders st t \<noteq> Idle"
    and "\<And>s. senders st t = Entering s \<Longrightarrow> m_send st = None"
    and "senders st t \<in> {Checking, Enabling_Locked, Enabling_Set} \<Longrightarrow> m_pfd st = None"
    and "senders st t = Enabling \<Longrightarrow> m_epfd st = None"
  shows "\<exists>st'. continues True True st st'"
proof -
  have "\<exists>st'. send_step True True t st = Some st'"
    using assms(2-5) by (cases "senders st t") (auto simp: send_step_def available_def)
  then show ?thesis unfolding continues_def by blast
qed

lemma progress:
  assumes "output_inv True st" "\<not> ctl_failed st" "\<not> settled st"
  shows "\<exists>st'. continues True True st st'"
proof (cases "poller st \<in> {Polling, Ended}")
  case True
  then obtain t where "senders st t \<noteq> Idle" using assms(3) by (auto simp: settled_def)
  moreover from True assms(1) have "m_send st = None" "m_pfd st = None" by (auto simp: output_inv_def locks_inv_def)
  moreover have "m_epfd st = None" if "senders st t = Enabling"
  proof (cases "m_epfd st")
    case (Some u)
    with assms(1) True have "\<exists>t'. u = App t' \<and> senders st t' \<in> {Enabling_Locked, Enabling_Set}"
      by (cases u) (auto simp: output_inv_def locks_inv_def epfd_owner_def)
    then show ?thesis using serialised_idle[of True st t] assms(1) that by (metis TrueI insert_iff output_inv_def empty_iff send_pc.distinct)
  qed simp
  ultimately show ?thesis using sender_goes_on[OF assms(1)] by blast
next
  case False
  show ?thesis
  proof (cases "m_epfd st")
    case None
    then show ?thesis using poller_goes_on[OF assms(1) False] by blast
  next
    case (Some u)
    show ?thesis
    proof (cases u)
      case (App t)
      with Some assms(1) have "senders st t \<in> {Enabling_Locked, Enabling_Set}"
        by (auto simp: output_inv_def locks_inv_def epfd_owner_def)
      moreover from this assms(1,2) have "poller st \<in> {Starting, Setting_Up, Polling, Ended}"
        by (auto simp: output_inv_def order_inv_def dest: spec[of _ t])
      moreover from this assms(1) have "m_pfd st = None" by (auto simp: output_inv_def locks_inv_def)
      ultimately show ?thesis using sender_goes_on[OF assms(1), of t] by auto
    next
      case Manager
      with Some assms(1) have "poller st \<in> {Setting_Up, Out_Disabling_Locked, Out_Disabling_Set}"
        by (auto simp: output_inv_def locks_inv_def epfd_owner_def)
      then show ?thesis using poller_goes_on[OF assms(1) False] by auto
    qed
  qed
qed

end
