(* ===== verification/Output_Properties.thy ===== *)
theory Output_Properties
  imports Output_Safety Daemon_Properties
begin

text \<open>
  The properties of the threads that share the output side of a connection: the client library
  never gets stuck between its mutexes and forgets no queued message; \<open>Connection\<close> alone would.
\<close>

subsection \<open>Everything that was begun ends\<close>

fun send_rank :: "send_pc \<Rightarrow> nat" where
  "send_rank Idle = 0"
| "send_rank (Entering s) = 6"
| "send_rank Checking = 5"
| "send_rank Enabling = 4"
| "send_rank Enabling_Locked = 3"
| "send_rank Enabling_Set = 2"
| "send_rank Leaving = 1"

fun poll_rank :: "poll_pc \<Rightarrow> nat" where
  "poll_rank Starting = 2"
| "poll_rank Setting_Up = 1"
| "poll_rank Polling = 0"
| "poll_rank Out_Called = 6"
| "poll_rank Out_Sending = 5"
| "poll_rank Out_Emptied = 4"
| "poll_rank Out_Disabling = 3"
| "poll_rank Out_Disabling_Locked = 2"
| "poll_rank Out_Disabling_Set = 1"
| "poll_rank Ended = 0"

definition output_rank :: "out_state \<Rightarrow> nat" where
  "output_rank st =
     (case m_tcp_connection st of None \<Rightarrow> 0 | Some t \<Rightarrow> send_rank (senders st t)) + poll_rank (poller st)"

lemma send_rank_less:
  assumes "send_step True ok t st = Some st'" "locks_inv True st"
  shows "output_rank st' < output_rank st"
proof -
  have "senders st t \<noteq> Idle" using assms(1) by (auto simp: send_step_def)
  then have "m_tcp_connection st = Some t" using serialised_owner[OF assms(2)] by simp
  with assms(1) show ?thesis by (cases rule: send_step_cases) (auto simp: output_rank_def)
qed

lemma poll_rank_less: "poll_step ok w st = Some st' \<Longrightarrow> output_rank st' < output_rank st"
  by (erule poll_step_cases) (auto simp: output_rank_def split: option.splits)

lemma continues_rank: "continues True ok st st' \<Longrightarrow> output_inv True st \<Longrightarrow> output_rank st' < output_rank st"
  using send_rank_less poll_rank_less unfolding continues_def output_inv_def by blast

lemma continues_unfailed: "continues serialised True st st' \<Longrightarrow> \<not> ctl_failed st \<Longrightarrow> \<not> ctl_failed st'"
  unfolding continues_def
proof (elim disjE exE conjE)
  show "send_step serialised True t st = Some st' \<Longrightarrow> \<not> ctl_failed st \<Longrightarrow> \<not> ctl_failed st'" for t
    by (erule send_step_cases) auto
  show "poll_step True w st = Some st' \<Longrightarrow> \<not> ctl_failed st \<Longrightarrow> \<not> ctl_failed st'" for w
    by (erule poll_step_cases) auto
qed

lemma settles_eventually:
  assumes "output_inv True st" "\<not> ctl_failed st"
  shows "\<exists>st'. (continues True True)\<^sup>*\<^sup>* st st' \<and> settled st' \<and> output_inv True st' \<and> \<not> ctl_failed st'"
  using assms
proof (induction "output_rank st" arbitrary: st rule: less_induct)
  case less
  show ?case
  proof (cases "settled st")
    case True
    with less.prems show ?thesis by blast
  next
    case False
    then obtain st1 where s: "continues True True st st1" using progress[OF less.prems] by blast
    from less.hyps[OF continues_rank[OF s less.prems(1)] continues_inv[OF s less.prems(1)] continues_unfailed[OF s less.prems(2)]]
    show ?thesis using s by (meson converse_rtranclp_into_rtranclp)
  qed
qed

lemma settled_registered:
  assumes "output_inv serialised st" "settled st" "\<not> ctl_failed st" "poller st = Polling"
  shows "send_queue (out_conn st) \<noteq> [] \<longrightarrow> epoll_out st"
proof -
  have "\<not> will_enable st" "\<not> will_register st"
    using assms(2) by (auto simp: settled_def will_enable_def will_register_def)
  with assms(1,3,4) show ?thesis unfolding output_inv_def flags_inv_def by (simp add: flags_ok_def) blast
qed

subsection \<open>An example\<close>

datatype out_action = Call nat stream | Step nat | Event | Poll write_result

fun out_act :: "bool \<Rightarrow> out_action \<Rightarrow> out_state \<Rightarrow> out_state option" where
  "out_act serialised (Call t s) st = (if stream_inv s then call_send serialised t s st else None)"
| "out_act serialised (Step t) st = send_step serialised True t st"
| "out_act serialised Event st = poll_event st"
| "out_act serialised (Poll w) st = (if write_result_ok w (out_conn st) then poll_step True w st else None)"

fun run_outs :: "bool \<Rightarrow> out_action list \<Rightarrow> out_state \<Rightarrow> out_state option" where
  "run_outs serialised [] st = Some st"
| "run_outs serialised (a # as) st = Option.bind (out_act serialised a st) (run_outs serialised as)"

lemma run_outs_reachable:
  "run_outs serialised as st = Some st' \<Longrightarrow> output_reachable serialised st \<Longrightarrow> output_reachable serialised st'"
proof (induction as arbitrary: st)
  case (Cons a as)
  then obtain st1 where st1: "out_act serialised a st = Some st1" "run_outs serialised as st1 = Some st'"
    by (auto simp: bind_eq_Some_conv)
  from st1(1) have "output_step serialised st st1"
    by (cases a) (auto simp: output_step_def continues_def split: if_splits)
  with Cons st1(2) show ?case by (blast intro: reachable_step)
qed simp

definition output_new :: out_state where
  "output_new =
     \<lparr>out_conn = connection_new, epfd_there = False, epoll_out = False, ctl_failed = False, m_tcp_connection = None,
      m_send = None, m_pfd = None, m_epfd = None, senders = (\<lambda>_. Idle), poller = Starting\<rparr>"

lemma output_new_reachable: "output_reachable serialised output_new"
  by (rule reachable_init) (simp add: output_start_def output_new_def connection_new_def)

text \<open>
  Threads 1 and 2 have both queued a message and seen that the output is not enabled; 1 enables it,
  the manager sends both messages and is about to disable the output when 2 goes on.
\<close>

definition crossing :: "out_action list" where
  "crossing =
     [Poll Write_Again, Poll Write_Again, Call 1 (stream_of [7]), Call 2 (stream_of [8]), Step 1, Step 2, Step 1, Step 2,
      Step 1, Step 1, Step 1, Step 1, Event, Poll Write_Again, Poll (Wrote 1), Event, Poll Write_Again, Poll (Wrote 1),
      Poll Write_Again, Step 2]"

definition one_call :: "out_action list" where
  "one_call = [Call 1 (stream_of [7]), Step 1, Step 1, Poll Write_Again, Poll Write_Again, Step 1]"

lemmas out_eval = output_new_def connection_new_def call_send_def send_step_def poll_step_def poll_event_def
  available_def set_out_enabled_def epoll_mod_def write_result_ok_def data_out_def send_bytes_def peek_block_def
  stream_of_def stream_inv_def stream_seek_def stream_remaining_length_def unsent_def stream_contents_def Let_def

lemma crossing_run:
  "map_option (\<lambda>st. (senders st 2, poller st, m_pfd st, m_epfd st, ctl_failed st)) (run_outs False crossing output_new) =
     Some (Enabling_Locked, Out_Disabling, Some Manager, Some (App 2), False)"
  by (simp add: crossing_def out_eval)

lemma one_call_run:
  "map_option (\<lambda>st. (senders st 1, poller st, ctl_failed st)) (run_outs True one_call output_new) =
     Some (Enabling_Locked, Polling, False)"
  by (simp add: one_call_def out_eval)

subsection \<open>Properties\<close>

text \<open>
  C8: sending from several threads. In every interleaving of any number of application threads with
  the thread of the communications manager, as long as \<open>epoll_ctl\<close> has not failed, the threads are
  never stuck between the mutexes: all calls of \<open>send\<close> and \<open>data_out\<close> that have begun can be
  finished, whatever state they are in. And then no queued message is forgotten: if the queue is not
  empty, \<open>epoll\<close> has been told to report that the descriptor can be written.
\<close>

theorem output_settles:
  assumes "output_reachable True st" "\<not> ctl_failed st"
  shows "\<exists>st'. (continues True True)\<^sup>*\<^sup>* st st' \<and> settled st' \<and>
    (poller st' = Polling \<longrightarrow> send_queue (out_conn st') \<noteq> [] \<longrightarrow> epoll_out st')"
  using settles_eventually[OF output_side.inv_reachable[OF assms(1)] assms(2)] settled_registered by blast

theorem output_settles_witness:
  "\<exists>st st'. run_outs True one_call output_new = Some st \<and> senders st 1 = Enabling_Locked \<and>
     (continues True True)\<^sup>*\<^sup>* st st' \<and> settled st'"
proof -
  obtain st where st: "run_outs True one_call output_new = Some st" "senders st 1 = Enabling_Locked" "\<not> ctl_failed st"
    using one_call_run by auto
  from output_settles[OF run_outs_reachable[OF st(1) output_new_reachable] st(3)] st(1,2) show ?thesis by blast
qed

text \<open>A sender that holds \<open>m_epfd\<close> and a manager that holds \<open>m\<close> wait for each other.\<close>

definition crossed :: "nat \<Rightarrow> out_state \<Rightarrow> bool" where
  "crossed t st \<longleftrightarrow> senders st t = Enabling_Locked \<and> poller st = Out_Disabling \<and> m_pfd st = Some Manager \<and>
     m_epfd st = Some (App t)"

lemma crossed_step:
  assumes "output_step False st st'" "crossed t st" "locks_inv False st"
  shows "crossed t st'"
proof -
  have other: "senders st t' \<notin> {Enabling_Locked, Enabling_Set}" if "t' \<noteq> t" for t'
    using assms(2,3) that by (auto simp: crossed_def locks_inv_def)
  have "crossed t st'" if s: "send_step False ok t' st = Some st'" for ok t'
    using s other[of t'] assms(2)
    by (cases "t' = t"; cases rule: send_step_cases) (auto simp: crossed_def available_def)
  moreover have "poll_step ok w st \<noteq> Some st'" for ok w
    using assms(2) by (auto simp: crossed_def poll_step_def available_def)
  moreover have "poll_event st \<noteq> Some st'" using assms(2) by (auto simp: crossed_def poll_event_def)
  moreover have "crossed t st'" if "call_send False t' s st = Some st'" for t' s
    using that assms(2) by (auto simp: crossed_def call_send_def split: if_splits)
  ultimately show ?thesis using assms(1) by (auto simp: output_step_def continues_def)
qed

text \<open>
  C36: the mutex \<open>m_tcp_connection\<close> is needed for this. \<open>data_out\<close> locks \<open>m\<close> before
  \<open>m_epfd\<close> and \<open>fd_enable_out\<close> locks them in the other order; if two threads could be in \<open>send\<close>
  at a time, there would be a reachable state from which a sender and the manager wait for each other
  in every later state.
\<close>

theorem sends_can_deadlock:
  "\<exists>st t. output_reachable False st \<and> \<not> ctl_failed st \<and>
     (\<forall>st'. (output_step False)\<^sup>*\<^sup>* st st' \<longrightarrow>
        senders st' t = Enabling_Locked \<and> m_epfd st' = Some (App t) \<and> poller st' = Out_Disabling \<and> m_pfd st' = Some Manager)"
proof -
  obtain st where st: "run_outs False crossing output_new = Some st" "crossed 2 st" "\<not> ctl_failed st"
    using crossing_run by (auto simp: crossed_def)
  have reach: "output_reachable False st" by (rule run_outs_reachable[OF st(1) output_new_reachable])
  have "crossed 2 st' \<and> locks_inv False st'" if "(output_step False)\<^sup>*\<^sup>* st st'" for st'
    using that
  proof (induction rule: rtranclp_induct)
    case base
    then show ?case using st(2) output_side.inv_reachable[OF reach] by (simp add: output_inv_def)
  next
    case (step st1 st2)
    have "output_inv False st2"
      using output_side.inv_steps[OF _ output_side.inv_reachable[OF reach]] step.hyps by (meson rtranclp.rtrancl_into_rtrancl)
    with step show ?case using crossed_step by (auto simp: output_inv_def)
  qed
  with reach st(3) show ?thesis unfolding crossed_def by blast
qed

theorem sends_can_deadlock_witness:
  "\<exists>st t. output_reachable False st \<and> senders st t = Enabling_Locked \<and> poller st = Out_Disabling"
  using sends_can_deadlock by blast

end
