(* ===== verification/Quit_Threads.thy ===== *)
theory Quit_Threads
  imports Transition_System "HOL-Library.Word"
begin

text \<open>
  Ending the main loop from another thread or from a signal handler, at the level of the mutexes:
  \<open>Communications_Manager::request_quit\<close> and \<open>main_loop\<close> (\<open>src/src/Communications_Manager.cpp\<close>) with
  the event file descriptor (\<open>src/src/polled_eventfd.cpp\<close>). \<open>m_flags\<close> is not recursive. The counter
  of an event file descriptor grows with \<open>write\<close>, \<open>read\<close> resets it, and \<open>epoll_wait\<close> reports the
  descriptor while the counter is not 0.
\<close>

subsection \<open>The event file descriptor\<close>

text \<open>\<open>polled_eventfd::write\<close>: it would block if the sum exceeded the largest counter.\<close>

definition eventfd_write :: "64 word \<Rightarrow> nat \<Rightarrow> nat option" where
  "eventfd_write val n = (if n + unat val \<le> 2 ^ 64 - 2 then Some (n + unat val) else None)"

text \<open>
  \<open>polled_eventfd::data_in\<close>: the value read, which resets the counter (\<open>read\<close> waits while it is
  0), and the callback \<open>pefd_read_callback\<close>, which writes 0.
\<close>

definition pefd_read_callback :: "nat \<Rightarrow> nat option" where
  "pefd_read_callback n = eventfd_write 0 n"

definition eventfd_data_in :: "nat \<Rightarrow> (nat \<times> nat) option" where
  "eventfd_data_in n = (if n = 0 then None else map_option (\<lambda>n'. (n, n')) (pefd_read_callback 0))"

subsection \<open>State\<close>

text \<open>Where the thread of \<open>main_loop\<close> is.\<close>

datatype loop_pc =
  Preparing          \<comment> \<open>before \<open>m_epfd\<close> is locked\<close>
| Prepare_Locked     \<comment> \<open>holds \<open>m_epfd\<close>, creates the event file descriptor\<close>
| Before_Check
| Check_Locked       \<comment> \<open>holds \<open>m_flags\<close>\<close>
| Waiting            \<comment> \<open>in \<open>epoll_wait\<close>\<close>
| Woken              \<comment> \<open>the event file descriptor was reported\<close>
| Returned
| Thrown             \<comment> \<open>left by the exception of \<open>polled_eventfd::create\<close>\<close>

text \<open>A call of \<open>request_quit\<close>, by another thread or by the handler of a signal.\<close>

datatype quit_pc =
  No_Request
| Wants_Flags
| Wants_Epfd         \<comment> \<open>holds \<open>m_flags\<close>\<close>
| Has_Both
| Has_Written

datatype caller = Thread nat | Handler

record quit_state =
  pefd :: "nat option"
  pefd_added :: bool   \<comment> \<open>\<open>epoll\<close> reports the event file descriptor\<close>
  quit_flag :: bool
  flags_mutex :: "caller option option"  \<comment> \<open>\<open>Some None\<close>: held by the loop itself\<close>
  epfd_mutex :: "caller option option"
  requests :: "caller \<Rightarrow> quit_pc"
  loop_at :: loop_pc

subsection \<open>Steps\<close>

definition request_at :: "caller \<Rightarrow> quit_pc \<Rightarrow> quit_state \<Rightarrow> quit_state" where
  "request_at c pc st = st\<lparr>requests := (requests st)(c := pc)\<rparr>"

definition call_quit :: "caller \<Rightarrow> quit_state \<Rightarrow> quit_state option" where
  "call_quit c st = (if requests st c = No_Request then Some (request_at c Wants_Flags st) else None)"

definition request_quit_step :: "caller \<Rightarrow> quit_state \<Rightarrow> quit_state option" where
  "request_quit_step c st =
     (case requests st c of
        No_Request \<Rightarrow> None
      | Wants_Flags \<Rightarrow>
          if flags_mutex st = None then Some (request_at c Wants_Epfd (st\<lparr>flags_mutex := Some (Some c)\<rparr>)) else None
      | Wants_Epfd \<Rightarrow>
          if epfd_mutex st = None \<or> c = Handler \<and> epfd_mutex st = Some None
          then Some (request_at c Has_Both (if epfd_mutex st = None then st\<lparr>epfd_mutex := Some (Some c)\<rparr> else st)) else None
      | Has_Both \<Rightarrow>
          (case pefd st of
             None \<Rightarrow> Some (request_at c Has_Written st)
           | Some n \<Rightarrow> map_option (\<lambda>n. request_at c Has_Written (st\<lparr>pefd := Some n\<rparr>)) (eventfd_write 1 n))
      | Has_Written \<Rightarrow>
          Some (request_at c No_Request (st\<lparr>quit_flag := True, flags_mutex := None,
            epfd_mutex := (if epfd_mutex st = Some (Some c) then None else epfd_mutex st)\<rparr>)))"

text \<open>
  What the system calls of the loop answer: \<open>eventfd\<close> and \<open>epoll_ctl\<close> when the event file descriptor
  is created and added, and \<open>epoll_wait\<close>, which reports the event file descriptor, reports another
  descriptor or is interrupted, or fails.
\<close>

datatype loop_event = Succeeds | Eventfd_Fails | Add_Fails | Other_Event | Wait_Fails

text \<open>
  The loop. While a handler runs, the thread it interrupted does not. \<open>main_loop\<close> ignores that
  \<open>add_polled_fd\<close> failed for the event file descriptor, and a failing \<open>epoll_wait\<close> ends it.
\<close>

definition loop_step :: "loop_event \<Rightarrow> quit_state \<Rightarrow> quit_state option" where
  "loop_step ev st =
     (if requests st Handler \<noteq> No_Request then None
      else
        (case loop_at st of
           Preparing \<Rightarrow>
             if epfd_mutex st = None then Some (st\<lparr>epfd_mutex := Some None, loop_at := Prepare_Locked\<rparr>) else None
         | Prepare_Locked \<Rightarrow>
             if ev = Eventfd_Fails then Some (st\<lparr>epfd_mutex := None, loop_at := Thrown\<rparr>)
             else Some (st\<lparr>pefd := Some 0, pefd_added := (ev \<noteq> Add_Fails), epfd_mutex := None, loop_at := Before_Check\<rparr>)
         | Before_Check \<Rightarrow>
             if flags_mutex st = None then Some (st\<lparr>flags_mutex := Some None, loop_at := Check_Locked\<rparr>) else None
         | Check_Locked \<Rightarrow>
             Some (st\<lparr>flags_mutex := None, loop_at := (if quit_flag st then Returned else Waiting)\<rparr>)
         | Waiting \<Rightarrow>
             if ev = Wait_Fails then Some (st\<lparr>loop_at := Returned\<rparr>)
             else if ev = Other_Event then Some (st\<lparr>loop_at := Before_Check\<rparr>)
             else if pefd_added st \<and> pefd st \<noteq> Some 0 then Some (st\<lparr>loop_at := Woken\<rparr>) else None
         | Woken \<Rightarrow>
             (case pefd st of
                None \<Rightarrow> None
              | Some n \<Rightarrow> map_option (\<lambda>(val, n'). st\<lparr>pefd := Some n', loop_at := Before_Check\<rparr>) (eventfd_data_in n))
         | Returned \<Rightarrow> None
         | Thrown \<Rightarrow> None))"

text \<open>With \<open>signals\<close> the handler may be called in the thread of the loop at any time.\<close>

definition quit_step :: "bool \<Rightarrow> quit_state \<Rightarrow> quit_state \<Rightarrow> bool" where
  "quit_step signals st st' \<longleftrightarrow>
     (\<exists>c. (c = Handler \<longrightarrow> signals \<and> loop_at st \<notin> {Returned, Thrown}) \<and> call_quit c st = Some st') \<or>
     (\<exists>c. request_quit_step c st = Some st') \<or> (\<exists>ev. loop_step ev st = Some st')"

definition quit_start :: "quit_state \<Rightarrow> bool" where
  "quit_start st \<longleftrightarrow> pefd st = None \<and> \<not> pefd_added st \<and> \<not> quit_flag st \<and> flags_mutex st = None \<and> epfd_mutex st = None \<and>
     requests st = (\<lambda>_. No_Request) \<and> loop_at st = Preparing"

abbreviation quit_reachable :: "bool \<Rightarrow> quit_state \<Rightarrow> bool" where
  "quit_reachable signals \<equiv> reachable quit_start (quit_step signals)"

end
