(* ===== verification/Server_Main.thy ===== *)
theory Server_Main
  imports Server_Loop
begin

text \<open>
  Starting the server: the listening socket (\<open>src/src/server/TCP_Listener.cpp\<close>), the descriptor it
  owns (\<open>src/src/polled_fd.cpp\<close>) and \<open>main\<close> (\<open>src/src/server/main.cpp\<close>). The results of the system
  calls are arguments; the descriptors that are closed are recorded in order.
\<close>

subsection \<open>The listening socket\<close>

text \<open>The destructor of \<open>polled_fd\<close>: what it closes.\<close>

definition polled_fd_destroy :: "bool \<Rightarrow> int \<Rightarrow> int list" where
  "polled_fd_destroy close_fd fd = (if close_fd \<and> 0 \<le> fd then [fd] else [])"

record listener_calls =
  socket_result :: int
  setsockopt_ok :: bool
  bind_ok :: bool
  listen_ok :: bool

text \<open>
  The constructor of \<open>TCP_Listener\<close>. When it throws, the base class has been constructed and \<open>fd\<close> is
  set, so the destructor of \<open>polled_fd\<close> runs after the \<open>close\<close> in the body.
\<close>

definition TCP_Listener_create :: "listener_calls \<Rightarrow> int option \<times> int list" where
  "TCP_Listener_create calls =
     (let fd = socket_result calls
      in if fd < 0 then (None, polled_fd_destroy True fd)
         else if \<not> setsockopt_ok calls then (None, [fd] @ polled_fd_destroy True fd)
         else if \<not> bind_ok calls then (None, [fd] @ polled_fd_destroy True fd)
         else if \<not> listen_ok calls then (None, [fd] @ polled_fd_destroy True fd)
         else (Some fd, []))"

subsection \<open>The program\<close>

datatype exit_code = EXIT_SUCCESS | EXIT_FAILURE

text \<open>
  \<open>signal_handler\<close>: before the daemon exists the program exits at once, afterwards the loop is asked to
  quit.
\<close>

definition signal_handler :: "server option \<Rightarrow> server option \<times> exit_code option" where
  "signal_handler d =
     (case d of None \<Rightarrow> (None, Some EXIT_SUCCESS) | Some sv \<Rightarrow> (Some (request_quit sv), None))"

text \<open>
  \<open>main\<close>: \<open>sigterm\<close> and \<open>sigint\<close> are whether the handlers could be installed. The listener is added to
  the manager before there is an \<open>epoll\<close> instance, which cannot fail.
\<close>

definition server_main ::
    "byte_order \<Rightarrow> bool \<Rightarrow> bool \<Rightarrow> listener_calls \<Rightarrow> setup_result \<Rightarrow> poll_result list \<Rightarrow>
     (server \<times> exit_code option) outcome" where
  "server_main h sigterm sigint calls st polls =
     (let sv = server_new
      in if \<not> sigterm then Ok (sv, Some EXIT_FAILURE)
         else if \<not> sigint then Ok (sv, Some EXIT_FAILURE)
         else andthen (daemon_run h (fst (TCP_Listener_create calls) \<noteq> None) st polls sv) (\<lambda>(sv, ret).
              Ok (sv, map_option (\<lambda>b. if b then EXIT_SUCCESS else EXIT_FAILURE) ret)))"

end
