(* ===== verification/Quit_Properties.thy ===== *)
theory Quit_Properties
  imports Quit_Threads Server_Main Daemon_Properties
begin

text \<open>
  Starting and ending the server: the exit status, what happens to the listening socket on a failure,
  and that a request to quit is not lost.
\<close>

subsection \<open>Invariant\<close>


lemma request_quit_cases:
  assumes "request_quit_step c st = Some st'"
  obtains
    (flags) "requests st c = Wants_Flags" "flags_mutex st = None"
      "st' = request_at c Wants_Epfd (st\<lparr>flags_mutex := Some (Some c)\<rparr>)"
  | (epfd) "requests st c = Wants_Epfd" "epfd_mutex st = None"
      "st' = request_at c Has_Both (st\<lparr>epfd_mutex := Some (Some c)\<rparr>)"
  | (epfd_again) "requests st c = Wants_Epfd" "c = Handler" "epfd_mutex st = Some None" "st' = request_at c Has_Both st"
  | (no_pefd) "requests st c = Has_Both" "pefd st = None" "st' = request_at c Has_Written st"
  | (written) n where "requests st c = Has_Both" "pefd st = Some n" "st' = request_at c Has_Written (st\<lparr>pefd := Some (n + 1)\<rparr>)"
  | (set) "requests st c = Has_Written"
      "st' = request_at c No_Request (st\<lparr>quit_flag := True, flags_mutex := None,
         epfd_mutex := (if epfd_mutex st = Some (Some c) then None else epfd_mutex st)\<rparr>)"
  using assms unfolding request_quit_step_def eventfd_write_def
  by (auto split: quit_pc.splits if_splits option.splits)



lemma request_at_fields [simp]:
  "pefd (request_at c pc st) = pefd st" "quit_flag (request_at c pc st) = quit_flag st"
  "flags_mutex (request_at c pc st) = flags_mutex st" "epfd_mutex (request_at c pc st) = epfd_mutex st"
  "requests (request_at c pc st) = (requests st)(c := pc)" "loop_at (request_at c pc st) = loop_at st"
  by (simp_all add: request_at_def)








subsection \<open>A request is not lost\<close>










text \<open>A run in which a thread asks the loop to quit while it is waiting.\<close>

definition quit_idle :: quit_state where
  "quit_idle = \<lparr>pefd = None, pefd_added = False, quit_flag = False, flags_mutex = None, epfd_mutex = None,
     requests = (\<lambda>_. No_Request), loop_at = Preparing\<rparr>"


lemma reachable_loop: "quit_reachable signals st \<Longrightarrow> loop_step ev st = Some st' \<Longrightarrow> quit_reachable signals st'"
  by (erule reachable_step) (auto simp: quit_step_def)



lemma reachable_checking:
  "quit_reachable signals (quit_idle\<lparr>pefd := Some 0, pefd_added := True, flags_mutex := Some None, loop_at := Check_Locked\<rparr>)"
proof -
  have "quit_reachable signals quit_idle" by (rule reachable_init) (simp add: quit_start_def quit_idle_def)
  then have "quit_reachable signals (quit_idle\<lparr>epfd_mutex := Some None, loop_at := Prepare_Locked\<rparr>)"
    by (rule reachable_loop[where ev = Succeeds]) (simp add: loop_step_def quit_idle_def)
  then have "quit_reachable signals (quit_idle\<lparr>pefd := Some 0, pefd_added := True, loop_at := Before_Check\<rparr>)"
    by (rule reachable_loop[where ev = Succeeds]) (simp add: loop_step_def quit_idle_def)
  then show ?thesis by (rule reachable_loop[where ev = Succeeds]) (simp add: loop_step_def quit_idle_def)
qed



subsection \<open>A signal at the wrong moment\<close>

definition signal_stuck :: "quit_state \<Rightarrow> bool" where
  "signal_stuck st \<longleftrightarrow> loop_at st = Check_Locked \<and> flags_mutex st = Some None \<and>
     requests st Handler = Wants_Flags \<and> (\<forall>c. requests st c \<in> {No_Request, Wants_Flags})"

lemma signal_stuck_step: "quit_step signals st st' \<Longrightarrow> signal_stuck st \<Longrightarrow> signal_stuck st'"
  unfolding quit_step_def
proof (elim disjE exE conjE)
  fix c assume "call_quit c st = Some st'" "signal_stuck st"
  then show "signal_stuck st'" by (auto simp: call_quit_def signal_stuck_def split: if_splits)
next
  fix c assume "request_quit_step c st = Some st'" and stuck: "signal_stuck st"
  then show "signal_stuck st'" by (cases rule: request_quit_cases) (auto simp: signal_stuck_def dest: spec[of _ c])
next
  fix ev assume "loop_step ev st = Some st'" "signal_stuck st"
  then show "signal_stuck st'" by (simp add: loop_step_def signal_stuck_def)
qed

lemma signal_stuck_forever: "(quit_step signals)\<^sup>*\<^sup>* st st' \<Longrightarrow> signal_stuck st \<Longrightarrow> signal_stuck st'"
  by (induction rule: rtranclp_induct) (auto intro: signal_stuck_step)

text \<open>
  C37: A signal can hang the server for ever. The handler calls \<open>request_quit\<close>, which locks \<open>m_flags\<close>;
  when it interrupts the thread of the loop while that thread holds \<open>m_flags\<close>, which is not
  recursive, the handler waits for the thread it interrupted, and no step of any other thread ends
  this: the loop stays at the check of \<open>quit_requested\<close> and the handler at the lock.
\<close>

theorem signal_can_deadlock:
  "\<exists>st. quit_reachable True st \<and> (\<forall>st'. (quit_step True)\<^sup>*\<^sup>* st st' \<longrightarrow>
     loop_at st' = Check_Locked \<and> requests st' Handler = Wants_Flags)"
proof (intro exI conjI allI impI)
  let ?st = "request_at Handler Wants_Flags
    (quit_idle\<lparr>pefd := Some 0, pefd_added := True, flags_mutex := Some None, loop_at := Check_Locked\<rparr>)"
  show "quit_reachable True ?st"
    by (rule reachable_step[OF reachable_checking]) (auto simp: quit_step_def call_quit_def quit_idle_def)
  have "signal_stuck ?st" by (simp add: signal_stuck_def quit_idle_def)
  moreover fix st' assume "(quit_step True)\<^sup>*\<^sup>* ?st st'"
  ultimately have "signal_stuck st'" by (rule signal_stuck_forever[rotated])
  then show "loop_at st' = Check_Locked" "requests st' Handler = Wants_Flags" by (simp_all add: signal_stuck_def)
qed

theorem signal_can_deadlock_witness:
  "\<exists>st. quit_reachable True st \<and> loop_at st = Check_Locked \<and> requests st Handler = Wants_Flags"
  using signal_can_deadlock by blast

subsection \<open>The exit status\<close>

text \<open>
  A listener that cannot be set up closes its descriptor in the constructor and once more in the
  destructor of its base class.
\<close>

lemma listener_closes:
  "TCP_Listener_create calls =
     (let fd = socket_result calls; ready = setsockopt_ok calls \<and> bind_ok calls \<and> listen_ok calls
      in if fd < 0 then (None, []) else if ready then (Some fd, []) else (None, [fd, fd]))"
  by (simp add: TCP_Listener_create_def polled_fd_destroy_def Let_def)

text \<open>
  C35: The exit status of the server. When \<open>main\<close> returns, it returns \<open>EXIT_FAILURE\<close> exactly if a
  signal handler could not be installed, the listening socket could not be created, bound or put
  into the listening state, or the \<open>epoll\<close> instance could not be prepared; in particular a failing
  \<open>epoll_wait\<close> is not visible in the exit status.
\<close>

theorem server_exit_status:
  assumes "server_main h sigterm sigint calls st polls = Ok (sv, Some code)"
  shows "code = EXIT_FAILURE \<longleftrightarrow>
     \<not> (sigterm \<and> sigint \<and> 0 \<le> socket_result calls \<and> setsockopt_ok calls \<and> bind_ok calls \<and> listen_ok calls \<and>
        epoll_create_ok st \<and> epoll_adds_ok st)"
  using assms poll_loop_returns[of h polls "server_new\<lparr>epfd_open := True\<rparr>"]
  by (auto simp: server_main_def daemon_run_def main_loop_def listener_closes Let_def andthen_Ok_iff server_new_def
      split: if_splits)

definition port_in_use :: listener_calls where
  "port_in_use = \<lparr>socket_result = 3, setsockopt_ok = True, bind_ok = False, listen_ok = True\<rparr>"

theorem server_exit_status_witness:
  "\<exists>sv code. server_main Little_Endian True True port_in_use setup_ok [] = Ok (sv, Some code) \<and> code = EXIT_FAILURE"
proof -
  have "\<exists>sv code. server_main Little_Endian True True port_in_use setup_ok [] = Ok (sv, Some code)"
    by (simp add: server_main_def listener_closes daemon_run_def port_in_use_def)
  then show ?thesis using server_exit_status by (fastforce simp: port_in_use_def)
qed

end
