(* ===== verification/Spec2Isabelle.thy ===== *)
theory Spec2Isabelle
  imports Lock_Properties Client_Properties Manager_Properties Output_Properties Quit_Properties
begin

text \<open>
  \<^bold>\<open>TCLM, a centralized lock manager with multiple-granularity locks.\<close>

  \<^bold>\<open>The program.\<close> Clients connect to the server \<open>tclmd\<close> over TCP, register processes and
  ask for locks on dotted paths (\<open>a.b.c\<close>) in the modes S, S+ and X. The server keeps one tree of
  locks per first path component, grants or queues each request, and notifies the clients of
  queued requests when they are answered. Its parts, from the bottom up:

  \<^item> the wire: \<open>stream.c\<close> (a growing byte buffer), \<open>ringbuffer.cpp\<close>, \<open>Connection.cpp\<close>
    (framing of messages, send queue);
  \<^item> the locks: \<open>server/Lock.cpp\<close>, \<open>Lock_Request.cpp\<close> (one tree), \<open>Lock_Forest.cpp\<close>
    (all trees, path strings), \<open>Process.cpp\<close>, \<open>Process_map.cpp\<close>, \<open>backend.cpp\<close>;
  \<^item> the daemon: \<open>server/daemon.cpp\<close>, which decodes messages, calls the backend and encodes
    answers and notifications;
  \<^item> the event loop: \<open>Communications_Manager.cpp\<close>, \<open>polled_fd.cpp\<close>, \<open>polled_eventfd.cpp\<close> and
    \<open>server/TCP_Listener.cpp\<close>, started by \<open>server/main.cpp\<close>;
  \<^item> the client library: \<open>client/Access_Concentrator.cpp\<close> with the request classes (tables of
    waiting requests, one connection to the server), and \<open>client/Lock_impl.cpp\<close>,
    \<open>Process_impl.cpp\<close>, \<open>tclmc_impl.cpp\<close>, whose calls block until their request is answered;
  \<^item> the command line tool: \<open>manager/argument_parser.cpp\<close>, \<open>manager/main.cpp\<close>, which sends queries to
    the server and prints the answers, and \<open>client/example/main.cpp\<close>, an example of the library.

  All file names are relative to \<open>src/src\<close>.

  \<^bold>\<open>Where to find what.\<close>

  \<^item> \<open>Tclm_Prelude\<close>, \<open>Messages\<close>, \<open>Ordered_Containers\<close>, \<open>Transition_System\<close>: machine types,
    kinds of undefined behaviour, constants of \<open>messages.h\<close>, ordered maps and sets (locale
    \<open>dictionary\<close>), reachability and invariants (locale \<open>inductive_invariant\<close>).
  \<^item> \<open>Lock_Tree\<close>: \<open>Lock::acquire\<close>, \<open>release\<close>, \<open>create_not_held\<close>, \<open>destroy\<close>. A lock is a
    node record with its children; the parent pointer becomes the recursion from the root, and a
    \<open>Process*\<close> becomes the process id. \<open>Lock_Rules\<close> gives induction rules with one case per
    outcome, \<open>Lock_Invariants\<close>, \<open>Lock_Preservation\<close>, \<open>Lock_Safety\<close> the invariant and its
    preservation, \<open>Lock_Spec\<close>, \<open>Lock_Refinement\<close>, \<open>Lock_Queues\<close>, \<open>Lock_Creation\<close> the
    abstract table of grants and waiting requests and the refinement lemmas.
  \<^item> \<open>Lock_Forest\<close>, \<open>Path_Names\<close>, \<open>Forest_Refinement\<close>, \<open>Server_Process\<close>, \<open>Process_Map\<close>,
    \<open>Backend\<close>, \<open>Backend_Correct\<close>, \<open>Unregister\<close>, \<open>Requesters\<close>, \<open>Backend_Scenarios\<close>: the forest,
    processes and the backend with its step relation; invariants; which requests refer to which
    processes; runs that lead to defects.
  \<^item> \<open>Byte_Order\<close>, \<open>Byte_Stream\<close>, \<open>Stream_Correct\<close>, \<open>Ring_Buffer\<close> (locale \<open>byte_fifo\<close>),
    \<open>Connection\<close>, \<open>Framing\<close>, \<open>Framing_Faults\<close>, \<open>Sending\<close>: the wire, with a reference
    definition of the framing.
  \<^item> \<open>Daemon\<close>: every message handler; \<open>Daemon_Rules\<close>: one proof rule per stream operation;
    \<open>Daemon_Spec\<close>: the abstract daemon \<open>respond\<close> on byte lists; \<open>Daemon_Correct\<close>,
    \<open>Daemon_Handlers\<close>: each handler implements it; \<open>Delivery\<close>: what is sent arrives.
  \<^item> \<open>Server_Loop\<close>, \<open>Server_Correct\<close>: the event loop and what holds in every run of it.
  \<^item> \<open>Client\<close>, \<open>Client_Api\<close>: the access concentrator, its requests and the classes of the
    interface. \<open>Client_Correct\<close>: the bytes each request is sent as and what each received message
    does. \<open>Client_Steps\<close>: the threads of a client as a step relation, one step per critical section,
    with its invariant; \<open>Client_Safety\<close>: what every step and every later state keeps;
    \<open>Client_Server\<close>: the answers of \<open>respond\<close> at the client.
  \<^item> \<open>Manager\<close>: the argument parser, the queries and the message handlers of the tool;
    \<open>Manager_Correct\<close>: a reference definition of the parser, numbers, and the loops that read
    listings; \<open>Manager_Server\<close>: queries and answers together with \<open>respond\<close>.
  \<^item> \<open>Connection_Threads\<close>: \<open>Connection::send\<close> and \<open>data_out\<close> with \<open>fd_enable_out\<close> and
    \<open>fd_disable_out\<close>, one step per mutex operation, for any number of sending threads and the thread of
    the manager; \<open>Output_Safety\<close>: who holds which mutex, and what the flag, the queue and the interest
    registered with \<open>epoll\<close> say of each other.
  \<^item> \<open>Server_Main\<close>: the constructor of the listening socket, the signal handler and \<open>main\<close>;
    \<open>Quit_Threads\<close>: \<open>request_quit\<close> and the main loop with the event file descriptor, one step per mutex
    operation, called by threads or by a signal handler; the results of \<open>eventfd\<close>, \<open>epoll_ctl\<close> and
    \<open>epoll_wait\<close> are the events of the loop.
  \<^item> \<open>Lock_Properties\<close>, \<open>Server_Properties\<close>, \<open>Wire_Properties\<close>, \<open>Daemon_Properties\<close>,
    \<open>Client_Properties\<close>, \<open>Manager_Properties\<close>, \<open>Output_Properties\<close>, \<open>Quit_Properties\<close>:
    the properties with a concrete instance of each.

  \<^bold>\<open>How the code is modelled.\<close> State is passed explicitly. Undefined behaviour of C++ (an index
  past the end of a vector, \<open>erase(end())\<close>, an access outside a block, a dangling pointer) is a
  value of the type \<open>fault\<close>. \<open>malloc\<close> is a parameter: a function from sizes to blocks of
  arbitrary contents or failure, one per call. Results of \<open>read\<close>, \<open>write\<close>, \<open>accept\<close>,
  \<open>epoll_wait\<close> and \<open>epoll_ctl\<close> are arguments. The iteration order of
  \<open>set<shared_ptr<Lock_Request>>\<close> is the parameter \<open>arrange\<close>. \<open>unsigned long\<close> is a natural
  number with the wrap-around at $2^{64}$ written out, the other integers are words. The bytes of one
  \<open>read\<close> are a list of any length, while the code reads at most 10000 at a time, so that the model has
  all runs of the code and more. Loops that
  need not end (\<open>Process_map::try_destroy\<close>, \<open>Connection::data_in\<close>) are partial functions into
  \<open>option\<close>; there is no fuel. A handler of the daemon ends with an \<open>outcome\<close>: a result, undefined
  behaviour, termination by an uncaught exception, or not at all. In the client a pointer to a
  request is a key of the store \<open>request_objects\<close>, because the thread that issued a request destroys
  it while the tables are served by another thread; the answers of \<open>getaddrinfo\<close>, \<open>socket\<close> and
  \<open>connect\<close> are the fields of the record \<open>address\<close>. What the tool prints is a list of lines, which
  a handler returns when it ends, while the code prints them one by one. The loops of the tool that
  need not end are partial functions too.

  \<^bold>\<open>What the theorems show.\<close> No run of the server grants conflicting locks, whatever bytes it
  receives and whatever fails around it. The operations of the tree, of the backend and of the
  daemon implement abstract specifications, on every branch, and never run into undefined
  behaviour on well-formed messages. Answered requests are notified. Streams, ring buffer, framing
  and sending lose, repeat and reorder nothing. Where the code does not do what it means to do, a
  theorem gives the reachable state or the message: unregistering that hangs or leaves a lock
  behind, leaked intent locks, lost wake-ups, withdrawn requests of another lock, a receive loop
  that spins, a path that is read outside the message, room for a stream that was computed with an
  overflow. Exactly $2^{32}$ processes can be registered. A call of the client library that returns
  did what it says on the server: the reply to a request answers exactly its call with exactly the
  status the server sent. No interleaving of its threads accesses a destroyed request, and the only
  access outside a block is that of a path with a declared length beyond the message;
  but a second call with the same key, a call that outlives the connection and a call with a path
  that is not canonical can wait forever. The tool prints of the server's answers exactly the state
  of the server. The threads of a client never block each other for good and forget no queued message,
  which rests on a mutex of the access concentrator: the connection alone can deadlock. A request to
  quit, which is what the destructor of the access concentrator relies on when it joins its thread,
  ends the loop except if \<open>epoll_ctl\<close> failed for the event file descriptor; and a signal that interrupts the loop of the server while it holds \<open>m_flags\<close> hangs it.

  \<^bold>\<open>Not modelled.\<close> The mutexes other than those of \<open>Connection_Threads\<close> and \<open>Quit_Threads\<close>: the
  backend of the server is used by the thread of its loop only, and in the client a critical section of
  a table or of a request is one step of \<open>Client_Steps\<close>; the joining of the thread in the destructor of the access concentrator; \<open>bad_alloc\<close> of the send queue and
  of strings; that a new \<open>Process\<close> can get the address of a destroyed one: holders are process ids,
  and a lock that outlives its process stays with the id of that process; the help text of the tool and the version lines; \<open>errno_exception\<close>, which carries a text;
  the example program, a fixed sequence of calls of the library with their output; the Python
  bindings, which only declare the classes of the library to Boost.Python.
\<close>

end
